(* ===== verification/Prelude.thy ===== *)
theory Prelude
  imports Main "HOL-Library.AList" "HOL-Library.Multiset"
begin

text \<open>
  Shared vocabulary of the development.

  \<^item> Machine integers.  The crate is built without overflow checks (\<^verbatim>\<open>Cargo.toml\<close> turns
    debug assertions off in the dev profile and the release profile has none), so Rust's
    \<open>+\<close>, \<open>-\<close> and \<open>as\<close> casts wrap.  A value of a Rust integer type is an \<open>int\<close> and
    \<open>i64\<close>, \<open>i32\<close>, \<open>u64\<close> are both the wrap-around of an arithmetic result and the cast.
  \<^item> Results.  \<open>outcome\<close> is Rust's \<open>Result\<close> with one more value for a panic.
  \<^item> Hash maps (\<open>HashMap\<close>, \<open>DashMap\<close>).  An association list with distinct keys; the
    order of the list is one of the orders the map may iterate in.  \<open>keyed_store\<close> is the
    interface the components use, with the facts on weights (sums of sizes) proved once.
\<close>

section \<open>Collections of facts\<close>

named_theorems wrap_simps \<open>machine integers whose value is in range\<close>
named_theorems dm_simps \<open>hash maps: lookup after update, weights\<close>

section \<open>Machine integers\<close>

definition i64 :: "int \<Rightarrow> int" where
  "i64 x = (x + 2 ^ 63) mod 2 ^ 64 - 2 ^ 63"

definition i32 :: "int \<Rightarrow> int" where
  "i32 x = (x + 2 ^ 31) mod 2 ^ 32 - 2 ^ 31"

definition u64 :: "int \<Rightarrow> int" where
  "u64 x = x mod 2 ^ 64"

definition u32 :: "int \<Rightarrow> int" where
  "u32 x = x mod 2 ^ 32"

definition is_i64 :: "int \<Rightarrow> bool" where
  "is_i64 x \<longleftrightarrow> - (2 ^ 63) \<le> x \<and> x < 2 ^ 63"

definition is_i32 :: "int \<Rightarrow> bool" where
  "is_i32 x \<longleftrightarrow> - (2 ^ 31) \<le> x \<and> x < 2 ^ 31"

definition is_u64 :: "int \<Rightarrow> bool" where
  "is_u64 x \<longleftrightarrow> 0 \<le> x \<and> x < 2 ^ 64"

lemma i64_id [wrap_simps]: "- (2 ^ 63) \<le> x \<Longrightarrow> x < 2 ^ 63 \<Longrightarrow> i64 x = x"
  by (simp add: i64_def)

lemma i32_id [wrap_simps]: "- (2 ^ 31) \<le> x \<Longrightarrow> x < 2 ^ 31 \<Longrightarrow> i32 x = x"
  by (simp add: i32_def)

lemma u64_id [wrap_simps]: "0 \<le> x \<Longrightarrow> x < 2 ^ 64 \<Longrightarrow> u64 x = x"
  by (simp add: u64_def)

lemma i64_is_id: "is_i64 x \<Longrightarrow> i64 x = x"
  by (simp add: is_i64_def i64_id)

lemma i32_is_id: "is_i32 x \<Longrightarrow> i32 x = x"
  by (simp add: is_i32_def i32_id)

lemma u64_is_id: "is_u64 x \<Longrightarrow> u64 x = x"
  by (simp add: is_u64_def u64_id)

lemma is_i64_i64 [simp]: "is_i64 (i64 x)"
  by (simp add: is_i64_def i64_def)

lemma is_i32_i32 [simp]: "is_i32 (i32 x)"
  by (simp add: is_i32_def i32_def)

lemma is_u64_u64 [simp]: "is_u64 (u64 x)"
  by (simp add: is_u64_def u64_def)

lemma i64_0 [simp]: "i64 0 = 0"
  by (simp add: i64_def)

lemma u64_0 [simp]: "u64 0 = 0"
  by (simp add: u64_def)

lemma i32_0 [simp]: "i32 0 = 0"
  by (simp add: i32_def)

text \<open>A wrapped sub-term disappears under an outer wrap: only the final wrap matters.\<close>

lemma i64_add_left [simp]: "i64 (i64 a + b) = i64 (a + b)"
proof -
  have "i64 a + b + 2 ^ 63 = (a + 2 ^ 63) mod 2 ^ 64 + b"
    by (simp add: i64_def)
  then show ?thesis
    by (simp add: i64_def mod_simps algebra_simps)
qed

lemma i64_add_right [simp]: "i64 (a + i64 b) = i64 (a + b)"
  using i64_add_left [of b a] by (simp add: add.commute)

lemma i64_diff_right [simp]: "i64 (a - i64 b) = i64 (a - b)"
proof -
  have "a - i64 b + 2 ^ 63 = a + 2 ^ 64 - (b + 2 ^ 63) mod 2 ^ 64"
    by (simp add: i64_def)
  also have "(a + 2 ^ 64 - (b + 2 ^ 63) mod 2 ^ 64) mod 2 ^ 64 = (a + 2 ^ 64 - (b + 2 ^ 63)) mod 2 ^ 64"
    by (rule mod_diff_right_eq)
  finally show ?thesis
    by (simp add: i64_def algebra_simps)
qed

lemma i64_diff_left [simp]: "i64 (i64 a - b) = i64 (a - b)"
  using i64_add_left [of a "- b"] by simp

lemma i64_u64 [simp]: "i64 (u64 x) = i64 x"
  by (simp add: i64_def u64_def mod_simps)

lemma u64_i64 [simp]: "u64 (i64 x) = u64 x"
proof -
  have "i64 x mod 2 ^ 64 = ((x + 2 ^ 63) - 2 ^ 63) mod 2 ^ 64"
    unfolding i64_def by (rule mod_diff_left_eq)
  then show ?thesis by (simp add: u64_def)
qed

lemma u64_add_left [simp]: "u64 (u64 a + b) = u64 (a + b)"
  by (simp add: u64_def mod_simps)

lemma u64_add_right [simp]: "u64 (a + u64 b) = u64 (a + b)"
  by (simp add: u64_def mod_simps)

lemma u64_diff_left [simp]: "u64 (u64 a - b) = u64 (a - b)"
  by (simp add: u64_def mod_simps)

lemma u64_diff_right [simp]: "u64 (a - u64 b) = u64 (a - b)"
  by (simp add: u64_def mod_simps)

section \<open>Results\<close>

datatype ('a, 'e) outcome = Ok 'a | Err 'e | Panic

fun and_then :: "('a, 'e) outcome \<Rightarrow> ('a \<Rightarrow> ('b, 'e) outcome) \<Rightarrow> ('b, 'e) outcome" where
  "and_then (Ok x) f = f x"
| "and_then (Err e) f = Err e"
| "and_then Panic f = Panic"

fun map_err :: "('e \<Rightarrow> 'f) \<Rightarrow> ('a, 'e) outcome \<Rightarrow> ('a, 'f) outcome" where
  "map_err g (Ok x) = Ok x"
| "map_err g (Err e) = Err (g e)"
| "map_err g Panic = Panic"

definition is_ok :: "('a, 'e) outcome \<Rightarrow> bool" where
  "is_ok r \<longleftrightarrow> (case r of Ok _ \<Rightarrow> True | _ \<Rightarrow> False)"

lemma is_ok_simps [simp]: "is_ok (Ok x)" "\<not> is_ok (Err e)" "\<not> is_ok Panic"
  by (simp_all add: is_ok_def)

lemma and_then_eq_Ok:
  "and_then r f = Ok y \<longleftrightarrow> (\<exists>x. r = Ok x \<and> f x = Ok y)"
  by (cases r) auto

lemma and_then_eq_Err:
  "and_then r f = Err e \<longleftrightarrow> r = Err e \<or> (\<exists>x. r = Ok x \<and> f x = Err e)"
  by (cases r) auto

lemma and_then_eq_Panic:
  "and_then r f = Panic \<longleftrightarrow> r = Panic \<or> (\<exists>x. r = Ok x \<and> f x = Panic)"
  by (cases r) auto

text \<open>
  Stateful code: an operation returns the new state with its result, and \<open>run_then\<close> is the \<open>?\<close>
  of such code, which keeps the state that the failing step has left behind.
\<close>

fun run_then ::
    "'s \<times> ('a, 'e) outcome \<Rightarrow> ('a \<Rightarrow> 's \<Rightarrow> 's \<times> ('b, 'e) outcome) \<Rightarrow> 's \<times> ('b, 'e) outcome" where
  "run_then (st, Ok x) f = f x st"
| "run_then (st, Err e) f = (st, Err e)"
| "run_then (st, Panic) f = (st, Panic)"

lemma run_then_eq_Ok:
  "run_then m f = (st', Ok y) \<longleftrightarrow> (\<exists>st x. m = (st, Ok x) \<and> f x st = (st', Ok y))"
  by (cases "(m, f)" rule: run_then.cases) auto

text \<open>What each step keeps, the sequence keeps.\<close>

lemma run_then_keeps: "P (fst y) \<Longrightarrow> (\<And>v s. P s \<Longrightarrow> P (fst (g v s))) \<Longrightarrow> P (fst (run_then y g))"
  by (cases "(y, g)" rule: run_then.cases) auto

section \<open>Hash maps\<close>

type_synonym ('k, 'v) dmap = "('k \<times> 'v) list"

abbreviation dm_get :: "('k, 'v) dmap \<Rightarrow> 'k \<Rightarrow> 'v option" where
  "dm_get \<equiv> map_of"

abbreviation dm_insert :: "'k \<Rightarrow> 'v \<Rightarrow> ('k, 'v) dmap \<Rightarrow> ('k, 'v) dmap" where
  "dm_insert \<equiv> AList.update"

abbreviation dm_remove :: "'k \<Rightarrow> ('k, 'v) dmap \<Rightarrow> ('k, 'v) dmap" where
  "dm_remove \<equiv> AList.delete"

definition dm_contains :: "('k, 'v) dmap \<Rightarrow> 'k \<Rightarrow> bool" where
  "dm_contains m k \<longleftrightarrow> dm_get m k \<noteq> None"

definition dm_ok :: "('k, 'v) dmap \<Rightarrow> bool" where
  "dm_ok m \<longleftrightarrow> distinct (map fst m)"

text \<open>The sum of a size over the values of a map.\<close>

definition weight :: "('v \<Rightarrow> int) \<Rightarrow> ('k \<times> 'v) list \<Rightarrow> int" where
  "weight f es = (\<Sum>(k, v)\<leftarrow>es. f v)"

lemma weight_simps [simp]:
  "weight f [] = 0"
  "weight f ((k, v) # es) = f v + weight f es"
  "weight f (xs @ ys) = weight f xs + weight f ys"
  by (simp_all add: weight_def)

lemma weight_nonneg: "(\<And>k v. (k, v) \<in> set es \<Longrightarrow> 0 \<le> f v) \<Longrightarrow> 0 \<le> weight f es"
  by (induction es) (auto simp: weight_def intro: add_nonneg_nonneg)

lemma weight_dom:
  assumes "distinct (map fst es)"
  shows "weight f es = (\<Sum>k\<in>dom (map_of es). f (the (map_of es k)))"
  using assms
proof (induction es)
  case Nil
  then show ?case by simp
next
  case (Cons e es)
  obtain k v where e: "e = (k, v)" by (cases e)
  from Cons.prems e have new: "k \<notin> dom (map_of es)"
    by (auto simp: dom_map_of_conv_image_fst)
  then have same: "(\<Sum>x\<in>dom (map_of es). f (the (map_of (e # es) x))) = weight f es"
    using Cons by (simp add: e) (intro sum.cong, auto)
  have "dom (map_of (e # es)) = insert k (dom (map_of es))"
    by (auto simp: e)
  then have "(\<Sum>x\<in>dom (map_of (e # es)). f (the (map_of (e # es) x))) =
      f (the (map_of (e # es) k)) + (\<Sum>x\<in>dom (map_of es). f (the (map_of (e # es) x)))"
    using sum.insert [OF finite_dom_map_of new, of "\<lambda>x. f (the (map_of (e # es) x))"]
    by (simp only:)
  moreover have "weight f (e # es) = f (the (map_of (e # es) k)) + weight f es"
    by (simp add: e)
  ultimately show ?case
    unfolding same by (simp only:)
qed

text \<open>
  The interface the components rely on: a lookup, an insert and a remove that behave like
  a partial function, and an iteration that yields every entry once.  What a client needs
  on top is how a sum of sizes over the entries moves, which is proved here once.
\<close>

locale keyed_store =
  fixes lookup :: "'m \<Rightarrow> 'k \<Rightarrow> 'v option"
    and put :: "'k \<Rightarrow> 'v \<Rightarrow> 'm \<Rightarrow> 'm"
    and del :: "'k \<Rightarrow> 'm \<Rightarrow> 'm"
    and entries :: "'m \<Rightarrow> ('k \<times> 'v) list"
    and invar :: "'m \<Rightarrow> bool"
  assumes lookup_put: "lookup (put k v m) = (lookup m)(k \<mapsto> v)"
    and lookup_del: "lookup (del k m) = (lookup m)(k := None)"
    and invar_put: "invar m \<Longrightarrow> invar (put k v m)"
    and invar_del: "invar m \<Longrightarrow> invar (del k m)"
    and entries_lookup: "map_of (entries m) = lookup m"
    and entries_distinct: "invar m \<Longrightarrow> distinct (map fst (entries m))"
begin

lemma weight_lookup:
  "invar m \<Longrightarrow> weight f (entries m) = (\<Sum>k\<in>dom (lookup m). f (the (lookup m k)))"
  by (simp add: weight_dom entries_distinct entries_lookup)

lemma finite_lookup: "finite (dom (lookup m))"
  by (metis entries_lookup finite_dom_map_of)

lemma weight_del:
  assumes "invar m"
  shows "weight f (entries (del k m)) =
    weight f (entries m) - (case lookup m k of None \<Rightarrow> 0 | Some v \<Rightarrow> f v)"
proof (cases "lookup m k")
  case None
  then have "lookup (del k m) = lookup m" by (auto simp: lookup_del)
  with None assms show ?thesis by (simp add: weight_lookup invar_del)
next
  case (Some v)
  have "(\<Sum>x\<in>dom (lookup m) - {k}. f (the (lookup (del k m) x))) =
      (\<Sum>x\<in>dom (lookup m) - {k}. f (the (lookup m x)))"
    by (intro sum.cong) (auto simp: lookup_del)
  moreover have "(\<Sum>x\<in>dom (lookup m). f (the (lookup m x))) =
      f v + (\<Sum>x\<in>dom (lookup m) - {k}. f (the (lookup m x)))"
    using Some by (subst sum.remove [OF finite_lookup, of k]) auto
  ultimately show ?thesis
    using Some assms by (simp add: weight_lookup invar_del lookup_del)
qed

lemma weight_put:
  assumes "invar m"
  shows "weight f (entries (put k v m)) =
    weight f (entries m) - (case lookup m k of None \<Rightarrow> 0 | Some w \<Rightarrow> f w) + f v"
proof -
  have "lookup (del k (put k v m)) = lookup (del k m)"
    by (auto simp: lookup_del lookup_put)
  with assms have "weight f (entries (del k (put k v m))) = weight f (entries (del k m))"
    by (simp add: weight_lookup invar_del invar_put)
  with assms show ?thesis
    by (simp add: weight_del invar_put lookup_put)
qed

end

lemma dm_ok_simps [simp]:
  "dm_ok []"
  "dm_ok m \<Longrightarrow> dm_ok (dm_insert k v m)"
  "dm_ok m \<Longrightarrow> dm_ok (dm_remove k m)"
  by (simp_all add: dm_ok_def distinct_update distinct_delete)

lemma dm_get_insert [dm_simps]: "dm_get (dm_insert k v m) = (dm_get m)(k \<mapsto> v)"
  by (rule update_conv')

lemma dm_get_remove [dm_simps]: "dm_get (dm_remove k m) = (dm_get m)(k := None)"
  by (rule delete_conv')

interpretation dm: keyed_store dm_get dm_insert dm_remove "\<lambda>m. m" dm_ok
  by unfold_locales (simp_all add: dm_simps, simp add: dm_ok_def)

text \<open>
  The loop that recurs in the code: remove each key of a list and add up the sizes of
  what was there (\<open>size += map.remove(&k).map_or(0, |v| v.size)\<close>).
\<close>

fun dm_drain :: "('v \<Rightarrow> int) \<Rightarrow> 'k list \<Rightarrow> ('k, 'v) dmap \<Rightarrow> int \<Rightarrow> ('k, 'v) dmap \<times> int" where
  "dm_drain f [] m acc = (m, acc)"
| "dm_drain f (k # ks) m acc =
     dm_drain f ks (dm_remove k m)
       (i64 (acc + (case dm_get m k of None \<Rightarrow> 0 | Some v \<Rightarrow> f v)))"

lemma dm_remove_filter: "dm_remove k m = filter (\<lambda>e. fst e \<noteq> k) m"
  by (auto simp: AList.delete_eq case_prod_unfold intro!: filter_cong)

lemma dm_get_filter_out: "dm_get (filter (\<lambda>e. fst e \<notin> K) m) k = (if k \<in> K then None else dm_get m k)"
  by (induction m) auto

lemma dm_drain_map: "fst (dm_drain f ks m acc) = filter (\<lambda>e. fst e \<notin> set ks) m"
  by (induction ks arbitrary: m acc) (auto simp: dm_remove_filter conj_commute intro!: filter_cong)

lemma dm_drain_ok: "dm_ok m \<Longrightarrow> dm_ok (fst (dm_drain f ks m acc))"
  by (induction ks arbitrary: m acc) auto

lemma dm_drain_sum:
  assumes "dm_ok m"
  shows "i64 (snd (dm_drain f ks m acc)) = i64 (acc + weight f m - weight f (fst (dm_drain f ks m acc)))"
  using assms
proof (induction ks arbitrary: m acc)
  case Nil
  then show ?case by simp
next
  case (Cons k ks)
  let ?x = "case dm_get m k of None \<Rightarrow> 0 | Some v \<Rightarrow> f v"
  let ?r = "dm_drain f ks (dm_remove k m) (i64 (acc + ?x))"
  have "i64 (snd ?r) = i64 (i64 (acc + ?x) + (weight f (dm_remove k m) - weight f (fst ?r)))"
    using Cons.IH [of "dm_remove k m"] Cons.prems by (simp add: algebra_simps)
  also have "\<dots> = i64 (acc + ?x + (weight f (dm_remove k m) - weight f (fst ?r)))"
    by (rule i64_add_left)
  finally show ?case
    using Cons.prems by (simp add: dm.weight_del algebra_simps)
qed

lemma dm_drain_i64: "is_i64 acc \<Longrightarrow> is_i64 (snd (dm_drain f ks m acc))"
  by (induction ks arbitrary: m acc) auto

text \<open>Draining the keys of the entries that satisfy a predicate keeps the others.\<close>

lemma dm_drain_filter:
  assumes "dm_ok m"
  shows "dm_drain f (map fst (filter P m)) m 0 =
    (filter (\<lambda>e. \<not> P e) m, i64 (weight f (filter P m)))"
proof -
  let ?ks = "map fst (filter P m)"
  have "filter (\<lambda>e. fst e \<notin> set ?ks) m = filter (\<lambda>e. \<not> P e) m"
  proof (rule filter_cong [OF refl])
    fix e assume e: "e \<in> set m"
    have "e' = e" if "e' \<in> set m" "fst e' = fst e" for e'
      using assms that e by (auto simp: dm_ok_def distinct_map inj_on_def)
    with e show "(fst e \<notin> set ?ks) = (\<not> P e)" by auto
  qed
  then have m: "fst (dm_drain f ?ks m 0) = filter (\<lambda>e. \<not> P e) m"
    by (simp add: dm_drain_map)
  have "weight f m = weight f (filter P m) + weight f (filter (\<lambda>e. \<not> P e) m)"
    by (induction m) auto
  then have "i64 (snd (dm_drain f ?ks m 0)) = i64 (weight f (filter P m))"
    using dm_drain_sum [OF assms, of f ?ks 0] m by simp
  moreover have "i64 (snd (dm_drain f ?ks m 0)) = snd (dm_drain f ?ks m 0)"
    by (intro i64_is_id dm_drain_i64) (simp add: is_i64_def)
  ultimately show ?thesis using m by (simp add: prod_eq_iff)
qed

end
