(* ===== verification/Budget.thy ===== *)
theory Budget
  imports Prelude
begin

text \<open>
  The memory budget of the in-memory store: \<^verbatim>\<open>store/mem/budget.rs\<close> and the snapshot type of
  \<^verbatim>\<open>store/mem/capacity.rs\<close>.  Every operation of the code runs under the budget's mutex, so
  one operation is one atomic state transformer and any interleaving of requests is a list
  of operations.  The interface \<open>memory_account\<close> says what a client may rely on.
\<close>

section \<open>State and operations\<close>

record MemoryBudget =
  capacity :: int
  allocated :: int
  used :: int
  allocation_inc_counter :: int

record CapacitySnapshot =
  snap_capacity :: int
  snap_allocated :: int
  snap_used :: int

definition new_budget :: "int \<Rightarrow> MemoryBudget" where
  "new_budget c = \<lparr>capacity = c, allocated = 0, used = 0, allocation_inc_counter = 0\<rparr>"

definition snapshot :: "MemoryBudget \<Rightarrow> CapacitySnapshot" where
  "snapshot b = \<lparr>snap_capacity = capacity b, snap_allocated = allocated b, snap_used = used b\<rparr>"

definition require_allocated :: "int \<Rightarrow> MemoryBudget \<Rightarrow> MemoryBudget \<times> bool \<times> int" where
  "require_allocated sz b =
     (let remaining = i64 (capacity b - allocated b - used b)
      in if remaining < sz then (b, False, -1)
         else let b' = b\<lparr>allocated := i64 (allocated b + sz),
                         allocation_inc_counter := i64 (allocation_inc_counter b + 1)\<rparr>
              in (b', True, allocation_inc_counter b'))"

definition move_allocated_to_used :: "int \<Rightarrow> MemoryBudget \<Rightarrow> MemoryBudget" where
  "move_allocated_to_used sz b =
     (let desc = (if allocated b < sz then allocated b else sz);
          b' = (if allocated b < sz then b\<lparr>allocated := 0\<rparr>
                else b\<lparr>allocated := i64 (allocated b - sz)\<rparr>)
      in b'\<lparr>used := i64 (used b' + desc)\<rparr>)"

definition inc_used :: "int \<Rightarrow> MemoryBudget \<Rightarrow> MemoryBudget" where
  "inc_used sz b = b\<lparr>used := i64 (used b + sz)\<rparr>"

definition dec_used :: "int \<Rightarrow> MemoryBudget \<Rightarrow> MemoryBudget" where
  "dec_used sz b =
     (if used b < sz then b\<lparr>used := 0\<rparr> else b\<lparr>used := i64 (used b - sz)\<rparr>)"

definition dec_allocated :: "int \<Rightarrow> MemoryBudget \<Rightarrow> MemoryBudget" where
  "dec_allocated sz b =
     (if allocated b < sz then b\<lparr>allocated := 0\<rparr>
      else b\<lparr>allocated := i64 (allocated b - sz)\<rparr>)"

section \<open>Invariant\<close>

text \<open>No over-commitment: what is reserved and what is used fit into the capacity.\<close>

definition budget_inv :: "MemoryBudget \<Rightarrow> bool" where
  "budget_inv b \<longleftrightarrow>
     0 \<le> allocated b \<and> 0 \<le> used b \<and> allocated b + used b \<le> capacity b \<and> capacity b < 2 ^ 63"

lemmas budget_defs =
  require_allocated_def move_allocated_to_used_def dec_used_def dec_allocated_def Let_def

lemma budget_inv_new: "0 \<le> c \<Longrightarrow> c < 2 ^ 63 \<Longrightarrow> budget_inv (new_budget c)"
  by (simp add: budget_inv_def new_budget_def)

lemma remaining_eq:
  "budget_inv b \<Longrightarrow> i64 (capacity b - allocated b - used b) = capacity b - allocated b - used b"
  by (intro i64_id) (auto simp: budget_inv_def)

lemma require_allocated_eq:
  assumes "budget_inv b" and "0 \<le> sz"
  shows "require_allocated sz b =
    (if allocated b + used b + sz \<le> capacity b
     then (b\<lparr>allocated := allocated b + sz,
             allocation_inc_counter := i64 (allocation_inc_counter b + 1)\<rparr>,
           True, i64 (allocation_inc_counter b + 1))
     else (b, False, -1))"
proof (cases "allocated b + used b + sz \<le> capacity b")
  case True
  then have "i64 (allocated b + sz) = allocated b + sz"
    using assms by (intro i64_id) (auto simp: budget_inv_def)
  with True show ?thesis
    by (simp add: require_allocated_def remaining_eq [OF assms(1)] Let_def)
next
  case False
  then show ?thesis
    by (simp add: require_allocated_def remaining_eq [OF assms(1)])
qed

lemma move_allocated_eq:
  assumes "budget_inv b" and "0 \<le> sz"
  shows "move_allocated_to_used sz b =
    b\<lparr>allocated := allocated b - min sz (allocated b), used := used b + min sz (allocated b)\<rparr>"
proof -
  have "i64 (used b + min sz (allocated b)) = used b + min sz (allocated b)"
    using assms by (intro i64_id) (auto simp: budget_inv_def)
  moreover have "i64 (allocated b - sz) = allocated b - sz" if "sz \<le> allocated b"
    using assms that by (intro i64_id) (auto simp: budget_inv_def)
  ultimately show ?thesis
    by (auto simp: move_allocated_to_used_def Let_def min_def)
qed

lemma dec_used_eq:
  assumes "budget_inv b" and "0 \<le> sz"
  shows "dec_used sz b = b\<lparr>used := used b - min sz (used b)\<rparr>"
proof -
  have "i64 (used b - sz) = used b - sz" if "sz \<le> used b"
    using assms that by (intro i64_id) (auto simp: budget_inv_def)
  then show ?thesis by (auto simp: dec_used_def min_def)
qed

lemma dec_allocated_eq:
  assumes "budget_inv b" and "0 \<le> sz"
  shows "dec_allocated sz b = b\<lparr>allocated := allocated b - min sz (allocated b)\<rparr>"
proof -
  have "i64 (allocated b - sz) = allocated b - sz" if "sz \<le> allocated b"
    using assms that by (intro i64_id) (auto simp: budget_inv_def)
  then show ?thesis by (auto simp: dec_allocated_def min_def)
qed

lemmas budget_eqs = require_allocated_eq move_allocated_eq dec_used_eq dec_allocated_eq

section \<open>The interface of an account\<close>

text \<open>
  What the rest of the store relies on: reserving succeeds only within the free room and
  then adds exactly the size, committing moves room from reserved to used, and the two
  releases give room back.  The lemmas of the locale are about any implementation.
\<close>

locale memory_account =
  fixes invar :: "'b \<Rightarrow> bool"
    and cap_of :: "'b \<Rightarrow> int" and reserved :: "'b \<Rightarrow> int" and in_use :: "'b \<Rightarrow> int"
    and reserve :: "int \<Rightarrow> 'b \<Rightarrow> 'b \<times> bool \<times> int"
    and commit :: "int \<Rightarrow> 'b \<Rightarrow> 'b"
    and release :: "int \<Rightarrow> 'b \<Rightarrow> 'b"
    and cancel :: "int \<Rightarrow> 'b \<Rightarrow> 'b"
  assumes fits: "invar b \<Longrightarrow> 0 \<le> reserved b \<and> 0 \<le> in_use b \<and> reserved b + in_use b \<le> cap_of b"
    and reserve_invar: "invar b \<Longrightarrow> 0 \<le> n \<Longrightarrow> invar (fst (reserve n b))"
    and reserve_granted: "invar b \<Longrightarrow> 0 \<le> n \<Longrightarrow>
      fst (snd (reserve n b)) \<longleftrightarrow> reserved b + in_use b + n \<le> cap_of b"
    and reserve_reserved: "invar b \<Longrightarrow> 0 \<le> n \<Longrightarrow>
      reserved (fst (reserve n b)) = reserved b + (if fst (snd (reserve n b)) then n else 0)"
    and reserve_frame: "invar b \<Longrightarrow> 0 \<le> n \<Longrightarrow>
      in_use (fst (reserve n b)) = in_use b \<and> cap_of (fst (reserve n b)) = cap_of b"
    and commit_invar: "invar b \<Longrightarrow> 0 \<le> n \<Longrightarrow> invar (commit n b)"
    and commit_moves: "invar b \<Longrightarrow> 0 \<le> n \<Longrightarrow>
      reserved (commit n b) = reserved b - min n (reserved b) \<and>
      in_use (commit n b) = in_use b + min n (reserved b) \<and> cap_of (commit n b) = cap_of b"
    and release_invar: "invar b \<Longrightarrow> 0 \<le> n \<Longrightarrow> invar (release n b)"
    and release_frees: "invar b \<Longrightarrow> 0 \<le> n \<Longrightarrow>
      reserved (release n b) = reserved b \<and>
      in_use (release n b) = in_use b - min n (in_use b) \<and> cap_of (release n b) = cap_of b"
    and cancel_invar: "invar b \<Longrightarrow> 0 \<le> n \<Longrightarrow> invar (cancel n b)"
    and cancel_frees: "invar b \<Longrightarrow> 0 \<le> n \<Longrightarrow>
      reserved (cancel n b) = reserved b - min n (reserved b) \<and>
      in_use (cancel n b) = in_use b \<and> cap_of (cancel n b) = cap_of b"
begin

text \<open>A request that is refused would not have fitted: the account is never too strict.\<close>

lemma refused_is_full:
  "invar b \<Longrightarrow> 0 \<le> n \<Longrightarrow> \<not> fst (snd (reserve n b)) \<Longrightarrow> cap_of b - reserved b - in_use b < n"
  using reserve_granted [of b n] by auto

text \<open>
  The life of one write: reserve \<open>t\<close>, commit the \<open>n \<le> t\<close> bytes that arrived, cancel the rest.
  Afterwards exactly \<open>n\<close> more bytes are in use and no reservation is left behind.
\<close>

lemma reserve_commit_cancel:
  assumes b: "invar b" and n: "0 \<le> n" "n \<le> t"
    and r: "fst (snd (reserve t b))"
  defines "b' \<equiv> cancel (t - n) (commit n (fst (reserve t b)))"
  shows "invar b'" and "reserved b' = reserved b" and "in_use b' = in_use b + n"
    and "cap_of b' = cap_of b"
proof -
  let ?b1 = "fst (reserve t b)"
  let ?b2 = "commit n ?b1"
  have t: "0 \<le> t" using n by simp
  have i1: "invar ?b1" using b t by (rule reserve_invar)
  have i2: "invar ?b2" using i1 n(1) by (rule commit_invar)
  have d: "0 \<le> t - n" using n by simp
  show "invar b'" unfolding b'_def using i2 d by (rule cancel_invar)
  have r1: "reserved ?b1 = reserved b + t" using reserve_reserved [OF b t] r by simp
  have f1: "in_use ?b1 = in_use b" "cap_of ?b1 = cap_of b" using reserve_frame [OF b t] by auto
  have nn: "0 \<le> reserved b" using fits [OF b] by simp
  have r2: "reserved ?b2 = reserved b + t - n" "in_use ?b2 = in_use b + n" "cap_of ?b2 = cap_of b"
    using commit_moves [OF i1 n(1)] r1 f1 nn n by auto
  show "reserved b' = reserved b" "in_use b' = in_use b + n" "cap_of b' = cap_of b"
    unfolding b'_def using cancel_frees [OF i2 d] r2 nn by auto
qed

end

interpretation budget: memory_account budget_inv capacity allocated used
    require_allocated move_allocated_to_used dec_used dec_allocated
proof (unfold_locales, goal_cases)
  case (1 b)
  then show ?case by (auto simp: budget_inv_def)
qed (simp_all add: budget_eqs; auto simp: budget_inv_def)+

section \<open>Sequences of operations\<close>

datatype budget_op = Require int | Move int | Dec_used int | Dec_allocated int

fun op_size :: "budget_op \<Rightarrow> int" where
  "op_size (Require n) = n"
| "op_size (Move n) = n"
| "op_size (Dec_used n) = n"
| "op_size (Dec_allocated n) = n"

fun budget_step :: "budget_op \<Rightarrow> MemoryBudget \<Rightarrow> MemoryBudget" where
  "budget_step (Require n) b = fst (require_allocated n b)"
| "budget_step (Move n) b = move_allocated_to_used n b"
| "budget_step (Dec_used n) b = dec_used n b"
| "budget_step (Dec_allocated n) b = dec_allocated n b"

fun budget_run :: "budget_op list \<Rightarrow> MemoryBudget \<Rightarrow> MemoryBudget" where
  "budget_run [] b = b"
| "budget_run (x # xs) b = budget_run xs (budget_step x b)"

lemma budget_step_inv: "budget_inv b \<Longrightarrow> 0 \<le> op_size x \<Longrightarrow> budget_inv (budget_step x b)"
  by (cases x)
    (simp_all add: budget.reserve_invar budget.commit_invar budget.release_invar budget.cancel_invar)

lemma budget_step_capacity: "capacity (budget_step x b) = capacity b"
  by (cases x) (auto simp: budget_defs)

lemma budget_run_inv:
  "budget_inv b \<Longrightarrow> list_all (\<lambda>x. 0 \<le> op_size x) xs \<Longrightarrow> budget_inv (budget_run xs b)"
  by (induction xs arbitrary: b) (auto simp: budget_step_inv)

lemma budget_run_capacity: "capacity (budget_run xs b) = capacity b"
  by (induction xs arbitrary: b) (auto simp: budget_step_capacity)

section \<open>Properties\<close>

text \<open>
  Whatever requests arrive and in whatever order they take the budget's lock, as long as
  their sizes are not negative the reserved and the used memory stay non-negative and fit
  together into the configured capacity.
\<close>

lemma budget_never_overcommits:
  assumes "0 \<le> cap" and "cap < 2 ^ 63" and "list_all (\<lambda>x. 0 \<le> op_size x) ops"
  defines "b \<equiv> budget_run ops (new_budget cap)"
  shows "0 \<le> allocated b \<and> 0 \<le> used b \<and> allocated b + used b \<le> cap \<and> capacity b = cap"
  using budget_run_inv [OF budget_inv_new [OF assms(1,2)] assms(3)]
  by (simp add: b_def budget_inv_def budget_run_capacity new_budget_def)

lemma budget_never_overcommits_witness:
  "let b = budget_run [Require 60, Require 50, Move 20, Dec_allocated 10, Dec_used 5] (new_budget 100)
   in list_all (\<lambda>x. 0 \<le> op_size x) [Require 60, Require 50, Move 20, Dec_allocated 10, Dec_used 5] \<and>
      allocated b = 30 \<and> used b = 15 \<and> allocated b + used b \<le> 100 \<and> capacity b = 100"
  using budget_never_overcommits
    [of 100 "[Require 60, Require 50, Move 20, Dec_allocated 10, Dec_used 5]"]
  by (simp add: budget_defs new_budget_def i64_id)

text \<open>
  A request of a non-negative size is granted exactly when it fits into what is neither
  reserved nor used; a granted request adds its size to the reserved memory and gets the next
  ticket id, a refused one changes nothing and gets the id -1.
\<close>

theorem require_allocated_exact:
  assumes "budget_inv b" and "0 \<le> n"
  shows "require_allocated n b =
    (if n \<le> capacity b - allocated b - used b
     then (b\<lparr>allocated := allocated b + n,
             allocation_inc_counter := i64 (allocation_inc_counter b + 1)\<rparr>,
           True, i64 (allocation_inc_counter b + 1))
     else (b, False, -1))"
  using require_allocated_eq [OF assms] by (simp add: algebra_simps)

theorem require_allocated_exact_witness:
  "budget_inv \<lparr>capacity = 10, allocated = 4, used = 3, allocation_inc_counter = 7\<rparr> \<and>
   fst (snd (require_allocated 3 \<lparr>capacity = 10, allocated = 4, used = 3, allocation_inc_counter = 7\<rparr>)) \<and>
   snd (require_allocated 4 \<lparr>capacity = 10, allocated = 4, used = 3, allocation_inc_counter = 7\<rparr>) = (False, -1)"
  using require_allocated_exact [of "\<lparr>capacity = 10, allocated = 4, used = 3, allocation_inc_counter = 7\<rparr>" 3]
    require_allocated_exact [of "\<lparr>capacity = 10, allocated = 4, used = 3, allocation_inc_counter = 7\<rparr>" 4]
  by (simp add: budget_inv_def)

text \<open>
  One write through the budget: reserve \<open>t\<close>, move the \<open>n \<le> t\<close> bytes that arrived to the
  used side, give the rest back.  Exactly \<open>n\<close> more bytes are used, and no reservation stays.
\<close>

theorem reserve_move_release:
  assumes "budget_inv b" and "0 \<le> n" and "n \<le> t" and "fst (snd (require_allocated t b))"
  defines "b' \<equiv> dec_allocated (t - n) (move_allocated_to_used n (fst (require_allocated t b)))"
  shows "budget_inv b' \<and> allocated b' = allocated b \<and> used b' = used b + n \<and> capacity b' = capacity b"
  using budget.reserve_commit_cancel [OF assms(1-4)] by (simp add: b'_def)

theorem reserve_move_release_witness:
  "let b = new_budget 100;
       b' = dec_allocated (60 - 45) (move_allocated_to_used 45 (fst (require_allocated 60 b)))
   in fst (snd (require_allocated 60 b)) \<and> allocated b' = 0 \<and> used b' = 45"
  using reserve_move_release [of "new_budget 100" 45 60]
  by (simp add: budget_inv_def new_budget_def require_allocated_def i64_id)

text \<open>
  Sizes come from clients as signed integers and the budget does not check their sign: a
  reservation of a negative size is granted, makes the reserved memory negative, and lets a
  later client reserve more than the capacity.
\<close>

lemma negative_require_overcommits:
  "let (b, granted, _) = require_allocated (-50) (new_budget 100)
   in granted \<and> allocated b = -50 \<and> fst (snd (require_allocated 150 b))"
  by (simp add: require_allocated_def new_budget_def i64_id Let_def)

end
