(* ===== verification/Worker_Types.thy ===== *)
theory Worker_Types
  imports Prelude "HOL-Library.Word"
begin

text \<open>
  The data every component exchanges: the error type of \<^verbatim>\<open>error.rs\<close>, the status codes of
  \<^verbatim>\<open>constant.rs\<close>, the storage types of \<^verbatim>\<open>config.rs\<close> with their bit tests, the partition
  identifiers and request contexts of \<^verbatim>\<open>app.rs\<close> and the shuffle blocks of \<^verbatim>\<open>store/mod.rs\<close>.

  A Rust \<open>String\<close> is a \<open>string\<close> whose characters are the bytes of its UTF-8 encoding;
  \<open>Bytes\<close> is a list of 8-bit words.
\<close>

unbundle bit_operations_syntax

section \<open>Errors and status codes\<close>

text \<open>
  \<open>anyhow::Error\<close> carries a message, an I/O error or, through \<open>into()\<close>, another
  \<open>WorkerError\<close>.  A \<open>WorkerError\<close> that travels as an \<open>anyhow::Error\<close> and comes back by \<open>?\<close>
  is wrapped in \<open>Other\<close>: its constructor is no longer visible to a \<open>match\<close>.
\<close>

datatype worker_error =
    NO_AVAILABLE_LOCAL_DISK
  | INTERNAL_ERROR
  | APP_IS_NOT_FOUND
  | NO_CANDIDATE_STORE
  | PARTIAL_DATA_LOST string
  | LOCAL_DISK_UNHEALTHY string
  | LOCAL_DISK_OWNED_BY_PARTITION_CORRUPTED string
  | NO_ENOUGH_MEMORY_TO_BE_ALLOCATED
  | MEMORY_USAGE_LIMITED_BY_HUGE_PARTITION
  | HTTP_SERVICE_ERROR string
  | TICKET_ID_NOT_EXIST int
  | HDFS_NATIVE_CLIENT_NOT_FOUND string
  | APP_HAS_BEEN_PURGED
  | NOT_READ_HDFS_DATA_FROM_SERVER
  | SPILL_EVENT_EXCEED_RETRY_MAX_LIMIT string
  | STREAM_INCOMPLETE
  | STREAM_INCORRECT string
  | STREAM_ABNORMAL
  | STREAM_MESSAGE_TYPE_NOT_FOUND
  | HDFS_IO_ERROR string anyhow
  | OUT_OF_MEMORY anyhow
  | HDFS_UNHEALTHY
  | Other anyhow
and anyhow =
    Any_message string
  | Any_io
  | Any_worker worker_error

text \<open>The conversion that \<open>?\<close> inserts from \<open>anyhow::Result\<close> to \<open>Result<_, WorkerError>\<close>.\<close>

definition from_anyhow :: "('a, anyhow) outcome \<Rightarrow> ('a, worker_error) outcome" where
  "from_anyhow = map_err Other"

text \<open>\<open>impl From<std::io::Error> for WorkerError\<close>: only the out-of-memory kind is singled out.\<close>

datatype io_error_kind = Kind_OutOfMemory | Kind_other

definition from_io_error :: "io_error_kind \<Rightarrow> worker_error" where
  "from_io_error k = (case k of
     Kind_OutOfMemory \<Rightarrow> OUT_OF_MEMORY Any_io
   | Kind_other \<Rightarrow> Other Any_io)"

datatype StatusCode =
    SUCCESS | DOUBLE_REGISTER | NO_BUFFER | INVALID_STORAGE | NO_REGISTER | NO_PARTITION
  | INTERNAL_ERROR_CODE | TIMEOUT | NO_BUFFER_FOR_HUGE_PARTITION

fun status_code :: "StatusCode \<Rightarrow> int" where
  "status_code SUCCESS = 0"
| "status_code DOUBLE_REGISTER = 1"
| "status_code NO_BUFFER = 2"
| "status_code INVALID_STORAGE = 3"
| "status_code NO_REGISTER = 4"
| "status_code NO_PARTITION = 5"
| "status_code INTERNAL_ERROR_CODE = 6"
| "status_code TIMEOUT = 7"
| "status_code NO_BUFFER_FOR_HUGE_PARTITION = 8"

definition INVALID_BLOCK_ID :: int where
  "INVALID_BLOCK_ID = -1"

section \<open>Storage types\<close>

datatype StorageType =
  MEMORY | LOCALFILE | MEMORY_LOCALFILE | HDFS | MEMORY_HDFS | MEMORY_LOCALFILE_HDFS

fun storage_code :: "StorageType \<Rightarrow> 8 word" where
  "storage_code MEMORY = 1"
| "storage_code LOCALFILE = 2"
| "storage_code MEMORY_LOCALFILE = 3"
| "storage_code HDFS = 4"
| "storage_code MEMORY_HDFS = 5"
| "storage_code MEMORY_LOCALFILE_HDFS = 7"

definition contains_localfile :: "StorageType \<Rightarrow> bool" where
  "contains_localfile t \<longleftrightarrow> storage_code t AND storage_code LOCALFILE \<noteq> 0"

definition contains_memory :: "StorageType \<Rightarrow> bool" where
  "contains_memory t \<longleftrightarrow> storage_code t AND storage_code MEMORY \<noteq> 0"

definition contains_hdfs :: "StorageType \<Rightarrow> bool" where
  "contains_hdfs t \<longleftrightarrow> storage_code t AND storage_code HDFS \<noteq> 0"

lemma contains_simps:
  "contains_memory t \<longleftrightarrow> t \<notin> {LOCALFILE, HDFS}"
  "contains_localfile t \<longleftrightarrow> t \<in> {LOCALFILE, MEMORY_LOCALFILE, MEMORY_LOCALFILE_HDFS}"
  "contains_hdfs t \<longleftrightarrow> t \<in> {HDFS, MEMORY_HDFS, MEMORY_LOCALFILE_HDFS}"
  by (cases t; simp add: contains_memory_def contains_localfile_def contains_hdfs_def)+

section \<open>Partitions, blocks and request contexts\<close>

type_synonym byte = "8 word"
type_synonym bytes = "byte list"

record PartitionedUId =
  app_id :: string
  shuffle_id :: int
  partition_id :: int

record Block =
  block_id :: int
  length_of :: int \<comment> \<open>the field \<open>length\<close>, an \<open>i32\<close>\<close>
  uncompress_length :: int
  crc :: int
  data :: bytes
  task_attempt_id :: int

type_synonym batch = "Block list list"

record DataSegment =
  seg_block_id :: int
  seg_offset :: int
  seg_length :: int
  seg_uncompress_length :: int
  seg_crc :: int
  seg_task_attempt_id :: int

record WritingViewContext =
  w_uid :: PartitionedUId
  w_data_blocks :: "Block list"
  w_data_size :: int

text \<open>\<open>iter().map(|b| b.length).sum::<i32>()\<close>: a wrapping 32-bit sum, left to right.\<close>

definition sum_i32 :: "int list \<Rightarrow> int" where
  "sum_i32 xs = foldl (\<lambda>s x. i32 (s + x)) 0 xs"

definition blocks_size :: "Block list \<Rightarrow> int" where
  "blocks_size bs = u64 (sum_i32 (map length_of bs))"

definition new_writing_ctx :: "PartitionedUId \<Rightarrow> Block list \<Rightarrow> WritingViewContext" where
  "new_writing_ctx uid bs = \<lparr>w_uid = uid, w_data_blocks = bs, w_data_size = blocks_size bs\<rparr>"

datatype ReadingOptions =
    MEMORY_LAST_BLOCK_ID_AND_MAX_SIZE int int
  | FILE_OFFSET_AND_LEN int int

text \<open>A task-id filter is the set of the bitmap (\<open>croaring::Treemap\<close>) as its membership test.\<close>

type_synonym task_filter = "(int \<Rightarrow> bool) option"

record ReadingViewContext =
  r_uid :: PartitionedUId
  r_reading_options :: ReadingOptions
  r_task_ids :: task_filter

record RequireBufferContext =
  q_uid :: PartitionedUId
  q_size :: int

record PurgeDataContext =
  p_app_id :: string
  p_shuffle_id :: "int option"

text \<open>Where every block is shorter than 2 GiB in total, the 32-bit sum is the sum.\<close>

lemma sum_i32_aux:
  "is_i32 s \<Longrightarrow> (\<And>x. x \<in> set xs \<Longrightarrow> 0 \<le> x) \<Longrightarrow> 0 \<le> s \<Longrightarrow> s + sum_list xs < 2 ^ 31 \<Longrightarrow>
   foldl (\<lambda>s x. i32 (s + x)) s xs = s + sum_list xs"
proof (induction xs arbitrary: s)
  case Nil
  then show ?case by simp
next
  case (Cons x xs)
  have rest: "0 \<le> sum_list xs" using Cons.prems(2) by (intro sum_list_nonneg) auto
  have x: "0 \<le> x" using Cons.prems(2) by simp
  have "s + x < 2 ^ 31" using Cons.prems(4) rest by simp
  with x Cons.prems(3) have "i32 (s + x) = s + x" and "is_i32 (s + x)"
    by (simp_all add: i32_id is_i32_def)
  with Cons.IH [of "s + x"] Cons.prems x show ?case by simp
qed

lemma sum_i32_eq:
  "(\<And>x. x \<in> set xs \<Longrightarrow> 0 \<le> x) \<Longrightarrow> sum_list xs < 2 ^ 31 \<Longrightarrow> sum_i32 xs = sum_list xs"
  unfolding sum_i32_def using sum_i32_aux [of 0 xs] by (simp add: is_i32_def)

definition small_blocks :: "Block list \<Rightarrow> bool" where
  "small_blocks bs \<longleftrightarrow> list_all (\<lambda>b. 0 \<le> length_of b) bs \<and> sum_list (map length_of bs) < 2 ^ 31"

lemma blocks_size_small:
  assumes "small_blocks bs"
  shows "blocks_size bs = sum_list (map length_of bs)"
    and "0 \<le> blocks_size bs" and "blocks_size bs < 2 ^ 31"
proof -
  have nonneg: "0 \<le> x" if "x \<in> set (map length_of bs)" for x
    using assms that by (auto simp: small_blocks_def list_all_iff)
  then have sum: "sum_i32 (map length_of bs) = sum_list (map length_of bs)"
    using assms by (intro sum_i32_eq) (auto simp: small_blocks_def)
  have "0 \<le> sum_list (map length_of bs)"
    using nonneg by (rule sum_list_nonneg)
  moreover have "sum_list (map length_of bs) < 2 ^ 31"
    using assms by (simp add: small_blocks_def)
  ultimately show "blocks_size bs = sum_list (map length_of bs)"
    and "0 \<le> blocks_size bs" and "blocks_size bs < 2 ^ 31"
    by (simp_all add: blocks_size_def sum u64_id)
qed

end
