(* ===== verification/Ticket.thy ===== *)
theory Ticket
  imports Worker_Types
begin

text \<open>
  Tickets for reserved memory: \<^verbatim>\<open>store/mem/ticket.rs\<close>.  A ticket remembers how much memory a
  client reserved; it disappears when the client sends its data, or in the periodic check
  when it is too old.  The check iterates over a snapshot of the table and then removes
  from the live table, so the snapshot is an argument of its own: it may be out of date.
\<close>

record Ticket =
  ticket_id :: int
  created_time :: int
  ticket_size :: int
  owned_by_app_id :: string

record TicketManager =
  ticket_store :: "(int, Ticket) dmap"
  ticket_timeout_sec :: int
  ticket_timeout_check_interval_sec :: int

definition new_ticket_manager :: "int \<Rightarrow> int \<Rightarrow> TicketManager" where
  "new_ticket_manager timeout interval =
     \<lparr>ticket_store = [], ticket_timeout_sec = timeout,
      ticket_timeout_check_interval_sec = interval\<rparr>"

text \<open>\<open>(now - created_time) as i64 > timeout_sec\<close>, the subtraction on \<open>u64\<close>.\<close>

definition is_timeout :: "int \<Rightarrow> Ticket \<Rightarrow> int \<Rightarrow> bool" where
  "is_timeout now t timeout_sec \<longleftrightarrow> i64 (u64 (now - created_time t)) > timeout_sec"

definition ticket_exist :: "int \<Rightarrow> TicketManager \<Rightarrow> bool" where
  "ticket_exist i tm \<longleftrightarrow> dm_contains (ticket_store tm) i"

definition ticket_delete ::
    "int \<Rightarrow> TicketManager \<Rightarrow> TicketManager \<times> (int, worker_error) outcome" where
  "ticket_delete i tm =
     (case dm_get (ticket_store tm) i of
        Some t \<Rightarrow> (tm\<lparr>ticket_store := dm_remove i (ticket_store tm)\<rparr>, Ok (ticket_size t))
      | None \<Rightarrow> (tm, Err (TICKET_ID_NOT_EXIST i)))"

definition delete_by_app_id :: "string \<Rightarrow> TicketManager \<Rightarrow> TicketManager \<times> int" where
  "delete_by_app_id app tm =
     (let deleted_ids = map (\<lambda>e. ticket_id (snd e))
            (filter (\<lambda>e. owned_by_app_id (snd e) = app) (ticket_store tm));
          (m, sz) = dm_drain ticket_size deleted_ids (ticket_store tm) 0
      in (tm\<lparr>ticket_store := m\<rparr>, sz))"

definition ticket_insert ::
    "int \<Rightarrow> int \<Rightarrow> int \<Rightarrow> string \<Rightarrow> TicketManager \<Rightarrow> TicketManager \<times> bool" where
  "ticket_insert i sz created app tm =
     (let t = \<lparr>ticket_id = i, created_time = created, ticket_size = sz, owned_by_app_id = app\<rparr>
      in (tm\<lparr>ticket_store := dm_insert i t (ticket_store tm)\<rparr>,
          dm_contains (ticket_store tm) i))"

text \<open>
  One round of the loop in \<open>ticket_check\<close> (the part before the sleep).  The result carries
  the argument of \<open>free_allocated_fn\<close> when it is called.
\<close>

definition ticket_check_round ::
    "(int, Ticket) dmap \<Rightarrow> int \<Rightarrow> TicketManager \<Rightarrow> TicketManager \<times> int option" where
  "ticket_check_round read_view now tm =
     (let discard_tickets = filter (\<lambda>e. is_timeout now (snd e) (ticket_timeout_sec tm)) read_view;
          (m, total_removed_size) =
            dm_drain ticket_size (map (\<lambda>e. ticket_id (snd e)) discard_tickets) (ticket_store tm) 0
      in (tm\<lparr>ticket_store := m\<rparr>,
          if total_removed_size \<noteq> 0 then Some total_removed_size else None))"

section \<open>Invariant and what is outstanding\<close>

text \<open>Every ticket is filed under its own id.\<close>

definition tickets_inv :: "TicketManager \<Rightarrow> bool" where
  "tickets_inv tm \<longleftrightarrow>
     dm_ok (ticket_store tm) \<and> (\<forall>(i, t) \<in> set (ticket_store tm). ticket_id t = i)"

definition outstanding :: "TicketManager \<Rightarrow> int" where
  "outstanding tm = weight ticket_size (ticket_store tm)"

lemma tickets_inv_new: "tickets_inv (new_ticket_manager a b)"
  by (simp add: tickets_inv_def new_ticket_manager_def)

lemma set_dm_insert: "set (dm_insert k v m) \<subseteq> insert (k, v) (set m)"
  by (induction m) auto

lemma tickets_inv_insert: "tickets_inv tm \<Longrightarrow> tickets_inv (fst (ticket_insert i sz c a tm))"
  using set_dm_insert [of i _ "ticket_store tm"]
  by (fastforce simp: tickets_inv_def ticket_insert_def Let_def)

lemma tickets_inv_filter:
  "tickets_inv tm \<Longrightarrow> tickets_inv (tm\<lparr>ticket_store := filter P (ticket_store tm)\<rparr>)"
  by (auto simp: tickets_inv_def dm_ok_def distinct_map_filter)

lemma tickets_inv_delete: "tickets_inv tm \<Longrightarrow> tickets_inv (fst (ticket_delete i tm))"
  by (auto simp: ticket_delete_def dm_remove_filter tickets_inv_filter split: option.split)

lemma tickets_inv_ids:
  "tickets_inv tm \<Longrightarrow>
   map (\<lambda>e. ticket_id (snd e)) (filter P (ticket_store tm)) = map fst (filter P (ticket_store tm))"
  by (auto simp: tickets_inv_def)

section \<open>Behaviour of the operations\<close>

lemma ticket_get_insert:
  "dm_get (ticket_store (fst (ticket_insert i sz c a tm))) j =
    (if j = i then Some \<lparr>ticket_id = i, created_time = c, ticket_size = sz, owned_by_app_id = a\<rparr>
     else dm_get (ticket_store tm) j)"
  by (simp add: ticket_insert_def Let_def dm_simps)

lemma outstanding_insert:
  assumes "tickets_inv tm" and "\<not> ticket_exist i tm"
  shows "outstanding (fst (ticket_insert i sz c a tm)) = outstanding tm + sz"
  using assms
  by (simp add: outstanding_def ticket_insert_def Let_def tickets_inv_def dm.weight_put
      ticket_exist_def dm_contains_def)

lemma outstanding_delete:
  assumes "tickets_inv tm" and "snd (ticket_delete i tm) = Ok sz"
  shows "outstanding (fst (ticket_delete i tm)) = outstanding tm - sz"
  using assms
  by (auto simp: outstanding_def ticket_delete_def tickets_inv_def dm.weight_del split: option.splits)

lemma ticket_delete_once:
  "snd (ticket_delete i tm) = Ok sz \<Longrightarrow>
   snd (ticket_delete i (fst (ticket_delete i tm))) = Err (TICKET_ID_NOT_EXIST i)"
  by (auto simp: ticket_delete_def dm_simps split: option.splits)

lemma delete_by_app_id_eq:
  assumes "tickets_inv tm"
  shows "delete_by_app_id a tm =
    (tm\<lparr>ticket_store := filter (\<lambda>e. owned_by_app_id (snd e) \<noteq> a) (ticket_store tm)\<rparr>,
     i64 (weight ticket_size (filter (\<lambda>e. owned_by_app_id (snd e) = a) (ticket_store tm))))"
  using assms
  by (simp add: delete_by_app_id_def tickets_inv_ids dm_drain_filter tickets_inv_def Let_def)

text \<open>A round over an up-to-date snapshot removes exactly the tickets that are too old.\<close>

lemma ticket_check_fresh:
  fixes now :: int
  assumes "tickets_inv tm"
  defines "late \<equiv> \<lambda>e. is_timeout now (snd e) (ticket_timeout_sec tm)"
  shows "ticket_check_round (ticket_store tm) now tm =
    (let total = i64 (weight ticket_size (filter late (ticket_store tm)))
     in (tm\<lparr>ticket_store := filter (\<lambda>e. \<not> late e) (ticket_store tm)\<rparr>,
         if total \<noteq> 0 then Some total else None))"
  using assms
  by (simp add: ticket_check_round_def tickets_inv_ids dm_drain_filter tickets_inv_def Let_def)

text \<open>
  A round over any snapshot, stale or not, reports exactly the sum of the tickets it took
  out of the live table: a ticket that a client used in the meantime is not freed twice.
\<close>

lemma ticket_check_sum:
  assumes "tickets_inv tm"
    and bound: "is_i64 (outstanding tm - outstanding (fst (ticket_check_round view now tm)))"
  shows "outstanding (fst (ticket_check_round view now tm)) =
    outstanding tm - (case snd (ticket_check_round view now tm) of None \<Rightarrow> 0 | Some x \<Rightarrow> x)"
proof -
  let ?ks = "map (\<lambda>e. ticket_id (snd e))
      (filter (\<lambda>e. is_timeout now (snd e) (ticket_timeout_sec tm)) view)"
  let ?d = "dm_drain ticket_size ?ks (ticket_store tm) 0"
  have "is_i64 (snd ?d)" by (rule dm_drain_i64) (simp add: is_i64_def)
  then have "snd ?d = i64 (weight ticket_size (ticket_store tm) - weight ticket_size (fst ?d))"
    using dm_drain_sum [of "ticket_store tm" ticket_size ?ks 0] assms(1)
    by (simp add: tickets_inv_def i64_is_id)
  also have "\<dots> = weight ticket_size (ticket_store tm) - weight ticket_size (fst ?d)"
    using bound by (intro i64_is_id) (simp add: outstanding_def ticket_check_round_def Let_def case_prod_unfold)
  finally show ?thesis
    by (simp add: outstanding_def ticket_check_round_def Let_def case_prod_unfold)
qed

lemma tickets_inv_check: "tickets_inv tm \<Longrightarrow> tickets_inv (fst (ticket_check_round view now tm))"
  by (simp add: ticket_check_round_def Let_def case_prod_unfold dm_drain_map tickets_inv_filter)

section \<open>Properties\<close>

text \<open>
  A ticket pays for one write only: handing it in returns the size it was issued for and
  removes it, and handing it in again fails with \<open>TICKET_ID_NOT_EXIST\<close>.
\<close>

theorem ticket_used_once:
  "snd (ticket_delete i (fst (ticket_insert i sz created app tm))) = Ok sz \<and>
   snd (ticket_delete i (fst (ticket_delete i (fst (ticket_insert i sz created app tm))))) =
     Err (TICKET_ID_NOT_EXIST i)"
  by (simp add: ticket_delete_def ticket_get_insert dm_simps)

text \<open>
  A round of the timeout check takes out exactly the tickets older than the timeout and
  hands their total size to the release function, which it does not call when nothing was
  taken out.
\<close>

theorem ticket_check_removes_late:
  assumes "tickets_inv tm" and "is_i64 (weight ticket_size (filter (\<lambda>e. is_timeout now (snd e) (ticket_timeout_sec tm)) (ticket_store tm)))"
  shows "ticket_check_round (ticket_store tm) now tm =
    (let late = \<lambda>e. is_timeout now (snd e) (ticket_timeout_sec tm);
         freed = weight ticket_size (filter late (ticket_store tm))
     in (tm\<lparr>ticket_store := filter (\<lambda>e. \<not> late e) (ticket_store tm)\<rparr>,
         if freed \<noteq> 0 then Some freed else None))"
  using ticket_check_fresh [OF assms(1), of now] by (simp add: Let_def i64_is_id [OF assms(2)])

definition sample_tickets :: TicketManager where
  "sample_tickets =
     \<lparr>ticket_store =
        [(1, \<lparr>ticket_id = 1, created_time = 0, ticket_size = 10, owned_by_app_id = ''a''\<rparr>),
         (2, \<lparr>ticket_id = 2, created_time = 95, ticket_size = 20, owned_by_app_id = ''b''\<rparr>)],
      ticket_timeout_sec = 60, ticket_timeout_check_interval_sec = 10\<rparr>"

theorem ticket_check_removes_late_witness:
  "tickets_inv sample_tickets \<and>
   snd (ticket_check_round (ticket_store sample_tickets) 100 sample_tickets) = Some 10 \<and>
   map fst (ticket_store (fst (ticket_check_round (ticket_store sample_tickets) 100 sample_tickets))) = [2]"
  using ticket_check_removes_late [of sample_tickets 100]
  by (simp add: sample_tickets_def tickets_inv_def dm_ok_def is_timeout_def u64_id i64_id is_i64_def Let_def)

text \<open>
  Deleting the tickets of an application removes exactly those and returns their sum.
\<close>

theorem delete_by_app_exact:
  assumes "tickets_inv tm" and "is_i64 (weight ticket_size (filter (\<lambda>e. owned_by_app_id (snd e) = app) (ticket_store tm)))"
  shows "delete_by_app_id app tm =
    (tm\<lparr>ticket_store := filter (\<lambda>e. owned_by_app_id (snd e) \<noteq> app) (ticket_store tm)\<rparr>,
     weight ticket_size (filter (\<lambda>e. owned_by_app_id (snd e) = app) (ticket_store tm)))"
  using delete_by_app_id_eq [OF assms(1), of app] by (simp add: i64_is_id [OF assms(2)])

theorem delete_by_app_exact_witness:
  "tickets_inv sample_tickets \<and> snd (delete_by_app_id ''b'' sample_tickets) = 20 \<and>
   map fst (ticket_store (fst (delete_by_app_id ''b'' sample_tickets))) = [1]"
  using delete_by_app_exact [of sample_tickets "''b''"]
  by (simp add: sample_tickets_def tickets_inv_def dm_ok_def is_i64_def)

end
