(* ===== verification/Shuffle_Format.thy ===== *)
theory Shuffle_Format
  imports Worker_Types
begin

text \<open>
  Byte containers and the on-disk format: \<^verbatim>\<open>composed_bytes.rs\<close>, the \<open>BytesWrapper\<close> of
  \<^verbatim>\<open>store/mod.rs\<close> and \<open>Store::generate_shuffle_file_format\<close>.

  The fixed-width integer encoding is the \<open>bytes\<close> crate's, so it is an argument (a \<open>codec\<close>)
  of everything that writes or reads bytes; \<open>wire_codec\<close> is what the crate documents of it:
  the widths, and that reading what was written gives the value back.  \<open>be_codec\<close> is the
  documented big-endian layout and shows that the assumptions can hold.
\<close>

section \<open>Fixed-width integers on the wire\<close>

record codec =
  put_i32 :: "int \<Rightarrow> bytes"
  put_i64 :: "int \<Rightarrow> bytes"
  take_i32 :: "bytes \<Rightarrow> int"
  take_i64 :: "bytes \<Rightarrow> int"

locale wire_codec =
  fixes c :: codec
  assumes len_i32: "length (put_i32 c x) = 4"
    and len_i64: "length (put_i64 c x) = 8"
    and take_put_i32: "is_i32 x \<Longrightarrow> take_i32 c (put_i32 c x) = x"
    and take_put_i64: "is_i64 x \<Longrightarrow> take_i64 c (put_i64 c x) = x"
begin

lemma take_i32_append: "is_i32 x \<Longrightarrow> take_i32 c (take 4 (put_i32 c x @ rest)) = x"
  by (simp add: len_i32 take_put_i32)

lemma take_i64_append: "is_i64 x \<Longrightarrow> take_i64 c (take 8 (put_i64 c x @ rest)) = x"
  by (simp add: len_i64 take_put_i64)

lemma drop_i32_append: "drop 4 (put_i32 c x @ rest) = rest"
  by (simp add: len_i32)

lemma drop_i64_append: "drop 8 (put_i64 c x @ rest) = rest"
  by (simp add: len_i64)

lemmas codec_simps = len_i32 len_i64 take_i32_append take_i64_append drop_i32_append drop_i64_append

end

fun be_bytes :: "nat \<Rightarrow> int \<Rightarrow> bytes" where
  "be_bytes 0 x = []"
| "be_bytes (Suc n) x = be_bytes n (x div 256) @ [of_int x]"

fun be_value :: "bytes \<Rightarrow> int" where
  "be_value bs = foldl (\<lambda>a b. 256 * a + uint b) 0 bs"

definition be_codec :: codec where
  "be_codec = \<lparr>put_i32 = be_bytes 4, put_i64 = be_bytes 8,
     take_i32 = (\<lambda>bs. i32 (be_value bs)), take_i64 = (\<lambda>bs. i64 (be_value bs))\<rparr>"

lemma length_be_bytes [simp]: "length (be_bytes n x) = n"
  by (induction n arbitrary: x) auto

lemma be_value_be_bytes: "be_value (be_bytes n x) = x mod 256 ^ n"
proof (induction n arbitrary: x)
  case 0
  then show ?case by simp
next
  case (Suc n)
  have "uint (of_int x :: byte) = x mod 256"
    by (simp add: uint_word_of_int)
  moreover have "256 * (x div 256 mod 256 ^ n) + x mod 256 = x mod 256 ^ Suc n"
    using zmod_zmult2_eq [of "256 ^ n" x 256] by simp
  ultimately show ?case
    using Suc [of "x div 256"] by simp
qed

lemma i32_mod: "i32 (x mod 4294967296) = i32 x"
  by (simp add: i32_def mod_simps)

lemma i64_mod: "i64 (x mod 18446744073709551616) = i64 x"
  by (simp add: i64_def mod_simps)

interpretation be: wire_codec be_codec
  by unfold_locales
    (simp_all add: be_codec_def be_value_be_bytes i32_mod i64_mod i32_is_id i64_is_id
      del: be_value.simps be_bytes.simps)

section \<open>Composed bytes\<close>

record ComposedBytes =
  composed :: "bytes list"
  total_len :: int

definition new_composed :: ComposedBytes where
  "new_composed = \<lparr>composed = [], total_len = 0\<rparr>"

definition composed_from :: "bytes list \<Rightarrow> int \<Rightarrow> ComposedBytes" where
  "composed_from all total_size = \<lparr>composed = all, total_len = total_size\<rparr>"

definition composed_put :: "bytes \<Rightarrow> ComposedBytes \<Rightarrow> ComposedBytes" where
  "composed_put b c =
     c\<lparr>total_len := u64 (total_len c + int (length b)), composed := composed c @ [b]\<rparr>"

definition composed_freeze :: "ComposedBytes \<Rightarrow> bytes" where
  "composed_freeze c = foldl (\<lambda>acc x. acc @ x) [] (composed c)"

definition composed_iter :: "ComposedBytes \<Rightarrow> bytes list" where
  "composed_iter c = composed c"

definition composed_len :: "ComposedBytes \<Rightarrow> int" where
  "composed_len c = total_len c"

lemma composed_freeze_concat: "composed_freeze c = concat (composed c)"
proof -
  have "foldl (\<lambda>acc x. acc @ x) acc xs = acc @ concat xs" for acc :: bytes and xs
    by (induction xs arbitrary: acc) auto
  then show ?thesis by (simp add: composed_freeze_def)
qed

text \<open>The stored length is the length of the frozen bytes.\<close>

definition composed_honest :: "ComposedBytes \<Rightarrow> bool" where
  "composed_honest c \<longleftrightarrow> composed_len c = int (length (composed_freeze c))"

lemma composed_honest_new: "composed_honest new_composed"
  by (simp add: composed_honest_def composed_len_def composed_freeze_concat new_composed_def)

lemma composed_honest_put:
  assumes "composed_honest c" and "int (length (composed_freeze c)) + int (length b) < 2 ^ 64"
  shows "composed_honest (composed_put b c)"
  using assms
  by (simp add: composed_honest_def composed_len_def composed_freeze_concat composed_put_def u64_id)

section \<open>Wrapped bytes\<close>

datatype BytesWrapper = Direct bytes | Composed ComposedBytes

fun wrapper_len :: "BytesWrapper \<Rightarrow> int" where
  "wrapper_len (Direct b) = int (length b)"
| "wrapper_len (Composed c) = composed_len c"

fun wrapper_freeze :: "BytesWrapper \<Rightarrow> bytes" where
  "wrapper_freeze (Direct b) = b"
| "wrapper_freeze (Composed c) = composed_freeze c"

fun get_direct :: "BytesWrapper \<Rightarrow> (bytes, worker_error) outcome" where
  "get_direct (Direct b) = Ok b"
| "get_direct (Composed c) = Panic"

fun always_composed :: "BytesWrapper \<Rightarrow> ComposedBytes" where
  "always_composed (Composed c) = c"
| "always_composed (Direct b) = composed_from [b] (int (length b))"

lemma always_composed_same:
  "composed_freeze (always_composed w) = wrapper_freeze w \<and> composed_len (always_composed w) = wrapper_len w"
  by (cases w) (simp_all add: composed_freeze_concat composed_from_def composed_len_def)

section \<open>The shuffle file format\<close>

record ShuffleFileFormat =
  fmt_data :: BytesWrapper
  fmt_index :: BytesWrapper
  fmt_len :: int
  fmt_offset :: int

definition index_entry :: "codec \<Rightarrow> int \<Rightarrow> Block \<Rightarrow> bytes" where
  "index_entry c offset b =
     put_i64 c offset @ put_i32 c (length_of b) @ put_i32 c (uncompress_length b) @
     put_i64 c (crc b) @ put_i64 c (block_id b) @ put_i64 c (task_attempt_id b)"

text \<open>
  The loop of the code, with its four accumulators: the index bytes, the chain of data
  chunks, the tot size (a \<open>usize\<close>) and the running offset.
\<close>

fun format_loop ::
    "codec \<Rightarrow> Block list \<Rightarrow> bytes \<Rightarrow> bytes list \<Rightarrow> int \<Rightarrow> int \<Rightarrow> bytes \<times> bytes list \<times> int \<times> int" where
  "format_loop c [] index chain tot offset = (index, chain, tot, offset)"
| "format_loop c (b # bs) index chain tot offset =
     format_loop c bs (index @ index_entry c offset b) (chain @ [data b])
       (u64 (tot + u64 (length_of b))) (i64 (offset + length_of b))"

definition generate_shuffle_file_format :: "codec \<Rightarrow> Block list \<Rightarrow> int \<Rightarrow> ShuffleFileFormat" where
  "generate_shuffle_file_format c bs offset =
     (let (index, chain, tot, off) = format_loop c bs [] [] 0 offset
      in \<lparr>fmt_data = Composed (composed_from chain tot), fmt_index = Direct index,
          fmt_len = tot, fmt_offset = off\<rparr>)"

text \<open>What a reader makes of an index: one segment per 40 bytes.\<close>

fun decode_entry :: "codec \<Rightarrow> bytes \<Rightarrow> DataSegment" where
  "decode_entry c bs =
     \<lparr>seg_block_id = take_i64 c (take 8 (drop 24 bs)),
      seg_offset = take_i64 c (take 8 bs),
      seg_length = take_i32 c (take 4 (drop 8 bs)),
      seg_uncompress_length = take_i32 c (take 4 (drop 12 bs)),
      seg_crc = take_i64 c (take 8 (drop 16 bs)),
      seg_task_attempt_id = take_i64 c (take 8 (drop 32 bs))\<rparr>"

function decode_index :: "codec \<Rightarrow> bytes \<Rightarrow> DataSegment list" where
  "decode_index c bs =
     (if length bs < 40 then [] else decode_entry c bs # decode_index c (drop 40 bs))"
  by pat_completeness auto
termination
  by (relation "measure (\<lambda>(c, bs). length bs)") auto

declare decode_index.simps [simp del]

definition segment_of :: "Block \<Rightarrow> int \<Rightarrow> DataSegment" where
  "segment_of b offset =
     \<lparr>seg_block_id = block_id b, seg_offset = offset, seg_length = length_of b,
      seg_uncompress_length = uncompress_length b, seg_crc = crc b,
      seg_task_attempt_id = task_attempt_id b\<rparr>"

fun segments_from :: "int \<Rightarrow> Block list \<Rightarrow> DataSegment list" where
  "segments_from offset [] = []"
| "segments_from offset (b # bs) = segment_of b offset # segments_from (offset + length_of b) bs"

text \<open>A block whose fields fit their Rust types and whose declared length is its data's.\<close>

definition block_ok :: "Block \<Rightarrow> bool" where
  "block_ok b \<longleftrightarrow>
     is_i64 (block_id b) \<and> is_i32 (length_of b) \<and> is_i32 (uncompress_length b) \<and>
     is_i64 (crc b) \<and> is_i64 (task_attempt_id b) \<and> length_of b = int (length (data b))"

definition payload :: "Block list \<Rightarrow> bytes" where
  "payload bs = concat (map data bs)"

lemma payload_simps [simp]:
  "payload [] = []" "payload (b # bs) = data b @ payload bs"
  "payload (xs @ ys) = payload xs @ payload ys"
  by (simp_all add: payload_def)

lemma block_ok_length: "block_ok b \<Longrightarrow> 0 \<le> length_of b"
  by (simp add: block_ok_def)

lemma sum_length_payload:
  "list_all block_ok bs \<Longrightarrow> sum_list (map length_of bs) = int (length (payload bs))"
  by (induction bs) (auto simp: block_ok_def)

definition index_bytes :: "codec \<Rightarrow> int \<Rightarrow> Block list \<Rightarrow> bytes" where
  "index_bytes c offset bs =
     concat (map (\<lambda>(b, s). index_entry c (seg_offset s) b) (zip bs (segments_from offset bs)))"

lemma index_bytes_simps [simp]:
  "index_bytes c off [] = []"
  "index_bytes c off (b # bs) = index_entry c off b @ index_bytes c (off + length_of b) bs"
  by (simp_all add: index_bytes_def segment_of_def)

lemma format_loop_eq:
  assumes "list_all block_ok bs" and "0 \<le> tot" and "0 \<le> off"
    and "off + int (length (payload bs)) < 2 ^ 63" and "tot + int (length (payload bs)) < 2 ^ 64"
  shows "format_loop c bs index chain tot off =
    (index @ index_bytes c off bs, chain @ map data bs,
     tot + int (length (payload bs)), off + int (length (payload bs)))"
  using assms
proof (induction bs arbitrary: index chain tot off)
  case Nil
  then show ?case by simp
next
  case (Cons b bs)
  have len: "length_of b = int (length (data b))" and "is_i32 (length_of b)"
    using Cons.prems(1) by (auto simp: block_ok_def)
  then have "u64 (length_of b) = length_of b"
    by (intro u64_id) (auto simp: is_i32_def)
  moreover have "u64 (tot + length_of b) = tot + length_of b"
    using Cons.prems len by (intro u64_id) auto
  moreover have "i64 (off + length_of b) = off + length_of b"
    using Cons.prems len by (intro i64_id) auto
  ultimately show ?case
    using Cons.IH [of "tot + length_of b" "off + length_of b"] Cons.prems len by simp
qed

lemma generate_format_eq:
  assumes "list_all block_ok bs" and "0 \<le> off" and "off + int (length (payload bs)) < 2 ^ 63"
  shows "generate_shuffle_file_format c bs off =
    \<lparr>fmt_data = Composed (composed_from (map data bs) (int (length (payload bs)))),
     fmt_index = Direct (index_bytes c off bs),
     fmt_len = int (length (payload bs)), fmt_offset = off + int (length (payload bs))\<rparr>"
  using assms
  by (simp add: generate_shuffle_file_format_def format_loop_eq)

context wire_codec
begin

lemma length_index_entry: "length (index_entry c off b) = 40"
  by (simp add: index_entry_def len_i32 len_i64)

lemma decode_entry_index_entry:
  assumes "block_ok b" and "is_i64 off"
  shows "decode_entry c (index_entry c off b @ rest) = segment_of b off"
proof -
  have "is_i64 (block_id b)" "is_i32 (length_of b)" "is_i32 (uncompress_length b)"
    "is_i64 (crc b)" "is_i64 (task_attempt_id b)"
    using assms(1) by (auto simp: block_ok_def)
  with assms(2) show ?thesis
    by (simp add: index_entry_def segment_of_def len_i32 len_i64 take_put_i32 take_put_i64)
qed

lemma decode_index_bytes:
  assumes "list_all block_ok bs" and "0 \<le> off" and "off + int (length (payload bs)) < 2 ^ 63"
  shows "decode_index c (index_bytes c off bs @ rest) = segments_from off bs @ decode_index c rest"
  using assms
proof (induction bs arbitrary: off)
  case Nil
  then show ?case by simp
next
  case (Cons b bs)
  have len: "length_of b = int (length (data b))" and ok: "block_ok b"
    using Cons.prems(1) by (auto simp: block_ok_def)
  let ?tail = "index_bytes c (off + length_of b) bs @ rest"
  have "is_i64 off" using Cons.prems by (simp add: is_i64_def)
  then have "decode_index c (index_entry c off b @ ?tail) = segment_of b off # decode_index c ?tail"
    using decode_entry_index_entry [OF ok] length_index_entry [of off b]
    by (subst decode_index.simps) (simp del: decode_entry.simps)
  moreover have "decode_index c ?tail = segments_from (off + length_of b) bs @ decode_index c rest"
    using Cons.prems len by (intro Cons.IH) auto
  ultimately show ?case by simp
qed

end

text \<open>A segment of the index cuts its own block out of the data.\<close>

definition slice :: "int \<Rightarrow> int \<Rightarrow> bytes \<Rightarrow> bytes" where
  "slice off len bs = take (nat len) (drop (nat off) bs)"

lemma segments_slice:
  assumes "list_all block_ok bs"
  shows "map (\<lambda>s. slice (seg_offset s - off) (seg_length s) (payload bs)) (segments_from off bs) = map data bs"
proof -
  have "map (\<lambda>s. slice (seg_offset s - base) (seg_length s) (pre @ payload bs))
      (segments_from (base + int (length pre)) bs) = map data bs" for pre base
    using assms
  proof (induction bs arbitrary: pre)
    case Nil
    then show ?case by simp
  next
    case (Cons b bs)
    have len: "length_of b = int (length (data b))" using Cons.prems by (simp add: block_ok_def)
    have "slice (int (length pre)) (length_of b) (pre @ data b @ payload bs) = data b"
      by (simp add: slice_def len)
    moreover have "map (\<lambda>s. slice (seg_offset s - base) (seg_length s) (pre @ data b @ payload bs))
        (segments_from (base + int (length pre) + length_of b) bs) = map data bs"
      using Cons.IH [of "pre @ data b"] Cons.prems by (simp add: len add.assoc)
    ultimately show ?case by (simp add: segment_of_def)
  qed
  from this [of off "[]"] show ?thesis by simp
qed

lemma segments_from_append:
  "segments_from off (xs @ ys) = segments_from off xs @ segments_from (off + sum_list (map length_of xs)) ys"
  by (induction xs arbitrary: off) (auto simp: add.assoc)

section \<open>Properties\<close>

text \<open>
  C5. The index that is written for a list of blocks reads back as one segment per block, in
  order, with the block's own fields, and each segment cuts exactly its block's bytes out of
  the data that is written with it; the reported length is the length of the data.
\<close>

theorem shuffle_format_roundtrip:
  assumes "wire_codec c" and "list_all block_ok bs"
    and "0 \<le> off" and "off + int (length (payload bs)) < 2 ^ 63"
  defines "fmt \<equiv> generate_shuffle_file_format c bs off"
  shows "decode_index c (wrapper_freeze (fmt_index fmt)) = segments_from off bs \<and>
    map (\<lambda>s. slice (seg_offset s - off) (seg_length s) (wrapper_freeze (fmt_data fmt)))
      (decode_index c (wrapper_freeze (fmt_index fmt))) = map data bs \<and>
    fmt_len fmt = int (length (wrapper_freeze (fmt_data fmt))) \<and>
    fmt_offset fmt = off + fmt_len fmt"
proof -
  have "decode_index c (index_bytes c off bs) = segments_from off bs"
    using wire_codec.decode_index_bytes [OF assms(1-4), of "[]"] by (simp add: decode_index.simps [of _ "[]"])
  moreover have "composed_freeze (composed_from (map data bs) (int (length (payload bs)))) = payload bs"
    by (simp add: composed_freeze_concat composed_from_def payload_def)
  ultimately show ?thesis
    using segments_slice [OF assms(2), of off] by (simp add: fmt_def generate_format_eq [OF assms(2-4)])
qed

definition sample_block :: "int \<Rightarrow> nat \<Rightarrow> Block" where
  "sample_block i n = \<lparr>block_id = i, length_of = int n, uncompress_length = 2 * int n, crc = 77,
     data = replicate n (of_int i), task_attempt_id = 5\<rparr>"

theorem shuffle_format_roundtrip_witness:
  "wire_codec be_codec \<and> list_all block_ok [sample_block 1 3, sample_block 2 2] \<and>
   decode_index be_codec (wrapper_freeze (fmt_index
     (generate_shuffle_file_format be_codec [sample_block 1 3, sample_block 2 2] 100))) =
     [segment_of (sample_block 1 3) 100, segment_of (sample_block 2 2) 103]"
  using shuffle_format_roundtrip [OF be.wire_codec_axioms, of "[sample_block 1 3, sample_block 2 2]" 100]
  by (simp add: be.wire_codec_axioms sample_block_def block_ok_def is_i32_def is_i64_def eval_nat_numeral)

end
