(* ===== verification/Buffer.thy ===== *)
theory Buffer
  imports Shuffle_Format
begin

text \<open>
  The buffer of one partition: \<^verbatim>\<open>store/mem/buffer.rs\<close>.  Blocks are appended to \<open>staging\<close>;
  \<open>spill\<close> moves the staged batches to \<open>flight\<close> under a fresh id, and \<open>clear\<close> forgets them once
  they are on disk.  Readers page through flights and staging with the id of the last block
  they got.

  \<open>flight\<close> is a \<open>HashMap\<close>, whose iteration order is not fixed: the order a read sees is an
  argument \<open>it\<close> of the read operations, and the theorems assume only that it lists the
  entries of the map.
\<close>

section \<open>State and updates\<close>

record BufferInternal =
  total_size :: int
  staging_size :: int
  flight_size :: int
  staging :: batch
  flight :: "(int, batch) dmap"
  flight_counter :: int

record BufferSpillResult =
  flight_id :: int
  flight_len :: int
  spilled_blocks :: batch

record BufferReadResult =
  read_len :: int
  read_blocks :: "Block list"

record PartitionedMemoryData =
  shuffle_data_block_segments :: "DataSegment list"
  mem_data :: BytesWrapper

definition new_buffer :: BufferInternal where
  "new_buffer = \<lparr>total_size = 0, staging_size = 0, flight_size = 0, staging = [], flight = [],
     flight_counter = 0\<rparr>"

definition append_blocks :: "Block list \<Rightarrow> int \<Rightarrow> BufferInternal \<Rightarrow> BufferInternal" where
  "append_blocks blocks sz b =
     b\<lparr>staging := staging b @ [blocks],
       staging_size := i64 (staging_size b + i64 sz),
       total_size := i64 (total_size b + i64 sz)\<rparr>"

definition direct_push :: "Block list \<Rightarrow> BufferInternal \<Rightarrow> BufferInternal" where
  "direct_push blocks b = append_blocks blocks (u64 (sum_i32 (map length_of blocks))) b"

definition spill :: "BufferInternal \<Rightarrow> BufferInternal \<times> BufferSpillResult" where
  "spill b =
     (let staged = staging b; fid = flight_counter b; spill_size = staging_size b
      in (b\<lparr>staging := [],
            flight := dm_insert fid staged (flight b),
            flight_counter := u64 (flight_counter b + 1),
            flight_size := i64 (flight_size b + spill_size),
            staging_size := 0\<rparr>,
          \<lparr>flight_id = fid, flight_len = u64 spill_size, spilled_blocks = staged\<rparr>))"

definition clear :: "int \<Rightarrow> int \<Rightarrow> BufferInternal \<Rightarrow> BufferInternal" where
  "clear fid sz b =
     (let b' = b\<lparr>flight := dm_remove fid (flight b)\<rparr>
      in case dm_get (flight b) fid of
           Some _ \<Rightarrow> b'\<lparr>total_size := i64 (total_size b' - i64 sz),
                       flight_size := i64 (flight_size b' - i64 sz)\<rparr>
         | None \<Rightarrow> b')"

section \<open>Reads\<close>

text \<open>The loop state: \<open>flight_found\<close>, \<open>read_len\<close> and \<open>read_result\<close>.\<close>

type_synonym scan = "bool \<times> int \<times> Block list"

definition filtered_out :: "task_filter \<Rightarrow> Block \<Rightarrow> bool" where
  "filtered_out task_ids b \<longleftrightarrow>
     (case task_ids of Some expected \<Rightarrow> \<not> expected (u64 (task_attempt_id b)) | None \<Rightarrow> False)"

text \<open>The innermost loop; \<open>break\<close> leaves only this loop, the enclosing ones go on.\<close>

fun scan_blocks :: "int \<Rightarrow> int \<Rightarrow> task_filter \<Rightarrow> Block list \<Rightarrow> scan \<Rightarrow> scan" where
  "scan_blocks last_id lim task_ids [] s = s"
| "scan_blocks last_id lim task_ids (b # bs) (found, rlen, res) =
     (if \<not> found \<and> block_id b = last_id then scan_blocks last_id lim task_ids bs (True, rlen, res)
      else if \<not> found then scan_blocks last_id lim task_ids bs (found, rlen, res)
      else if rlen \<ge> lim then (found, rlen, res)
      else if filtered_out task_ids b then scan_blocks last_id lim task_ids bs (found, rlen, res)
      else scan_blocks last_id lim task_ids bs (found, i64 (rlen + length_of b), res @ [b]))"

fun scan_batch :: "int \<Rightarrow> int \<Rightarrow> task_filter \<Rightarrow> batch \<Rightarrow> scan \<Rightarrow> scan" where
  "scan_batch last_id lim task_ids [] s = s"
| "scan_batch last_id lim task_ids (bs # bss) s =
     scan_batch last_id lim task_ids bss (scan_blocks last_id lim task_ids bs s)"

fun scan_flights :: "int \<Rightarrow> int \<Rightarrow> task_filter \<Rightarrow> (int \<times> batch) list \<Rightarrow> scan \<Rightarrow> scan" where
  "scan_flights last_id lim task_ids [] s = s"
| "scan_flights last_id lim task_ids ((_, bb) # it) s =
     scan_flights last_id lim task_ids it (scan_batch last_id lim task_ids bb s)"

text \<open>One turn of the outer \<open>while\<close>: flights, then staging.\<close>

definition read_pass ::
    "(int \<times> batch) list \<Rightarrow> batch \<Rightarrow> int \<Rightarrow> int \<Rightarrow> task_filter \<Rightarrow> scan \<Rightarrow> scan" where
  "read_pass it stg last_id lim task_ids s =
     (let s1 = (if last_id = INVALID_BLOCK_ID then (True, snd s) else s);
          s2 = scan_flights last_id lim task_ids it s1
      in scan_batch last_id lim task_ids stg s2)"

lemma scan_blocks_found: "fst s \<Longrightarrow> fst (scan_blocks l n f bs s)"
  by (induction l n f bs s rule: scan_blocks.induct) auto

lemma scan_batch_found: "fst s \<Longrightarrow> fst (scan_batch l n f bss s)"
  by (induction bss arbitrary: s) (auto simp: scan_blocks_found)

lemma scan_flights_found: "fst s \<Longrightarrow> fst (scan_flights l n f it s)"
  by (induction l n f it s rule: scan_flights.induct) (simp_all add: scan_batch_found)

lemma read_pass_found: "fst s \<Longrightarrow> fst (read_pass it stg l n f s)"
  by (simp add: read_pass_def Let_def scan_batch_found scan_flights_found)

function read_loop ::
    "(int \<times> batch) list \<Rightarrow> batch \<Rightarrow> int \<Rightarrow> int \<Rightarrow> task_filter \<Rightarrow> scan \<Rightarrow> scan" where
  "read_loop it stg last_id lim task_ids s =
     (let s' = read_pass it stg last_id lim task_ids s
      in if \<not> fst s' then read_loop it stg last_id lim task_ids (True, snd s') else s')"
  by pat_completeness auto
termination
  by (relation "measure (\<lambda>(it, stg, l, n, f, s). if fst s then 0 else 1)")
    (auto simp: read_pass_found dest: read_pass_found)

declare read_loop.simps [simp del]

lemma read_loop_found: "fst s \<Longrightarrow> read_loop it stg l n f s = read_pass it stg l n f s"
  by (subst read_loop.simps) (simp add: Let_def read_pass_found)

fun segment_loop :: "Block list \<Rightarrow> bytes list \<Rightarrow> DataSegment list \<Rightarrow> int \<Rightarrow> bytes list \<times> DataSegment list \<times> int" where
  "segment_loop [] block_bytes segments offset = (block_bytes, segments, offset)"
| "segment_loop (b # bs) block_bytes segments offset =
     segment_loop bs (block_bytes @ [data b]) (segments @ [segment_of b offset])
       (i64 (offset + length_of b))"

definition get_v2 ::
    "(int \<times> batch) list \<Rightarrow> int \<Rightarrow> int \<Rightarrow> task_filter \<Rightarrow> BufferInternal \<Rightarrow> PartitionedMemoryData" where
  "get_v2 it last_id lim task_ids b =
     (let (found, rlen, res) = read_loop it (staging b) last_id lim task_ids (False, 0, []);
          (block_bytes, segments, offset) = segment_loop res [] [] 0
      in \<lparr>shuffle_data_block_segments = segments,
          mem_data = Composed (composed_from block_bytes (u64 offset))\<rparr>)"

definition get ::
    "(int \<times> batch) list \<Rightarrow> int \<Rightarrow> int \<Rightarrow> task_filter \<Rightarrow> BufferInternal \<Rightarrow> BufferReadResult" where
  "get it last_id lim task_ids b =
     (let (found, rlen, res) = read_loop it (staging b) last_id lim task_ids (False, 0, [])
      in \<lparr>read_len = u64 rlen, read_blocks = res\<rparr>)"

section \<open>What a read returns\<close>

text \<open>
  The reference: all blocks in reading order, from behind the last block (from the start
  when it is not there any more), those of the wanted tasks, up to and including the one
  that reaches the limit.
\<close>

definition all_blocks :: "(int \<times> batch) list \<Rightarrow> BufferInternal \<Rightarrow> Block list" where
  "all_blocks it b = concat (concat (map snd it)) @ concat (staging b)"

definition lens :: "Block list \<Rightarrow> int" where
  "lens bs = sum_list (map length_of bs)"

fun behind :: "int \<Rightarrow> Block list \<Rightarrow> Block list option" where
  "behind last_id [] = None"
| "behind last_id (b # bs) = (if block_id b = last_id then Some bs else behind last_id bs)"

fun take_limit :: "int \<Rightarrow> Block list \<Rightarrow> Block list" where
  "take_limit lim [] = []"
| "take_limit lim (b # bs) = (if lim \<le> 0 then [] else b # take_limit (lim - length_of b) bs)"

definition rest_after :: "int \<Rightarrow> Block list \<Rightarrow> Block list" where
  "rest_after last_id bs =
     (if last_id = INVALID_BLOCK_ID then bs else case behind last_id bs of Some r \<Rightarrow> r | None \<Rightarrow> bs)"

definition page :: "int \<Rightarrow> int \<Rightarrow> task_filter \<Rightarrow> Block list \<Rightarrow> Block list" where
  "page last_id lim task_ids bs =
     take_limit lim (filter (\<lambda>b. \<not> filtered_out task_ids b) (rest_after last_id bs))"

lemma lens_simps [simp]:
  "lens [] = 0" "lens (b # bs) = length_of b + lens bs" "lens (xs @ ys) = lens xs + lens ys"
  by (simp_all add: lens_def)

lemma lens_nonneg: "list_all (\<lambda>b. 0 \<le> length_of b) bs \<Longrightarrow> 0 \<le> lens bs"
  by (induction bs) auto

lemma lens_filter: "list_all (\<lambda>b. 0 \<le> length_of b) bs \<Longrightarrow> lens (filter P bs) \<le> lens bs"
  by (induction bs) auto

lemma behind_suffix: "behind l bs = Some r \<Longrightarrow> \<exists>p. bs = p @ r"
  by (induction bs) (auto split: if_splits intro: exI [of _ "_ # _"] exI [of _ "[_]"])

lemma behind_append:
  "behind l (xs @ ys) = (case behind l xs of Some r \<Rightarrow> Some (r @ ys) | None \<Rightarrow> behind l ys)"
  by (induction xs) auto

lemma take_limit_append:
  "take_limit n (xs @ ys) = take_limit n xs @ (if lens (take_limit n xs) < n then take_limit (n - lens (take_limit n xs)) ys else [])"
  if "list_all (\<lambda>b. 0 \<le> length_of b) xs" "0 < n"
  using that
proof (induction xs arbitrary: n)
  case Nil
  then show ?case by simp
next
  case (Cons b xs)
  show ?case
  proof (cases "0 < n - length_of b")
    case True
    with Cons show ?thesis by (simp add: algebra_simps)
  next
    case False
    then have "take_limit (n - length_of b) zs = []" for zs by (cases zs) auto
    with Cons.prems False show ?thesis by simp
  qed
qed

text \<open>Nested loops with an inner \<open>break\<close> behave like one loop over the concatenation.\<close>

lemma scan_blocks_full:
  "rlen \<ge> n \<Longrightarrow> scan_blocks l n f bs (True, rlen, res) = (True, rlen, res)"
  by (induction bs) auto

lemma scan_blocks_append:
  "scan_blocks l n f (xs @ ys) s = scan_blocks l n f ys (scan_blocks l n f xs s)"
  by (induction l n f xs s rule: scan_blocks.induct) (auto simp: scan_blocks_full)

lemma scan_batch_concat: "scan_batch l n f bss s = scan_blocks l n f (concat bss) s"
  by (induction bss arbitrary: s) (auto simp: scan_blocks_append)

lemma scan_flights_concat:
  "scan_flights l n f it s = scan_blocks l n f (concat (concat (map snd it))) s"
  by (induction l n f it s rule: scan_flights.induct)
    (auto simp: scan_blocks_append scan_batch_concat)

lemma read_pass_flat:
  "read_pass it (staging b) l n f s =
    scan_blocks l n f (all_blocks it b) (if l = INVALID_BLOCK_ID then (True, snd s) else s)"
  by (simp add: read_pass_def scan_batch_concat scan_flights_concat all_blocks_def scan_blocks_append)

lemma scan_found:
  fixes l n :: int and f :: task_filter
  assumes "list_all (\<lambda>b. 0 \<le> length_of b) bs" and "0 \<le> rlen" and "rlen + lens bs < 2 ^ 63"
  defines "r \<equiv> take_limit (n - rlen) (filter (\<lambda>b. \<not> filtered_out f b) bs)"
  shows "scan_blocks l n f bs (True, rlen, res) = (True, rlen + lens r, res @ r)"
  using assms(1-3) unfolding r_def
proof (induction bs arbitrary: rlen res)
  case Nil
  then show ?case by simp
next
  case (Cons b bs)
  have full: "take_limit (n - rlen) zs = []" if "rlen \<ge> n" for zs
    using that by (cases zs) auto
  have "0 \<le> lens bs" using Cons.prems(1) by (simp add: lens_nonneg)
  then have "i64 (rlen + length_of b) = rlen + length_of b"
    using Cons.prems by (intro i64_id) auto
  with Cons show ?case by (auto simp: full algebra_simps)
qed

lemma scan_not_found:
  "scan_blocks l n f bs (False, rlen, res) =
    (case behind l bs of Some r \<Rightarrow> scan_blocks l n f r (True, rlen, res) | None \<Rightarrow> (False, rlen, res))"
  by (induction bs) auto

lemma read_loop_page:
  fixes b :: BufferInternal and l n :: int and f :: task_filter
  assumes "list_all (\<lambda>b. 0 \<le> length_of b) (all_blocks it b)" and "lens (all_blocks it b) < 2 ^ 63"
  defines "r \<equiv> page l n f (all_blocks it b)"
  shows "read_loop it (staging b) l n f (False, 0, []) = (True, lens r, r)"
proof -
  let ?bs = "all_blocks it b"
  have whole: "scan_blocks l n f ?bs (True, 0, []) = (True, lens (take_limit n (filter (\<lambda>b. \<not> filtered_out f b) ?bs)), take_limit n (filter (\<lambda>b. \<not> filtered_out f b) ?bs))"
    using scan_found [OF assms(1), of 0 l n f "[]"] assms(2) by simp
  show ?thesis
  proof (cases "l = INVALID_BLOCK_ID \<or> behind l ?bs = None")
    case True
    then have "r = take_limit n (filter (\<lambda>b. \<not> filtered_out f b) ?bs)"
      by (auto simp: r_def page_def rest_after_def)
    with whole True show ?thesis
      by (subst read_loop.simps)
        (auto simp: Let_def read_loop_found read_pass_flat scan_not_found)
  next
    case False
    then obtain q where q: "behind l ?bs = Some q" "l \<noteq> INVALID_BLOCK_ID" by auto
    then obtain p where "?bs = p @ q" using behind_suffix by blast
    then have "list_all (\<lambda>b. 0 \<le> length_of b) q" "lens q < 2 ^ 63"
      using assms(1,2) lens_nonneg [of p] by auto
    moreover have "r = take_limit n (filter (\<lambda>b. \<not> filtered_out f b) q)"
      using q by (simp add: r_def page_def rest_after_def)
    ultimately show ?thesis
      using q scan_found [of q 0 l n f "[]"]
      by (subst read_loop.simps) (simp add: Let_def read_pass_flat scan_not_found)
  qed
qed

lemma take_limit_prefix: "\<exists>q. bs = take_limit n bs @ q"
  by (induction n bs rule: take_limit.induct) auto

lemma lens_take_limit:
  "list_all (\<lambda>b. 0 \<le> length_of b) bs \<Longrightarrow> lens (take_limit n bs) \<le> lens bs"
  using take_limit_prefix [of bs n] lens_nonneg by (metis lens_simps(3) le_add_same_cancel1 list_all_append)

lemma rest_after_suffix: "\<exists>p. bs = p @ rest_after l bs"
  by (auto simp: rest_after_def split: option.split dest: behind_suffix)

lemma set_page: "set (page l n f bs) \<subseteq> set bs"
proof -
  obtain p where p: "bs = p @ rest_after l bs" using rest_after_suffix by blast
  let ?k = "filter (\<lambda>b. \<not> filtered_out f b) (rest_after l bs)"
  obtain q where q: "?k = take_limit n ?k @ q" using take_limit_prefix by blast
  have "set (take_limit n ?k) \<subseteq> set ?k" by (subst q) simp
  moreover have "set (rest_after l bs) \<subseteq> set bs" by (subst p) simp
  ultimately show ?thesis by (auto simp: page_def)
qed

lemma lens_page:
  assumes "list_all (\<lambda>b. 0 \<le> length_of b) bs"
  shows "lens (page l n f bs) \<le> lens bs" and "0 \<le> lens (page l n f bs)"
    and "list_all (\<lambda>b. 0 \<le> length_of b) (page l n f bs)"
proof -
  obtain p where p: "bs = p @ rest_after l bs" using rest_after_suffix by blast
  let ?k = "filter (\<lambda>b. \<not> filtered_out f b) (rest_after l bs)"
  have r: "list_all (\<lambda>b. 0 \<le> length_of b) (rest_after l bs)" "list_all (\<lambda>b. 0 \<le> length_of b) p"
    using assms p by (metis list_all_append)+
  then have k: "list_all (\<lambda>b. 0 \<le> length_of b) ?k" by (simp add: list_all_iff)
  obtain q where "?k = take_limit n ?k @ q" using take_limit_prefix by blast
  with k show pg: "list_all (\<lambda>b. 0 \<le> length_of b) (page l n f bs)"
    unfolding page_def by (metis list_all_append)
  then show "0 \<le> lens (page l n f bs)" by (rule lens_nonneg)
  have "lens bs = lens p + lens (rest_after l bs)" using p by (metis lens_simps(3))
  moreover have "0 \<le> lens p" using r(2) by (rule lens_nonneg)
  ultimately show "lens (page l n f bs) \<le> lens bs"
    unfolding page_def using lens_take_limit [OF k, of n] lens_filter [OF r(1), of "\<lambda>b. \<not> filtered_out f b"]
    by linarith
qed

lemma segment_loop_eq:
  assumes "list_all (\<lambda>b. 0 \<le> length_of b) bs" and "0 \<le> off" and "off + lens bs < 2 ^ 63"
  shows "segment_loop bs bb segs off = (bb @ map data bs, segs @ segments_from off bs, off + lens bs)"
  using assms
proof (induction bs arbitrary: bb segs off)
  case Nil
  then show ?case by simp
next
  case (Cons b bs)
  have "0 \<le> lens bs" using Cons.prems(1) by (simp add: lens_nonneg)
  then have "i64 (off + length_of b) = off + length_of b"
    using Cons.prems by (intro i64_id) auto
  with Cons show ?case by (simp add: algebra_simps)
qed

text \<open>Both reads return the reference page; \<open>get_v2\<close> also lays it out as segments.\<close>

lemma get_page:
  fixes l n :: int and f :: task_filter
  assumes "list_all (\<lambda>b. 0 \<le> length_of b) (all_blocks it b)" and "lens (all_blocks it b) < 2 ^ 63"
  defines "r \<equiv> page l n f (all_blocks it b)"
  shows "get it l n f b = \<lparr>read_len = lens r, read_blocks = r\<rparr>"
  using lens_page [OF assms(1), of l n f] assms(2)
  by (simp add: get_def read_loop_page [OF assms(1,2)] r_def u64_id)

lemma get_v2_page:
  fixes l n :: int and f :: task_filter
  assumes "list_all (\<lambda>b. 0 \<le> length_of b) (all_blocks it b)" and "lens (all_blocks it b) < 2 ^ 63"
  defines "r \<equiv> page l n f (all_blocks it b)"
  shows "get_v2 it l n f b =
    \<lparr>shuffle_data_block_segments = segments_from 0 r,
     mem_data = Composed (composed_from (map data r) (lens r))\<rparr>"
  using lens_page [OF assms(1), of l n f] assms(2)
  by (simp add: get_v2_def read_loop_page [OF assms(1,2)] r_def segment_loop_eq u64_id)

section \<open>Paging\<close>

text \<open>
  A client reads page after page, each time with the id of the last block it got, until a
  page is empty.
\<close>

fun read_pages :: "nat \<Rightarrow> (int \<times> batch) list \<Rightarrow> int \<Rightarrow> int \<Rightarrow> task_filter \<Rightarrow> BufferInternal \<Rightarrow> Block list list" where
  "read_pages 0 it last_id lim task_ids b = []"
| "read_pages (Suc k) it last_id lim task_ids b =
     (let r = read_blocks (get it last_id lim task_ids b)
      in if r = [] then [] else r # read_pages k it (block_id (last r)) lim task_ids b)"

definition readable :: "Block list \<Rightarrow> bool" where
  "readable bs \<longleftrightarrow> list_all (\<lambda>b. 0 \<le> length_of b) bs \<and> lens bs < 2 ^ 63 \<and>
     distinct (map block_id bs) \<and> INVALID_BLOCK_ID \<notin> block_id ` set bs"

lemma readable_append: "readable (xs @ ys) \<Longrightarrow> readable ys"
  using lens_nonneg [of xs] by (auto simp: readable_def)

lemma behind_None: "behind l bs = None \<longleftrightarrow> l \<notin> block_id ` set bs"
  by (induction bs) auto

lemma behind_distinct:
  "distinct (map block_id (p @ x # q)) \<Longrightarrow> behind (block_id x) (p @ x # q) = Some q"
  by (induction p) auto

lemma rest_after_last:
  assumes "readable (p @ q)" and "p \<noteq> []"
  shows "rest_after (block_id (last p)) (p @ q) = q"
proof -
  obtain p' x where p: "p = p' @ [x]" using assms(2) by (metis append_butlast_last_id)
  have "block_id x \<noteq> INVALID_BLOCK_ID" "distinct (map block_id (p' @ x # q))"
    using assms(1) by (auto simp: readable_def p)
  then show ?thesis
    using behind_distinct [of p' x q] by (simp add: rest_after_def p)
qed

lemma filter_split:
  "filter P q = r @ s \<Longrightarrow> \<exists>q1 q2. q = q1 @ q2 \<and> filter P q1 = r \<and> filter P q2 = s"
proof (induction r arbitrary: q)
  case Nil
  then show ?case by (intro exI [of _ "[]"] exI [of _ q]) simp
next
  case (Cons x r)
  then obtain u v where u: "q = u @ x # v" "\<forall>y\<in>set u. \<not> P y" "P x" "filter P v = r @ s"
    by (auto simp: filter_eq_Cons_iff)
  with Cons.IH obtain v1 v2 where "v = v1 @ v2" "filter P v1 = r" "filter P v2 = s" by blast
  with u show ?case
    by (intro exI [of _ "u @ x # v1"] exI [of _ v2]) (simp add: filter_empty_conv)
qed

lemma filter_split_last:
  assumes "filter P q = r @ s" and "r \<noteq> []"
  shows "\<exists>q1 q2. q = q1 @ q2 \<and> q1 \<noteq> [] \<and> last q1 = last r \<and> filter P q1 = r \<and> filter P q2 = s"
proof -
  obtain r' x where r: "r = r' @ [x]" using assms(2) by (metis append_butlast_last_id)
  from assms(1) obtain a c where a: "q = a @ c" "filter P a = r'" "filter P c = x # s"
    using filter_split [of P q r' "x # s"] by (auto simp: r)
  then obtain u v where u: "c = u @ x # v" "\<forall>y\<in>set u. \<not> P y" "P x" "s = filter P v"
    by (auto simp: filter_eq_Cons_iff)
  show ?thesis
    using a u by (intro exI [of _ "a @ u @ [x]"] exI [of _ v]) (auto simp: r filter_empty_conv)
qed

lemma read_pages_rest:
  assumes "readable (all_blocks it b)" and "0 < n"
    and "all_blocks it b = p @ q" and "rest_after l (all_blocks it b) = q" and "length q < k"
  shows "concat (read_pages k it l n f b) = filter (\<lambda>b. \<not> filtered_out f b) q"
  using assms(3-5)
proof (induction k arbitrary: p q l)
  case 0
  then show ?case by simp
next
  case (Suc k)
  let ?keep = "\<lambda>b. \<not> filtered_out f b"
  let ?r = "take_limit n (filter ?keep q)"
  have r: "read_blocks (get it l n f b) = ?r"
    using assms(1) Suc.prems(2) by (simp add: get_page readable_def page_def)
  show ?case
  proof (cases "?r = []")
    case True
    then have "filter ?keep q = []" using assms(2) by (cases "filter ?keep q") auto
    with True r show ?thesis by (simp add: Let_def)
  next
    case False
    obtain s where s: "filter ?keep q = ?r @ s" using take_limit_prefix by blast
    obtain q1 q2 where q: "q = q1 @ q2" "q1 \<noteq> []" "last q1 = last ?r"
      "filter ?keep q1 = ?r" "filter ?keep q2 = s"
      using filter_split_last [OF s False] by blast
    have "rest_after (block_id (last (p @ q1))) ((p @ q1) @ q2) = q2"
      using assms(1) Suc.prems(1) q(1,2) by (intro rest_after_last) auto
    moreover have "length q2 < k" using Suc.prems(3) q(1,2) by (cases q1) auto
    ultimately have "concat (read_pages k it (block_id (last ?r)) n f b) = s"
      using Suc.IH [of "p @ q1" q2 "block_id (last ?r)"] Suc.prems(1) q(1,2,3,5)
      by (metis append.assoc last_append)
    with False r s show ?thesis by (simp add: Let_def)
  qed
qed

text \<open>A flush removes whole flights from the front; a reader then goes on with what is left.\<close>

lemma rest_after_flush:
  assumes "readable (p @ q)" and "p \<noteq> []" and "p @ q = gone @ s"
  shows "rest_after (block_id (last p)) s = (if length gone \<le> length p - 1 then q else s)"
proof (cases "length gone \<le> length p - 1")
  case True
  have short: "length gone < length p" using True assms(2) by (cases p) auto
  define m where "m = drop (length gone) p"
  have p: "p = gone @ m"
    using arg_cong [OF assms(3), of "take (length gone)"] short
    by (simp add: m_def) (metis append_take_drop_id)
  then have m: "s = m @ q" "m \<noteq> []" using assms(3) short by auto
  have "readable (m @ q)"
    using assms(1) by (simp add: p readable_append)
  then have "rest_after (block_id (last m)) (m @ q) = q" using m(2) by (rule rest_after_last)
  with m True show ?thesis by (simp add: p)
next
  case False
  then have long: "length p \<le> length gone" by simp
  define m where "m = drop (length p) gone"
  have "gone = p @ m"
    using arg_cong [OF assms(3), of "take (length p)"] long
    by (simp add: m_def) (metis append_take_drop_id)
  then have m: "q = m @ s" using assms(3) by simp
  have "last p \<in> set p" using assms(2) by simp
  then have "behind (block_id (last p)) s = None"
    using assms(1) by (auto simp: behind_None readable_def m)
  with False show ?thesis by (simp add: rest_after_def)
qed

section \<open>Invariant\<close>

text \<open>The sizes are those of the blocks, and flight ids are not used twice.\<close>

definition buffer_inv :: "BufferInternal \<Rightarrow> bool" where
  "buffer_inv b \<longleftrightarrow>
     dm_ok (flight b) \<and> list_all (\<lambda>(i, _). 0 \<le> i \<and> i < flight_counter b) (flight b) \<and>
     list_all (\<lambda>b. 0 \<le> length_of b) (all_blocks (flight b) b) \<and>
     staging_size b = lens (concat (staging b)) \<and>
     flight_size b = weight (\<lambda>bb. lens (concat bb)) (flight b) \<and>
     total_size b = staging_size b + flight_size b \<and> total_size b < 2 ^ 63 \<and>
     0 \<le> flight_counter b"

definition contents :: "BufferInternal \<Rightarrow> Block multiset" where
  "contents b = mset (all_blocks (flight b) b)"

lemma lens_all_blocks: "lens (all_blocks it b) = weight (\<lambda>bb. lens (concat bb)) it + lens (concat (staging b))"
  by (induction it) (auto simp: all_blocks_def)

lemma buffer_inv_total: "buffer_inv b \<Longrightarrow> total_size b = lens (all_blocks (flight b) b)"
  by (simp add: buffer_inv_def lens_all_blocks)

lemma all_blocks_nonneg:
  "list_all (\<lambda>b. 0 \<le> length_of b) (all_blocks it b) \<longleftrightarrow>
    (\<forall>(i, bb) \<in> set it. list_all (\<lambda>b. 0 \<le> length_of b) (concat bb)) \<and>
    list_all (\<lambda>b. 0 \<le> length_of b) (concat (staging b))"
  by (fastforce simp: all_blocks_def list_all_iff)

lemma flight_nonneg:
  "buffer_inv b \<Longrightarrow> (i, bb) \<in> set (flight b) \<Longrightarrow> 0 \<le> lens (concat bb)"
  by (fastforce simp: buffer_inv_def all_blocks_nonneg intro: lens_nonneg)

lemma buffer_inv_sizes:
  assumes "buffer_inv b"
  shows "0 \<le> staging_size b" and "0 \<le> flight_size b" and "staging_size b \<le> total_size b"
    and "0 \<le> total_size b"
proof -
  show s: "0 \<le> staging_size b"
    using assms by (auto simp: buffer_inv_def all_blocks_nonneg intro: lens_nonneg)
  show f: "0 \<le> flight_size b"
    using assms flight_nonneg [OF assms] by (auto simp: buffer_inv_def intro: weight_nonneg)
  show "staging_size b \<le> total_size b" "0 \<le> total_size b"
    using assms s f by (auto simp: buffer_inv_def)
qed

lemma buffer_inv_new: "buffer_inv new_buffer"
  by (simp add: buffer_inv_def new_buffer_def all_blocks_def)

lemma append_blocks_eq:
  assumes "buffer_inv b" and "0 \<le> sz" and "total_size b + sz < 2 ^ 63"
  shows "append_blocks bs sz b =
    b\<lparr>staging := staging b @ [bs], staging_size := staging_size b + sz, total_size := total_size b + sz\<rparr>"
  using buffer_inv_sizes [OF assms(1)] assms(2,3) by (simp add: append_blocks_def i64_id)

lemma append_blocks_inv:
  assumes "buffer_inv b" and "list_all (\<lambda>b. 0 \<le> length_of b) bs" and "total_size b + lens bs < 2 ^ 63"
  shows "buffer_inv (append_blocks bs (lens bs) b)"
    and "total_size (append_blocks bs (lens bs) b) = total_size b + lens bs"
    and "staging_size (append_blocks bs (lens bs) b) = staging_size b + lens bs"
    and "contents (append_blocks bs (lens bs) b) = contents b + mset bs"
  using assms lens_nonneg [OF assms(2)]
  by (simp_all add: append_blocks_eq) (auto simp: buffer_inv_def all_blocks_nonneg contents_def all_blocks_def)

lemma dm_insert_new: "k \<notin> fst ` set m \<Longrightarrow> dm_insert k v m = m @ [(k, v)]"
  by (induction m) auto

lemma flight_counter_fresh: "buffer_inv b \<Longrightarrow> flight_counter b \<notin> fst ` set (flight b)"
  by (auto simp: buffer_inv_def list_all_iff)

lemma spill_eq:
  assumes "buffer_inv b" and "flight_counter b < 2 ^ 64 - 1"
  shows "spill b =
    (b\<lparr>staging := [], flight := flight b @ [(flight_counter b, staging b)],
       flight_counter := flight_counter b + 1, flight_size := total_size b, staging_size := 0\<rparr>,
     \<lparr>flight_id = flight_counter b, flight_len = staging_size b, spilled_blocks = staging b\<rparr>)"
proof -
  have "0 \<le> flight_counter b" "flight_size b + staging_size b = total_size b" "total_size b < 2 ^ 63"
    using assms(1) by (auto simp: buffer_inv_def)
  then show ?thesis
    using buffer_inv_sizes [OF assms(1)] assms
    by (simp add: spill_def Let_def u64_id i64_id dm_insert_new flight_counter_fresh)
qed

lemma spill_inv:
  assumes "buffer_inv b" and "flight_counter b < 2 ^ 64 - 1"
  shows "buffer_inv (fst (spill b))"
    and "total_size (fst (spill b)) = total_size b" and "staging_size (fst (spill b)) = 0"
    and "contents (fst (spill b)) = contents b"
    and "dm_get (flight (fst (spill b))) (flight_id (snd (spill b))) = Some (staging b)"
    and "flight_len (snd (spill b)) = staging_size b"
proof -
  note eq = spill_eq [OF assms]
  show "buffer_inv (fst (spill b))"
    using assms flight_counter_fresh [OF assms(1)] buffer_inv_sizes [OF assms(1)]
    unfolding eq buffer_inv_def all_blocks_nonneg by (auto simp: dm_ok_def elim!: list.pred_mono_strong)
  show "dm_get (flight (fst (spill b))) (flight_id (snd (spill b))) = Some (staging b)"
    by (simp add: spill_def Let_def dm_simps)
qed (simp_all add: spill_eq [OF assms] contents_def all_blocks_def)

lemma clear_unknown: "dm_get (flight b) i = None \<Longrightarrow> clear i sz b = b"
  by (simp add: clear_def Let_def delete_id [unfolded dom_map_of_conv_image_fst [symmetric]] domIff)

lemma dm_split:
  assumes "dm_get m k = Some v" and "dm_ok m"
  shows "\<exists>xs ys. m = xs @ (k, v) # ys \<and> dm_remove k m = xs @ ys"
proof -
  have "(k, v) \<in> set m" using assms(1) by (rule map_of_SomeD)
  then obtain xs ys where m: "m = xs @ (k, v) # ys" by (auto simp: in_set_conv_decomp)
  then have "k \<notin> fst ` set xs" "k \<notin> fst ` set ys" using assms(2) by (auto simp: dm_ok_def)
  then have "dm_remove k m = xs @ ys"
    unfolding dm_remove_filter m by (auto intro!: arg_cong2 [where f = append] filter_True)
  with m show ?thesis by blast
qed

lemma clear_inv:
  assumes "buffer_inv b" and "dm_get (flight b) i = Some bb"
  shows "buffer_inv (clear i (lens (concat bb)) b)"
    and "total_size (clear i (lens (concat bb)) b) = total_size b - lens (concat bb)"
    and "staging_size (clear i (lens (concat bb)) b) = staging_size b"
    and "contents (clear i (lens (concat bb)) b) = contents b - mset (concat bb)"
proof -
  have ok: "dm_ok (flight b)" using assms(1) by (simp add: buffer_inv_def)
  obtain xs ys where xy: "flight b = xs @ (i, bb) # ys" "dm_remove i (flight b) = xs @ ys"
    using dm_split [OF assms(2) ok] by blast
  have len: "0 \<le> lens (concat bb)" by (rule flight_nonneg [OF assms(1), of i]) (simp add: xy(1))
  have "weight (\<lambda>bb. lens (concat bb)) (xs @ ys) = flight_size b - lens (concat bb)"
    using assms(1) xy by (simp add: buffer_inv_def)
  moreover have "0 \<le> weight (\<lambda>bb. lens (concat bb)) (xs @ ys)"
    using flight_nonneg [OF assms(1)] xy(1) by (intro weight_nonneg) auto
  ultimately have le: "lens (concat bb) \<le> flight_size b" by simp
  have "flight_size b \<le> total_size b" "total_size b < 2 ^ 63"
    using assms(1) buffer_inv_sizes [OF assms(1)] by (auto simp: buffer_inv_def)
  then have eq: "clear i (lens (concat bb)) b = b\<lparr>flight := xs @ ys,
      total_size := total_size b - lens (concat bb), flight_size := flight_size b - lens (concat bb)\<rparr>"
    using assms(2) le len xy(2) by (simp add: clear_def Let_def i64_id)
  show "buffer_inv (clear i (lens (concat bb)) b)"
    using assms(1) len xy(1) unfolding eq buffer_inv_def all_blocks_nonneg by (auto simp: dm_ok_def)
  show "contents (clear i (lens (concat bb)) b) = contents b - mset (concat bb)"
    unfolding eq by (simp add: contents_def all_blocks_def xy(1))
  show "total_size (clear i (lens (concat bb)) b) = total_size b - lens (concat bb)"
    and "staging_size (clear i (lens (concat bb)) b) = staging_size b"
    unfolding eq by simp_all
qed

lemma iteration_readable:
  assumes "buffer_inv b" and "mset it = mset (flight b)"
  shows "list_all (\<lambda>b. 0 \<le> length_of b) (all_blocks it b)" and "lens (all_blocks it b) = total_size b"
    and "mset (all_blocks it b) = contents b"
proof -
  have "set it = set (flight b)" using assms(2) by (rule mset_eq_setD)
  then show "list_all (\<lambda>b. 0 \<le> length_of b) (all_blocks it b)"
    using assms(1) unfolding buffer_inv_def all_blocks_nonneg by simp
  have "mset (map f it) = mset (map f (flight b))" for f :: "int \<times> batch \<Rightarrow> 'x"
    using assms(2) by simp
  then have "weight (\<lambda>bb. lens (concat bb)) it = weight (\<lambda>bb. lens (concat bb)) (flight b)"
    unfolding weight_def by (metis sum_mset_sum_list)
  then show "lens (all_blocks it b) = total_size b"
    using assms(1) by (simp add: lens_all_blocks buffer_inv_def)
  have flat: "mset (concat (concat (map snd m))) = (\<Sum>e\<in>#mset m. mset (concat (snd e)))" for m :: "(int \<times> batch) list"
    by (induction m) auto
  show "mset (all_blocks it b) = contents b"
    by (simp add: contents_def all_blocks_def flat assms(2))
qed

section \<open>Properties\<close>

text \<open>
  C24. Whatever order the flights are iterated in, a read returns the blocks behind the given
  one (from the beginning when that block is not there), of the wanted tasks only, up to and
  including the block that reaches the size limit, and reports their total length.
\<close>

theorem buffer_get_page:
  assumes "buffer_inv b" and "mset it = mset (flight b)"
  shows "get it last_id lim task_ids b =
    \<lparr>read_len = lens (page last_id lim task_ids (all_blocks it b)),
     read_blocks = page last_id lim task_ids (all_blocks it b)\<rparr>"
  using iteration_readable [OF assms] assms(1) by (intro get_page) (auto simp: buffer_inv_def)

definition sample_buffer :: BufferInternal where
  "sample_buffer =
     direct_push [sample_block 3 4] (fst (spill (direct_push [sample_block 1 2, sample_block 2 3] new_buffer)))"

lemma sample_buffer_eq:
  "sample_buffer = \<lparr>total_size = 9, staging_size = 4, flight_size = 5, staging = [[sample_block 3 4]],
     flight = [(0, [[sample_block 1 2, sample_block 2 3]])], flight_counter = 1\<rparr>"
  by (simp add: sample_buffer_def direct_push_def append_blocks_def spill_def Let_def new_buffer_def
      sum_i32_def sample_block_def i32_id u64_id i64_id)

lemma sample_buffer_inv: "buffer_inv sample_buffer"
  by (simp add: sample_buffer_eq buffer_inv_def all_blocks_def sample_block_def dm_ok_def)

lemma sample_buffer_ok: "list_all block_ok (all_blocks (flight sample_buffer) sample_buffer)"
  by (simp add: sample_buffer_eq all_blocks_def sample_block_def block_ok_def is_i32_def is_i64_def)

lemma sample_buffer_page:
  "page 1 4 None (all_blocks (flight sample_buffer) sample_buffer) = [sample_block 2 3, sample_block 3 4]"
  by (simp add: sample_buffer_eq all_blocks_def page_def rest_after_def filtered_out_def
      INVALID_BLOCK_ID_def sample_block_def)

theorem buffer_get_page_witness:
  "buffer_inv sample_buffer \<and>
   read_blocks (get (flight sample_buffer) 1 4 None sample_buffer) = [sample_block 2 3, sample_block 3 4]"
  using buffer_get_page [OF sample_buffer_inv refl, of 1 4 None] sample_buffer_inv
  by (simp add: sample_buffer_page)

text \<open>
  C26. A memory read is laid out correctly: it has one segment per block of the page, each
  segment cuts exactly its block's bytes out of the returned data, and the announced length
  is the length of that data.
\<close>

theorem buffer_get_v2_layout:
  fixes last_id lim :: int and task_ids :: task_filter
  assumes "buffer_inv b" and "mset it = mset (flight b)" and "list_all block_ok (all_blocks it b)"
  defines "r \<equiv> get_v2 it last_id lim task_ids b"
  defines "bs \<equiv> page last_id lim task_ids (all_blocks it b)"
  shows "shuffle_data_block_segments r = segments_from 0 bs \<and>
    map (\<lambda>s. slice (seg_offset s) (seg_length s) (wrapper_freeze (mem_data r)))
      (shuffle_data_block_segments r) = map data bs \<and>
    wrapper_len (mem_data r) = int (length (wrapper_freeze (mem_data r)))"
proof -
  have r: "r = \<lparr>shuffle_data_block_segments = segments_from 0 bs,
      mem_data = Composed (composed_from (map data bs) (lens bs))\<rparr>"
    unfolding r_def bs_def using iteration_readable [OF assms(1,2)] assms(1)
    by (intro get_v2_page) (auto simp: buffer_inv_def)
  have "set bs \<subseteq> set (all_blocks it b)" unfolding bs_def by (rule set_page)
  then have ok: "list_all block_ok bs" using assms(3) by (auto simp: list_all_iff)
  have "lens bs = int (length (payload bs))"
    using sum_length_payload [OF ok] by (simp add: lens_def)
  then show ?thesis
    using segments_slice [OF ok, of 0]
    by (simp add: r composed_freeze_concat composed_from_def composed_len_def payload_def)
qed

theorem buffer_get_v2_layout_witness:
  "list_all block_ok (all_blocks (flight sample_buffer) sample_buffer) \<and>
   map (\<lambda>s. slice (seg_offset s) (seg_length s)
          (wrapper_freeze (mem_data (get_v2 (flight sample_buffer) 1 4 None sample_buffer))))
     (shuffle_data_block_segments (get_v2 (flight sample_buffer) 1 4 None sample_buffer)) =
     [data (sample_block 2 3), data (sample_block 3 4)]"
  by (rule conjI [OF sample_buffer_ok buffer_get_v2_layout [OF sample_buffer_inv refl sample_buffer_ok,
          of 1 4 None, unfolded sample_buffer_page list.map, THEN conjunct2, THEN conjunct1]])

text \<open>
  C4. Paging is complete: a client that starts with the invalid block id and continues with
  the id of the last block it got, until a page is empty, receives every block of the wanted
  tasks exactly once and in order.  It needs at most one page per block and a last, empty one.
\<close>

theorem paging_complete:
  assumes "buffer_inv b" and "mset it = mset (flight b)" and "0 < lim"
    and "distinct (map block_id (all_blocks it b))" and "INVALID_BLOCK_ID \<notin> block_id ` set (all_blocks it b)"
    and "length (all_blocks it b) < k"
  shows "concat (read_pages k it INVALID_BLOCK_ID lim task_ids b) =
    filter (\<lambda>b. \<not> filtered_out task_ids b) (all_blocks it b)"
  using assms iteration_readable [OF assms(1,2)]
  by (intro read_pages_rest [where p = "[]"]) (auto simp: readable_def rest_after_def buffer_inv_def)

theorem paging_complete_witness:
  "concat (read_pages 4 (flight sample_buffer) INVALID_BLOCK_ID 1 None sample_buffer) =
     [sample_block 1 2, sample_block 2 3, sample_block 3 4]"
  using paging_complete [OF sample_buffer_inv refl, of 1 4 None]
  by (simp add: sample_buffer_eq all_blocks_def filtered_out_def INVALID_BLOCK_ID_def sample_block_def)



text \<open>
  C31. That guarantee needs the iteration order of the flights to stay the same between two
  pages, which a \<open>HashMap\<close> does not promise once a spill has inserted an entry.  If the order
  changes, a client that pages to the end can miss a block that was in memory all the time.
\<close>

theorem paging_reordered_skips:
  "\<exists>b it it'. mset it = mset (flight b) \<and> mset it' = mset (flight (fst (spill b))) \<and>
     read_blocks (get it INVALID_BLOCK_ID 1 None b) = [sample_block 1 1] \<and>
     read_blocks (get it' 1 1 None (fst (spill b))) = [] \<and>
     sample_block 2 1 \<in># contents b \<and> sample_block 2 1 \<in># contents (fst (spill b))"
proof -
  let ?b = "\<lparr>total_size = 2, staging_size = 1, flight_size = 1, staging = [[sample_block 2 1]],
      flight = [(0, [[sample_block 1 1]])], flight_counter = 1\<rparr>"
  let ?c = "\<lparr>total_size = 2, staging_size = 0, flight_size = 2, staging = [],
      flight = [(0, [[sample_block 1 1]]), (1, [[sample_block 2 1]])], flight_counter = 2\<rparr>"
  let ?it' = "[(1, [[sample_block 2 1]]), (0, [[sample_block 1 1]])]"
  have spill: "fst (spill ?b) = ?c" by (simp add: spill_def Let_def u64_id i64_id)
  have "read_blocks (get (flight ?b) INVALID_BLOCK_ID 1 None ?b) = [sample_block 1 1]"
    by (subst get_page) (simp_all add: all_blocks_def page_def rest_after_def filtered_out_def sample_block_def)
  moreover have "read_blocks (get ?it' 1 1 None ?c) = []"
    by (subst get_page) (simp_all add: all_blocks_def page_def rest_after_def filtered_out_def
        INVALID_BLOCK_ID_def sample_block_def)
  moreover have "sample_block 2 1 \<in># contents ?b" "sample_block 2 1 \<in># contents ?c"
    by (simp_all add: contents_def all_blocks_def)
  ultimately show ?thesis
    by - (rule exI [of _ ?b], rule exI [of _ "flight ?b"], rule exI [of _ ?it'], unfold spill, simp)
qed

text \<open>
  The sizes a buffer keeps are those of its blocks through every operation: an append
  adds its blocks, a spill moves them to flight and neither loses nor duplicates one, and
  clearing that flight with the length the spill reported takes exactly the spilled blocks out.
\<close>

lemma buffer_spill_clear:
  assumes "buffer_inv b" and "small_blocks bs" and "total_size b + lens bs < 2 ^ 63"
    and "flight_counter b < 2 ^ 64 - 1"
  defines "b1 \<equiv> append_blocks bs (blocks_size bs) b"
  defines "b2 \<equiv> fst (spill b1)" and "r \<equiv> snd (spill b1)"
  defines "b3 \<equiv> clear (flight_id r) (flight_len r) b2"
  shows "buffer_inv b1 \<and> contents b1 = contents b + mset bs \<and> total_size b1 = total_size b + lens bs \<and>
    buffer_inv b2 \<and> contents b2 = contents b1 \<and> total_size b2 = total_size b1 \<and>
    spilled_blocks r = staging b1 \<and>
    buffer_inv b3 \<and> contents b3 = contents b1 - mset (concat (spilled_blocks r)) \<and>
    total_size b3 = total_size b1 - flight_len r"
proof -
  have nn: "list_all (\<lambda>b. 0 \<le> length_of b) bs" using assms(2) by (simp add: small_blocks_def)
  have sz: "blocks_size bs = lens bs" using blocks_size_small(1) [OF assms(2)] by (simp add: lens_def)
  note 1 = append_blocks_inv [OF assms(1) nn assms(3), folded sz, folded b1_def]
  have "flight_counter b1 < 2 ^ 64 - 1" using assms(4) by (simp add: b1_def append_blocks_def)
  note 2 = spill_inv [OF 1(1) this, folded b2_def r_def]
  have len: "flight_len r = lens (concat (staging b1))" using 2(6) 1(1) by (simp add: buffer_inv_def)
  have sp: "spilled_blocks r = staging b1" by (simp add: r_def spill_def Let_def)
  note 3 = clear_inv [OF 2(1,5), folded len, folded b3_def]
  show ?thesis using 1 2 3 sp sz by simp
qed

lemma buffer_spill_clear_witness:
  "small_blocks [sample_block 1 2, sample_block 2 3] \<and>
   total_size (append_blocks [sample_block 1 2, sample_block 2 3] (blocks_size [sample_block 1 2, sample_block 2 3]) new_buffer) = 5 \<and>
   total_size (clear 0 5 (fst (spill (append_blocks [sample_block 1 2, sample_block 2 3]
     (blocks_size [sample_block 1 2, sample_block 2 3]) new_buffer)))) = 0"
  using buffer_spill_clear [OF buffer_inv_new, of "[sample_block 1 2, sample_block 2 3]"]
  by (simp add: small_blocks_def sample_block_def new_buffer_def spill_def append_blocks_def
      blocks_size_def sum_i32_def i32_id u64_id i64_id Let_def)

end
