(* ===== verification/Floats.thy ===== *)
theory Floats
  imports Prelude "HOL-Library.Log_Nat" Complex_Main
begin

text \<open>
  The \<open>f32\<close> and \<open>f64\<close> arithmetic that the watermarks use.  A finite float is the rational it
  stands for; an operation computes exactly and rounds to 24 or 53 significant bits, half to
  even, as IEEE 754 prescribes.  The values the code computes with are zero, 64-bit integers and
  quotients and products of them, and the decimal numbers of the configuration; they neither
  overflow nor underflow, so exponents need no bounds; division by zero gives an infinity or a NaN.
\<close>

datatype flt = Fin rat | Inf | Neg_inf | NaN

definition pow2 :: "int \<Rightarrow> rat" where
  "pow2 e = (if 0 \<le> e then 2 ^ nat e else 1 / 2 ^ nat (- e))"

text \<open>The exponent of a positive rational: \<open>pow2 e \<le> x < pow2 (e + 1)\<close>.\<close>

definition exponent :: "rat \<Rightarrow> int" where
  "exponent x =
     (let (a, b) = quotient_of x; e = int (floorlog 2 (nat a)) - int (floorlog 2 (nat b))
      in if pow2 e \<le> x then e else e - 1)"

definition half_even :: "rat \<Rightarrow> int" where
  "half_even q =
     (let f = \<lfloor>q\<rfloor>; r = q - of_int f
      in if r < 1 / 2 then f else if 1 / 2 < r then f + 1 else if even f then f else f + 1)"

definition round_pos :: "nat \<Rightarrow> rat \<Rightarrow> rat" where
  "round_pos p x = (let u = pow2 (exponent x - int p + 1) in of_int (half_even (x / u)) * u)"

definition round_to :: "nat \<Rightarrow> rat \<Rightarrow> rat" where
  "round_to p x = (if x = 0 then 0 else if 0 < x then round_pos p x else - round_pos p (- x))"

definition f32_bits :: nat where
  "f32_bits = 24"

definition f64_bits :: nat where
  "f64_bits = 53"

definition flt_of_int :: "nat \<Rightarrow> int \<Rightarrow> flt" where
  "flt_of_int p n = Fin (round_to p (of_int n))"

fun flt_div :: "nat \<Rightarrow> flt \<Rightarrow> flt \<Rightarrow> flt" where
  "flt_div p (Fin x) (Fin y) =
     (if y \<noteq> 0 then Fin (round_to p (x / y)) else if x = 0 then NaN else if 0 < x then Inf else Neg_inf)"
| "flt_div p (Fin x) NaN = NaN"
| "flt_div p (Fin x) _ = Fin 0"
| "flt_div p NaN _ = NaN"
| "flt_div p Inf (Fin y) = (if 0 \<le> y then Inf else Neg_inf)"
| "flt_div p Neg_inf (Fin y) = (if 0 \<le> y then Neg_inf else Inf)"
| "flt_div p _ _ = NaN"

fun flt_mul :: "nat \<Rightarrow> flt \<Rightarrow> flt \<Rightarrow> flt" where
  "flt_mul p (Fin x) (Fin y) = Fin (round_to p (x * y))"
| "flt_mul p NaN _ = NaN"
| "flt_mul p _ NaN = NaN"
| "flt_mul p (Fin x) Inf = (if x = 0 then NaN else if 0 < x then Inf else Neg_inf)"
| "flt_mul p (Fin x) Neg_inf = (if x = 0 then NaN else if 0 < x then Neg_inf else Inf)"
| "flt_mul p Inf (Fin x) = (if x = 0 then NaN else if 0 < x then Inf else Neg_inf)"
| "flt_mul p Neg_inf (Fin x) = (if x = 0 then NaN else if 0 < x then Neg_inf else Inf)"
| "flt_mul p Inf Inf = Inf"
| "flt_mul p Neg_inf Neg_inf = Inf"
| "flt_mul p _ _ = Neg_inf"

fun flt_less :: "flt \<Rightarrow> flt \<Rightarrow> bool" where
  "flt_less NaN _ = False"
| "flt_less _ NaN = False"
| "flt_less (Fin x) (Fin y) = (x < y)"
| "flt_less Neg_inf y = (y \<noteq> Neg_inf)"
| "flt_less x Inf = (x \<noteq> Inf)"
| "flt_less _ _ = False"

text \<open>\<open>f as i64\<close>: truncation towards zero, saturating, NaN to zero.\<close>

definition trunc :: "rat \<Rightarrow> int" where
  "trunc x = (if 0 \<le> x then \<lfloor>x\<rfloor> else \<lceil>x\<rceil>)"

fun flt_to_i64 :: "flt \<Rightarrow> int" where
  "flt_to_i64 (Fin x) = max (- (2 ^ 63)) (min (2 ^ 63 - 1) (trunc x))"
| "flt_to_i64 Inf = 2 ^ 63 - 1"
| "flt_to_i64 Neg_inf = - (2 ^ 63)"
| "flt_to_i64 NaN = 0"

section \<open>Rounding\<close>

lemma pow2_pos [simp]: "0 < pow2 e"
  by (simp add: pow2_def)

lemma pow2_nonzero [simp]: "pow2 e \<noteq> 0"
  by (simp add: pow2_def)

lemma pow2_powi: "pow2 e = 2 powi e"
  by (simp add: pow2_def power_int_def inverse_eq_divide power_one_over)

lemma pow2_add: "pow2 (a + b) = pow2 a * pow2 b"
  by (simp add: pow2_powi power_int_add)

lemma pow2_diff: "pow2 (a - b) = pow2 a / pow2 b"
  by (simp add: pow2_powi power_int_diff)

lemma pow2_nat: "pow2 (int n) = 2 ^ n"
  by (simp add: pow2_def)

lemma pow2_mono: "a \<le> b \<Longrightarrow> pow2 a \<le> pow2 b"
  by (simp add: pow2_powi power_int_increasing)

lemma floorlog_pow2:
  assumes "0 < a"
  shows "pow2 (int (floorlog 2 (nat a)) - 1) \<le> of_int a" and "of_int a < pow2 (int (floorlog 2 (nat a)))"
proof -
  have "0 < nat a" using assms by simp
  then have fl: "2 ^ (floorlog 2 (nat a) - 1) \<le> nat a \<and> nat a < 2 ^ floorlog 2 (nat a)"
    by (intro floorlog_bounds) simp_all
  have "floorlog 2 (nat a) \<noteq> 0" using \<open>0 < nat a\<close> by (simp add: floorlog_def)
  then obtain n where n: "floorlog 2 (nat a) = Suc n" by (cases "floorlog 2 (nat a)") auto
  have lo: "2 ^ n \<le> a" and hi: "a < 2 ^ Suc n"
    using fl assms by (auto simp: n le_nat_iff nat_less_iff)
  have "(of_int (2 ^ n) :: rat) \<le> of_int a" using lo by (simp only: of_int_le_iff)
  then show "pow2 (int (floorlog 2 (nat a)) - 1) \<le> of_int a" by (simp add: n pow2_nat)
  have "(of_int a :: rat) < of_int (2 ^ Suc n)" using hi by (simp only: of_int_less_iff)
  then show "of_int a < pow2 (int (floorlog 2 (nat a)))" by (simp only: n pow2_nat) simp
qed

lemma exponent_bounds:
  assumes "0 < x"
  shows "pow2 (exponent x) \<le> x" and "x < pow2 (exponent x + 1)"
proof -
  obtain a b where q: "quotient_of x = (a, b)" by fastforce
  have b: "0 < b" and x: "x = of_int a / of_int b"
    using q by (auto simp: quotient_of_denom_pos quotient_of_div)
  have a: "0 < a" using assms b x by (simp add: zero_less_divide_iff)
  define e where "e = int (floorlog 2 (nat a)) - int (floorlog 2 (nat b))"
  have ex: "exponent x = (if pow2 e \<le> x then e else e - 1)"
    by (simp add: exponent_def q e_def)
  have "pow2 (e - 1) = pow2 (int (floorlog 2 (nat a)) - 1) / pow2 (int (floorlog 2 (nat b)))"
    unfolding e_def by (simp add: pow2_diff [symmetric] algebra_simps)
  also have "\<dots> \<le> x"
    unfolding x using floorlog_pow2 [OF a] floorlog_pow2 [OF b] b a by (intro frac_le) auto
  finally have lo: "pow2 (e - 1) \<le> x" .
  have "x < pow2 (int (floorlog 2 (nat a))) / pow2 (int (floorlog 2 (nat b)) - 1)"
    unfolding x using floorlog_pow2 [OF a] floorlog_pow2 [OF b] b a
    by (intro frac_less) auto
  also have "\<dots> = pow2 (e + 1)"
    unfolding e_def by (simp add: pow2_diff [symmetric] algebra_simps)
  finally have hi: "x < pow2 (e + 1)" .
  show "pow2 (exponent x) \<le> x" and "x < pow2 (exponent x + 1)"
    using lo hi by (auto simp: ex)
qed

lemma half_even_error: "\<bar>of_int (half_even q) - q\<bar> \<le> 1 / 2"
proof -
  have "of_int \<lfloor>q\<rfloor> \<le> q" "q < of_int \<lfloor>q\<rfloor> + 1" by linarith+
  then show ?thesis by (auto simp: half_even_def Let_def abs_le_iff)
qed

lemma half_even_int [simp]: "half_even (of_int n) = n"
  by (simp add: half_even_def)

text \<open>The relative error of a rounding is at most half a unit in the last place.\<close>

lemma round_pos_error:
  assumes "0 < x"
  shows "\<bar>round_pos p x - x\<bar> \<le> x / 2 ^ p"
proof -
  define u where "u = pow2 (exponent x - int p + 1)"
  have u: "0 < u" by (simp add: u_def)
  have "round_pos p x - x = (of_int (half_even (x / u)) - x / u) * u"
    using u by (simp add: round_pos_def u_def [symmetric] left_diff_distrib)
  then have "\<bar>round_pos p x - x\<bar> = \<bar>of_int (half_even (x / u)) - x / u\<bar> * u"
    using u by (simp add: abs_mult)
  also have "\<dots> \<le> 1 / 2 * u" using u half_even_error [of "x / u"] by (intro mult_right_mono) auto
  also have "\<dots> = pow2 (exponent x) / 2 ^ p"
  proof -
    have "u = pow2 (exponent x) * pow2 1 / pow2 (int p)"
      unfolding u_def by (simp add: pow2_add [symmetric] pow2_diff [symmetric] algebra_simps)
    then show ?thesis by (simp add: pow2_nat) (simp add: pow2_def)
  qed
  also have "\<dots> \<le> x / 2 ^ p" using exponent_bounds(1) [OF assms] by (intro divide_right_mono) auto
  finally show ?thesis .
qed

lemma round_to_error: "\<bar>round_to p x - x\<bar> \<le> \<bar>x\<bar> / 2 ^ p"
proof (cases "x = 0")
  case False
  then show ?thesis
    using round_pos_error [of x p] round_pos_error [of "- x" p]
    by (cases "0 < x") (auto simp: round_to_def abs_minus_commute)
qed (simp add: round_to_def)

text \<open>Integers of at most \<open>p\<close> bits are represented exactly.\<close>

lemma round_to_int:
  assumes "\<bar>n\<bar> < 2 ^ p"
  shows "round_to p (of_int n) = of_int n"
proof -
  have pos: "round_pos p (of_int m) = of_int m" if "0 < m" "m < 2 ^ p" for m
  proof -
    have m: "(0 :: rat) < of_int m" using that by simp
    have "(of_int m :: rat) < of_int (2 ^ p)" using that(2) by (simp only: of_int_less_iff)
    then have "(of_int m :: rat) < pow2 (int p)" by (simp add: pow2_nat)
    then have "pow2 (exponent (of_int m)) < pow2 (int p)"
      using exponent_bounds(1) [OF m] by (rule le_less_trans [rotated])
    then have "exponent (of_int m) < int p"
      using pow2_mono [of "int p" "exponent (of_int m)"] by (meson not_le)
    then have k: "exponent (of_int m) - int p + 1 = - int (nat (int p - 1 - exponent (of_int m)))"
      by simp
    define k where "k = nat (int p - 1 - exponent (of_int m))"
    note k = k [folded k_def]
    have "(of_int m :: rat) / pow2 (- int k) = of_int (m * 2 ^ k)"
      by (simp add: pow2_def)
    then show ?thesis
      by (simp add: round_pos_def k Let_def del: of_int_mult)
        (simp add: pow2_def)
  qed
  show ?thesis
    using assms pos [of n] pos [of "- n"] by (auto simp: round_to_def)
qed

end
