(* ===== verification/Readable_Size.thy ===== *)
theory Readable_Size
  imports Text Floats
begin

text \<open>
  Sizes with units in the configuration: \<^verbatim>\<open>readable_size.rs\<close>.  \<open>from_str\<close> reads a decimal number as
  an \<open>f64\<close>, multiplies it by its unit and casts the product to \<open>u64\<close>; \<open>Serialize\<close> writes the largest unit that
  divides the size.  Strings are ASCII here, so trimming concerns the ASCII white space only.

  A number too large or too small for an \<open>f64\<close> gives an infinity or zero in the code; the unbounded exponents of
  \<open>flt\<close> give the same size after the saturating cast.
\<close>

section \<open>Units\<close>

definition KIB :: int where
  "KIB = 1024"

definition MIB :: int where
  "MIB = KIB * 1024"

definition GIB :: int where
  "GIB = MIB * 1024"

definition TIB :: int where
  "TIB = GIB * 1024"

definition PIB :: int where
  "PIB = TIB * 1024"

definition size_kb :: "int \<Rightarrow> int" where
  "size_kb n = u64 (n * KIB)"

definition size_mb :: "int \<Rightarrow> int" where
  "size_mb n = u64 (n * MIB)"

definition size_gb :: "int \<Rightarrow> int" where
  "size_gb n = u64 (n * GIB)"

definition size_div :: "int \<Rightarrow> int \<Rightarrow> (int, unit) outcome" where
  "size_div s rhs = (if rhs = 0 then Panic else Ok (s div rhs))"

definition size_mul :: "int \<Rightarrow> int \<Rightarrow> int" where
  "size_mul s rhs = u64 (s * rhs)"

definition as_mb :: "int \<Rightarrow> int" where
  "as_mb s = s div MIB"

section \<open>Decimal numbers\<close>

text \<open>
  \<open>str::parse::<f64>\<close> on the characters that can occur: an optional sign, digits with an optional
  point among them, an optional exponent.  There must be a digit before the exponent and one in it.
\<close>

definition span_digits :: "string \<Rightarrow> string \<times> string" where
  "span_digits s = (takeWhile is_digit s, dropWhile is_digit s)"

definition strip_sign :: "string \<Rightarrow> bool \<times> string" where
  "strip_sign s = (case s of
     CHR ''-'' # t \<Rightarrow> (True, t) | CHR ''+'' # t \<Rightarrow> (False, t) | _ \<Rightarrow> (False, s))"

definition parse_exponent :: "string \<Rightarrow> int option" where
  "parse_exponent s = (case s of
     [] \<Rightarrow> Some 0
   | c # t \<Rightarrow>
       if c = CHR ''e'' \<or> c = CHR ''E'' then
         let (neg, ds) = strip_sign t
         in if ds \<noteq> [] \<and> list_all is_digit ds then Some (if neg then - int (read_nat ds) else int (read_nat ds)) else None
       else None)"

definition pow10 :: "int \<Rightarrow> rat" where
  "pow10 e = (if 0 \<le> e then 10 ^ nat e else 1 / 10 ^ nat (- e))"

definition parse_f64 :: "string \<Rightarrow> flt option" where
  "parse_f64 s =
     (let (neg, s1) = strip_sign s; (whole, s2) = span_digits s1;
          (frac, s3) = (case s2 of CHR ''.'' # t \<Rightarrow> span_digits t | _ \<Rightarrow> ([], s2))
      in if whole = [] \<and> frac = [] then None
         else case parse_exponent s3 of
                None \<Rightarrow> None
              | Some e \<Rightarrow>
                  let x = of_nat (read_nat (whole @ frac)) * pow10 (e - int (length frac))
                  in Some (Fin (round_to f64_bits (if neg then - x else x))))"

text \<open>\<open>f as u64\<close>: truncating and saturating, NaN to zero.\<close>

fun flt_to_u64 :: "flt \<Rightarrow> int" where
  "flt_to_u64 (Fin x) = max 0 (min (2 ^ 64 - 1) (trunc x))"
| "flt_to_u64 Inf = 2 ^ 64 - 1"
| "flt_to_u64 Neg_inf = 0"
| "flt_to_u64 NaN = 0"

section \<open>Sizes as text\<close>

datatype size_error = Not_a_size string | Not_ascii string | Unsupported_unit string | Invalid_number string

definition is_space :: "char \<Rightarrow> bool" where
  "is_space c \<longleftrightarrow> c = CHR '' '' \<or> (9 :: nat) \<le> of_char c \<and> of_char c \<le> (13 :: nat)"

definition trim :: "string \<Rightarrow> string" where
  "trim s = rev (dropWhile is_space (rev (dropWhile is_space s)))"

definition size_char :: "char \<Rightarrow> bool" where
  "size_char c \<longleftrightarrow> is_digit c \<or> c \<in> set ''.eE-+''"

definition unit_of :: "string \<Rightarrow> int option" where
  "unit_of u =
     (if u \<in> {''K'', ''KB'', ''KiB''} then Some KIB
      else if u \<in> {''M'', ''MB'', ''MiB''} then Some MIB
      else if u \<in> {''G'', ''GB'', ''GiB''} then Some GIB
      else if u \<in> {''T'', ''TB'', ''TiB''} then Some TIB
      else if u \<in> {''P'', ''PB'', ''PiB''} then Some PIB
      else if u \<in> {''B'', ''''} then Some 1
      else None)"

definition from_str :: "string \<Rightarrow> (int, size_error) outcome" where
  "from_str s =
     (let size_str = trim s
      in if size_str = [] then Err (Not_a_size s)
         else if \<not> list_all (\<lambda>c. of_char c < (128 :: nat)) size_str then Err (Not_ascii s)
         else
           let size_part = takeWhile size_char size_str; unit_part = dropWhile size_char size_str
           in case unit_of (trim unit_part) of
                None \<Rightarrow> Err (Unsupported_unit s)
              | Some unit \<Rightarrow>
                  (case parse_f64 size_part of
                     Some n \<Rightarrow> Ok (flt_to_u64 (flt_mul f64_bits n (flt_of_int f64_bits unit)))
                   | None \<Rightarrow> Err (Invalid_number s)))"

text \<open>What a serializer is given and what a deserializer yields.\<close>

datatype serde_value = Ser_str string | Ser_u64 int | Ser_i64 int

definition serialize_size :: "int \<Rightarrow> serde_value" where
  "serialize_size s =
     (if s = 0 then Ser_str (show_nat (nat s) @ ''KiB'')
      else if s mod PIB = 0 then Ser_str (show_nat (nat (s div PIB)) @ ''PiB'')
      else if s mod TIB = 0 then Ser_str (show_nat (nat (s div TIB)) @ ''TiB'')
      else if s mod GIB = 0 then Ser_str (show_nat (nat (s div GIB)) @ ''GiB'')
      else if s mod MIB = 0 then Ser_str (show_nat (nat (s div MIB)) @ ''MiB'')
      else if s mod KIB = 0 then Ser_str (show_nat (nat (s div KIB)) @ ''KiB'')
      else Ser_u64 s)"

datatype serde_error = Invalid_value int | Custom size_error

definition deserialize_size :: "serde_value \<Rightarrow> (int, serde_error) outcome" where
  "deserialize_size v = (case v of
     Ser_i64 s \<Rightarrow> if 0 \<le> s then Ok (u64 s) else Err (Invalid_value s)
   | Ser_u64 s \<Rightarrow> Ok s
   | Ser_str t \<Rightarrow> map_err Custom (from_str t))"

section \<open>Reading back\<close>

lemma pow2_less: "pow2 a < pow2 b \<Longrightarrow> a < b"
  using pow2_mono by (metis not_le)

lemma trunc_of_int [simp]: "trunc (of_int m) = m"
  by (simp add: trunc_def)

lemma exponent_unique:
  assumes "0 < x" and "pow2 e \<le> x" and "x < pow2 (e + 1)"
  shows "exponent x = e"
proof -
  have "pow2 (exponent x) < pow2 (e + 1)" "pow2 e < pow2 (exponent x + 1)"
    using exponent_bounds [OF assms(1)] assms(2,3) by linarith+
  from this [THEN pow2_less] show ?thesis by simp
qed

lemma exponent_scale: "0 < x \<Longrightarrow> exponent (x * pow2 k) = exponent x + k"
  using exponent_bounds [of x]
  by (intro exponent_unique) (auto simp: pow2_add add.assoc add.commute [of k])

text \<open>Scaling by a power of two is exact.\<close>

lemma round_to_scale: "round_to p (x * pow2 k) = round_to p x * pow2 k"
proof -
  have pos: "round_pos p (y * pow2 k) = round_pos p y * pow2 k" if "0 < y" for y
  proof -
    have "pow2 (exponent (y * pow2 k) - int p + 1) = pow2 (exponent y - int p + 1) * pow2 k"
      unfolding exponent_scale [OF that] by (simp flip: pow2_add add: algebra_simps)
    then show ?thesis by (simp add: round_pos_def Let_def)
  qed
  have "0 < x * pow2 k \<longleftrightarrow> 0 < x" "x * pow2 k = 0 \<longleftrightarrow> x = 0"
    using pow2_pos [of k] by (auto simp: zero_less_mult_iff simp del: pow2_pos dest: less_asym)
  with pos [of x] pos [of "- x"] show ?thesis by (auto simp: round_to_def)
qed

lemma round_to_int_scale: "\<bar>n\<bar> < 2 ^ p \<Longrightarrow> round_to p (of_int n * pow2 k) = of_int n * pow2 k"
  by (simp add: round_to_scale round_to_int)

text \<open>A plain number with a unit reads as their product, as long as the number has at most 53 bits.\<close>

lemma digit_is_size_char: "is_digit c \<Longrightarrow> size_char c"
  by (simp add: size_char_def)

lemma no_sign: "s \<noteq> [] \<Longrightarrow> is_digit (hd s) \<Longrightarrow> strip_sign s = (False, s)"
  by (cases s) (auto simp: strip_sign_def is_digit_def split: char.splits bool.splits)

lemma parse_f64_digits:
  assumes "n < 2 ^ 53"
  shows "parse_f64 (show_nat n) = Some (Fin (of_nat n))"
proof -
  have digits: "takeWhile is_digit (show_nat n) = show_nat n" "dropWhile is_digit (show_nat n) = []"
    using show_nat_digits [of n] by (auto simp: list_all_iff)
  have "is_digit (hd (show_nat n))"
    using show_nat_digits [of n] by (cases "show_nat n") auto
  then have "strip_sign (show_nat n) = (False, show_nat n)" by (intro no_sign) simp_all
  moreover have "round_to f64_bits (of_nat n) = of_nat n"
    using round_to_int [of "int n" f64_bits] assms by (simp add: f64_bits_def)
  ultimately show ?thesis
    by (simp add: parse_f64_def span_digits_def digits parse_exponent_def pow10_def)
qed

definition binary_units :: "(string \<times> int) list" where
  "binary_units = [(''KiB'', KIB), (''MiB'', MIB), (''GiB'', GIB), (''TiB'', TIB), (''PiB'', PIB)]"

lemma trim_number: "u \<noteq> [] \<Longrightarrow> \<not> is_space (last u) \<Longrightarrow> trim (show_nat n @ u) = show_nat n @ u"
proof -
  assume u: "u \<noteq> []" "\<not> is_space (last u)"
  obtain d ds where d: "show_nat n = d # ds" by (cases "show_nat n") auto
  then have "is_digit d" using show_nat_digits [of n] by simp
  then have "\<not> is_space d" by (auto simp: is_digit_def is_space_def)
  moreover obtain v l where "u = v @ [l]" using u(1) by (meson rev_exhaust)
  ultimately show ?thesis using u by (simp add: trim_def d)
qed

lemma binary_unitE:
  assumes "(u, k) \<in> set binary_units"
    and "u = ''KiB'' \<Longrightarrow> k = KIB \<Longrightarrow> P" and "u = ''MiB'' \<Longrightarrow> k = MIB \<Longrightarrow> P" and "u = ''GiB'' \<Longrightarrow> k = GIB \<Longrightarrow> P"
    and "u = ''TiB'' \<Longrightarrow> k = TIB \<Longrightarrow> P" and "u = ''PiB'' \<Longrightarrow> k = PIB \<Longrightarrow> P"
  shows P
  using assms unfolding binary_units_def set_simps insert_iff prod.inject empty_iff by blast

lemma unit_facts:
  assumes "(u, k) \<in> set binary_units"
  shows "u \<noteq> []" and "\<not> is_space (last u)" and "\<not> size_char (hd u)" and "trim u = u"
    and "list_all (\<lambda>c. of_char c < (128 :: nat)) u" and "unit_of u = Some k"
    and "\<exists>e. of_int k = pow2 e" and "k < 2 ^ 51"
proof -
  have p: "pow2 (10 * int i) = 2 ^ (10 * i)" for i using pow2_nat [of "10 * i"] by simp
  have "\<exists>e. of_int KIB = pow2 e" using p [of 1] by (intro exI [of _ 10]) (simp add: KIB_def)
  moreover have "\<exists>e. of_int MIB = pow2 e" using p [of 2] by (intro exI [of _ 20]) (simp add: MIB_def KIB_def)
  moreover have "\<exists>e. of_int GIB = pow2 e" using p [of 3] by (intro exI [of _ 30]) (simp add: GIB_def MIB_def KIB_def)
  moreover have "\<exists>e. of_int TIB = pow2 e"
    using p [of 4] by (intro exI [of _ 40]) (simp add: TIB_def GIB_def MIB_def KIB_def)
  moreover have "\<exists>e. of_int PIB = pow2 e"
    using p [of 5] by (intro exI [of _ 50]) (simp add: PIB_def TIB_def GIB_def MIB_def KIB_def)
  ultimately show "\<exists>e. of_int k = pow2 e" using assms by (elim binary_unitE) (simp_all only:)
qed (use assms in \<open>elim binary_unitE; hypsubst; code_simp\<close>)+

lemma from_str_number:
  assumes "(u, k) \<in> set binary_units" and "n < 2 ^ 53" and "int n * k < 2 ^ 64"
  shows "from_str (show_nat n @ u) = Ok (int n * k)"
proof -
  note u = unit_facts [OF assms(1)]
  obtain e where e: "of_int k = pow2 e" using u(7) by blast
  have digits: "list_all size_char (show_nat n)" "list_all (\<lambda>c. of_char c < (128 :: nat)) (show_nat n)"
    using show_nat_digits [of n] by (auto simp: list_all_iff digit_is_size_char) (auto simp: is_digit_def)
  have parts: "takeWhile size_char (show_nat n @ u) = show_nat n" "dropWhile size_char (show_nat n @ u) = u"
    using digits(1) u(1,3) by (cases u; auto simp: list_all_iff takeWhile_append2 dropWhile_append2)+
  have k: "0 < k" using assms(1) by (auto simp: binary_units_def KIB_def MIB_def GIB_def TIB_def PIB_def)
  have unit: "round_to f64_bits (of_int k) = of_int k"
    using round_to_int [of k f64_bits] k u(8) by (simp add: f64_bits_def)
  have "round_to f64_bits (of_nat n * of_int k) = of_nat n * of_int k"
    using round_to_int_scale [of "int n" f64_bits e] assms(2) by (simp add: e f64_bits_def)
  also have "\<dots> = of_int (int n * k)" by simp
  finally have mul: "round_to f64_bits (of_nat n * of_int k) = of_int (int n * k)" .
  have "flt_to_u64 (Fin (of_int (int n * k))) = int n * k"
    using k assms(3) by (simp del: of_int_mult)
  moreover have "list_all (\<lambda>c. of_char c < (128 :: nat)) (show_nat n @ u)"
    using digits(2) u(5) by simp
  moreover have "show_nat n @ u \<noteq> []" using u(1) by simp
  ultimately show ?thesis
    by (simp only: from_str_def Let_def trim_number [OF u(1,2)] parts u(4,6) parse_f64_digits [OF assms(2)]
        flt_of_int_def unit flt_mul.simps mul if_False if_True not_True_eq_False option.case)
qed

section \<open>Properties\<close>

lemma serialize_cases:
  assumes "0 \<le> s"
  obtains "s = 0" "serialize_size s = Ser_str (show_nat 0 @ ''KiB'')"
  | u k where "(u, k) \<in> set binary_units" "s mod k = 0" "serialize_size s = Ser_str (show_nat (nat (s div k)) @ u)"
  | "serialize_size s = Ser_u64 s"
proof -
  have units: "(''KiB'', KIB) \<in> set binary_units" "(''MiB'', MIB) \<in> set binary_units"
      "(''GiB'', GIB) \<in> set binary_units" "(''TiB'', TIB) \<in> set binary_units" "(''PiB'', PIB) \<in> set binary_units"
    by (simp_all add: binary_units_def)
  consider "s = 0" | "s \<noteq> 0" "s mod PIB = 0" | "s \<noteq> 0" "s mod PIB \<noteq> 0" "s mod TIB = 0"
    | "s \<noteq> 0" "s mod PIB \<noteq> 0" "s mod TIB \<noteq> 0" "s mod GIB = 0"
    | "s \<noteq> 0" "s mod PIB \<noteq> 0" "s mod TIB \<noteq> 0" "s mod GIB \<noteq> 0" "s mod MIB = 0"
    | "s \<noteq> 0" "s mod PIB \<noteq> 0" "s mod TIB \<noteq> 0" "s mod GIB \<noteq> 0" "s mod MIB \<noteq> 0" "s mod KIB = 0"
    | "s \<noteq> 0" "s mod PIB \<noteq> 0" "s mod TIB \<noteq> 0" "s mod GIB \<noteq> 0" "s mod MIB \<noteq> 0" "s mod KIB \<noteq> 0"
    by blast
  then show thesis
    by cases (rule that; (rule units | assumption | simp add: serialize_size_def); fail)+
qed

text \<open>
  C37. Every size below \<open>2 ^ 63\<close> that is written to a configuration reads back as itself, although
  it is read through a floating-point number.
\<close>

theorem readable_size_roundtrip:
  assumes "0 \<le> s" and "s < 2 ^ 63"
  shows "deserialize_size (serialize_size s) = Ok s"
  using assms(1)
proof (cases s rule: serialize_cases)
  case 1
  then show ?thesis
    using from_str_number [of "''KiB''" KIB 0] by (simp add: deserialize_size_def binary_units_def)
next
  case (2 u k)
  have k: "1024 \<le> k" using 2(1) by (elim binary_unitE) (simp_all add: KIB_def MIB_def GIB_def TIB_def PIB_def)
  have s: "int (nat (s div k)) * k = s" using 2(2) k assms(1) by (auto simp: pos_imp_zdiv_nonneg_iff)
  have "s div k \<le> s div 1024" using k assms(1) by (intro zdiv_mono2) auto
  also have "s div 1024 < 2 ^ 53" using assms(2) by simp
  finally have "nat (s div k) < 2 ^ 53" by simp
  from from_str_number [OF 2(1) this, unfolded s] have "from_str (show_nat (nat (s div k)) @ u) = Ok s"
    using assms(2) by simp
  then show ?thesis by (simp add: deserialize_size_def 2(3))
next
  case 3
  then show ?thesis by (simp add: deserialize_size_def)
qed

theorem readable_size_roundtrip_witness:
  "deserialize_size (serialize_size (5 * 1024 * 1024 * 1024)) = Ok 5368709120 \<and>
   serialize_size (5 * 1024 * 1024 * 1024) = Ser_str ''5GiB''"
proof -
  have "serialize_size (5 * 1024 * 1024 * 1024) = Ser_str ''5GiB''" by code_simp
  then show ?thesis using readable_size_roundtrip [of "5 * 1024 * 1024 * 1024"] by simp
qed

end
