(* ===== verification/Memory_Store.thy ===== *)
theory Memory_Store
  imports Budget Ticket Buffer Readable_Size
begin

text \<open>
  The in-memory store: \<^verbatim>\<open>store/memory.rs\<close>.  It ties a buffer per partition to the memory
  budget and the tickets.

  A clone of the budget shares its counters (\<open>Arc\<close>).  The ticket manager keeps such a clone
  to give the memory of late tickets back: \<open>ticket_budget\<close> is \<open>None\<close> when it is a clone of
  the store's own budget, as \<open>MemoryStore::new\<close> sets it up, and the other budget when it is
  not, which is what \<open>MemoryStore::from\<close> does.

  Scans over the sharded map (\<open>state.clone().into_read_only()\<close>) see a copy, so the scanned
  copy is an argument \<open>view\<close> of its own; the theorems take it up to date.
\<close>

section \<open>State\<close>

record MemoryStore =
  memory_capacity :: int
  state :: "(PartitionedUId, BufferInternal) dmap"
  budget :: MemoryBudget
  ticket_manager :: TicketManager
  ticket_budget :: "MemoryBudget option"

record RequireBufferResponse =
  resp_ticket_id :: int
  allocated_timestamp :: int

record MemoryStoreConfig =
  conf_capacity :: string
  conf_ticket_timeout_sec :: int
  conf_ticket_check_interval_sec :: int

definition new_memory_store :: "int \<Rightarrow> MemoryStore" where
  "new_memory_store max_memory_size =
     \<lparr>memory_capacity = max_memory_size, state = [], budget = new_budget max_memory_size,
      ticket_manager = new_ticket_manager (5 * 60) 10, ticket_budget = None\<rparr>"

text \<open>\<open>unwrap\<close> panics on a capacity that does not parse.\<close>

definition memory_store_from :: "MemoryStoreConfig \<Rightarrow> (MemoryStore, unit) outcome" where
  "memory_store_from conf =
     (case from_str (conf_capacity conf) of
        Ok cap \<Rightarrow>
          Ok \<lparr>memory_capacity = i64 cap, state = [], budget = new_budget (i64 cap),
              ticket_manager = new_ticket_manager (conf_ticket_timeout_sec conf) (conf_ticket_check_interval_sec conf),
              ticket_budget = Some (new_budget (i64 cap))\<rparr>
      | _ \<Rightarrow> Panic)"

definition memory_snapshot :: "MemoryStore \<Rightarrow> CapacitySnapshot" where
  "memory_snapshot st = snapshot (budget st)"

definition memory_inc_used :: "int \<Rightarrow> MemoryStore \<Rightarrow> MemoryStore" where
  "memory_inc_used sz st = st\<lparr>budget := inc_used sz (budget st)\<rparr>"

definition memory_dec_used :: "int \<Rightarrow> MemoryStore \<Rightarrow> MemoryStore" where
  "memory_dec_used sz st = st\<lparr>budget := dec_used sz (budget st)\<rparr>"

definition memory_dec_allocated :: "int \<Rightarrow> MemoryStore \<Rightarrow> MemoryStore" where
  "memory_dec_allocated sz st = st\<lparr>budget := dec_allocated sz (budget st)\<rparr>"

definition memory_move_allocated_to_used :: "int \<Rightarrow> MemoryStore \<Rightarrow> MemoryStore" where
  "memory_move_allocated_to_used sz st = st\<lparr>budget := move_allocated_to_used sz (budget st)\<rparr>"

section \<open>Buffers\<close>

definition no_such_buffer :: anyhow where
  "no_such_buffer = Any_message ''No such existing buffer''"

definition get_buffer :: "PartitionedUId \<Rightarrow> MemoryStore \<Rightarrow> (BufferInternal, anyhow) outcome" where
  "get_buffer uid st = (case dm_get (state st) uid of Some b \<Rightarrow> Ok b | None \<Rightarrow> Err no_such_buffer)"

definition get_or_create_buffer :: "PartitionedUId \<Rightarrow> MemoryStore \<Rightarrow> MemoryStore \<times> BufferInternal" where
  "get_or_create_buffer uid st =
     (case dm_get (state st) uid of
        Some b \<Rightarrow> (st, b)
      | None \<Rightarrow> (st\<lparr>state := dm_insert uid new_buffer (state st)\<rparr>, new_buffer))"

definition get_buffer_size :: "PartitionedUId \<Rightarrow> MemoryStore \<Rightarrow> (int, anyhow) outcome" where
  "get_buffer_size uid st = and_then (get_buffer uid st) (\<lambda>b. Ok (u64 (total_size b)))"

definition get_buffer_staging_size :: "PartitionedUId \<Rightarrow> MemoryStore \<Rightarrow> (int, anyhow) outcome" where
  "get_buffer_staging_size uid st = and_then (get_buffer uid st) (\<lambda>b. Ok (u64 (staging_size b)))"

text \<open>A buffer is shared by reference: writing it back is how its mutation shows in the map.\<close>

definition put_buffer :: "PartitionedUId \<Rightarrow> BufferInternal \<Rightarrow> MemoryStore \<Rightarrow> MemoryStore" where
  "put_buffer uid b st = st\<lparr>state := dm_insert uid b (state st)\<rparr>"

definition clear_spilled_buffer ::
    "PartitionedUId \<Rightarrow> int \<Rightarrow> int \<Rightarrow> MemoryStore \<Rightarrow> MemoryStore \<times> (unit, anyhow) outcome" where
  "clear_spilled_buffer uid fid flen st =
     (case get_buffer uid st of
        Ok b \<Rightarrow> (memory_dec_used (i64 flen) (put_buffer uid (clear fid flen b) st), Ok ())
      | Err e \<Rightarrow> (st, Err e)
      | Panic \<Rightarrow> (st, Panic))"

section \<open>Choosing buffers to spill\<close>

text \<open>
  \<open>BTreeMap<i64, Vec<_>>\<close> with \<open>entry(k).or_insert_with(vec).push(v)\<close>: an association list
  kept in the order of its keys.
\<close>

fun bt_push :: "int \<Rightarrow> 'a \<Rightarrow> (int \<times> 'a list) list \<Rightarrow> (int \<times> 'a list) list" where
  "bt_push k v [] = [(k, [v])]"
| "bt_push k v ((j, vs) # m) =
     (if k < j then (k, [v]) # (j, vs) # m
      else if k = j then (j, vs @ [v]) # m
      else (j, vs) # bt_push k v m)"

fun sort_by_staging ::
    "(PartitionedUId, BufferInternal) dmap \<Rightarrow> (int \<times> PartitionedUId list) list \<Rightarrow> (int \<times> PartitionedUId list) list" where
  "sort_by_staging [] tree = tree"
| "sort_by_staging ((uid, b) # view) tree =
     sort_by_staging view (if staging_size b = 0 then tree else bt_push (staging_size b) uid tree)"

text \<open>The order the two nested loops visit: \<open>break 'outer\<close> ends both.\<close>

definition visit_order :: "(int \<times> 'a list) list \<Rightarrow> (int \<times> 'a) list" where
  "visit_order tree = concat (map (\<lambda>(sz, vals). map (\<lambda>v. (sz, v)) vals) (rev tree))"

fun pick_candidates ::
    "MemoryStore \<Rightarrow> int \<Rightarrow> (int \<times> PartitionedUId) list \<Rightarrow> int \<Rightarrow>
     (PartitionedUId, BufferInternal) dmap \<Rightarrow> (PartitionedUId, BufferInternal) dmap" where
  "pick_candidates st required [] spilled cand = cand"
| "pick_candidates st required ((sz, uid) # todo) spilled cand =
     (if spilled \<ge> required then cand
      else case get_buffer uid st of
             Ok b \<Rightarrow> pick_candidates st required todo (i64 (spilled + sz)) (dm_insert uid b cand)
           | _ \<Rightarrow> pick_candidates st required todo spilled cand)"

definition lookup_spill_buffers ::
    "(PartitionedUId, BufferInternal) dmap \<Rightarrow> int \<Rightarrow> MemoryStore \<Rightarrow>
     ((PartitionedUId, BufferInternal) dmap, anyhow) outcome" where
  "lookup_spill_buffers view expected_mem_used st =
     (let required = i64 (snap_used (memory_snapshot st) - expected_mem_used)
      in if required \<le> 0 then Err (Any_message '''')
         else Ok (pick_candidates st required (visit_order (sort_by_staging view [])) 0 []))"

section \<open>The store interface\<close>

definition memory_insert :: "WritingViewContext \<Rightarrow> MemoryStore \<Rightarrow> MemoryStore \<times> (unit, worker_error) outcome" where
  "memory_insert ctx st =
     (let (st', b) = get_or_create_buffer (w_uid ctx) st
      in (put_buffer (w_uid ctx) (append_blocks (w_data_blocks ctx) (w_data_size ctx) b) st', Ok ()))"

definition memory_get ::
    "(int \<times> batch) list \<Rightarrow> ReadingViewContext \<Rightarrow> MemoryStore \<Rightarrow> (PartitionedMemoryData, worker_error) outcome" where
  "memory_get it ctx st =
     and_then (from_anyhow (get_buffer (r_uid ctx) st)) (\<lambda>b.
       case r_reading_options ctx of
         MEMORY_LAST_BLOCK_ID_AND_MAX_SIZE last_id max_size \<Rightarrow>
           Ok (get_v2 it last_id max_size (r_task_ids ctx) b)
       | _ \<Rightarrow> Panic)"

definition memory_get_index :: "PartitionedUId \<Rightarrow> MemoryStore \<Rightarrow> (bytes, worker_error) outcome" where
  "memory_get_index uid st = Panic"

definition purge_matches :: "PurgeDataContext \<Rightarrow> PartitionedUId \<Rightarrow> bool" where
  "purge_matches ctx pid \<longleftrightarrow>
     app_id pid = p_app_id ctx \<and>
     (case p_shuffle_id ctx of Some s \<Rightarrow> shuffle_id pid = s | None \<Rightarrow> True)"

definition memory_purge ::
    "(PartitionedUId, BufferInternal) dmap \<Rightarrow> PurgeDataContext \<Rightarrow> MemoryStore \<Rightarrow>
     MemoryStore \<times> (int, anyhow) outcome" where
  "memory_purge view ctx st =
     (let removed_list = map fst (filter (\<lambda>e. purge_matches ctx (fst e)) view);
          (m, freed) = dm_drain total_size removed_list (state st) 0
      in (memory_dec_used freed (st\<lparr>state := m\<rparr>), Ok freed))"

definition memory_require_buffer ::
    "int \<Rightarrow> RequireBufferContext \<Rightarrow> MemoryStore \<Rightarrow> MemoryStore \<times> (RequireBufferResponse, worker_error) outcome" where
  "memory_require_buffer now ctx st =
     (let (b, succeed, tid) = require_allocated (q_size ctx) (budget st)
      in if succeed
         then (st\<lparr>budget := b,
                  ticket_manager := fst (ticket_insert tid (q_size ctx) now (app_id (q_uid ctx)) (ticket_manager st))\<rparr>,
               Ok \<lparr>resp_ticket_id = tid, allocated_timestamp = now\<rparr>)
         else (st\<lparr>budget := b\<rparr>, Err NO_ENOUGH_MEMORY_TO_BE_ALLOCATED))"

definition memory_release_ticket :: "int \<Rightarrow> MemoryStore \<Rightarrow> MemoryStore \<times> (int, worker_error) outcome" where
  "memory_release_ticket tid st =
     (let (tm, r) = ticket_delete tid (ticket_manager st) in (st\<lparr>ticket_manager := tm\<rparr>, r))"

definition memory_is_healthy :: "MemoryStore \<Rightarrow> bool" where
  "memory_is_healthy st = True"

text \<open>\<open>free_allocated_fn\<close> as it is wired, and one round of the ticket check on the store.\<close>

definition release_allocated :: "int \<Rightarrow> MemoryStore \<Rightarrow> MemoryStore" where
  "release_allocated sz st =
     (case ticket_budget st of
        None \<Rightarrow> memory_dec_allocated sz st
      | Some other \<Rightarrow> st\<lparr>ticket_budget := Some (dec_allocated sz other)\<rparr>)"

definition memory_ticket_round :: "(int, Ticket) dmap \<Rightarrow> int \<Rightarrow> MemoryStore \<Rightarrow> MemoryStore" where
  "memory_ticket_round view now st =
     (let (tm, freed) = ticket_check_round view now (ticket_manager st);
          st' = st\<lparr>ticket_manager := tm\<rparr>
      in case freed of Some sz \<Rightarrow> release_allocated sz st' | None \<Rightarrow> st')"

text \<open>
  \<open>read_partial_data_with_max_size_limit_and_filter\<close>, the older read of the store.
\<close>

fun read_partial_data ::
    "int \<Rightarrow> task_filter \<Rightarrow> Block list \<Rightarrow> Block list \<Rightarrow> int \<Rightarrow> Block list \<times> int" where
  "read_partial_data max_size task_ids [] fetched fetched_size = (fetched, fetched_size)"
| "read_partial_data max_size task_ids (b # bs) fetched fetched_size =
     (if filtered_out task_ids b then read_partial_data max_size task_ids bs fetched fetched_size
      else if fetched_size \<ge> max_size then (fetched, fetched_size)
      else read_partial_data max_size task_ids bs (fetched @ [b]) (i64 (fetched_size + length_of b)))"

section \<open>Which buffers are spilled\<close>

lemma visit_order_simps [simp]:
  "visit_order [] = []"
  "visit_order ((k, vs) # m) = visit_order m @ map (\<lambda>v. (k, v)) vs"
  by (simp_all add: visit_order_def)

definition bt_ok :: "(int \<times> 'a list) list \<Rightarrow> bool" where
  "bt_ok m \<longleftrightarrow> sorted_wrt (\<lambda>a b. fst a < fst b) m"

lemma set_bt_push: "fst ` set (bt_push k v m) = insert k (fst ` set m)"
  by (induction k v m rule: bt_push.induct) auto

lemma bt_push_ok: "bt_ok m \<Longrightarrow> bt_ok (bt_push k v m)"
proof (induction k v m rule: bt_push.induct)
  case (2 k v j vs m)
  have "\<forall>b\<in>set m. j < fst b" "bt_ok m" using 2(2) by (auto simp: bt_ok_def)
  moreover have "\<forall>b\<in>set (bt_push k v m). j < fst b" if "j < k"
    using that calculation(1) set_bt_push [of k v m] by fastforce
  ultimately show ?case using 2 by (fastforce simp: bt_ok_def)
qed (simp add: bt_ok_def)

lemma bt_push_mset: "mset (visit_order (bt_push k v m)) = add_mset (k, v) (mset (visit_order m))"
  by (induction k v m rule: bt_push.induct) auto

lemma visit_order_sorted: "bt_ok m \<Longrightarrow> sorted_wrt (\<lambda>a b. fst b \<le> fst a) (visit_order m)"
proof (induction m)
  case Nil
  then show ?case by simp
next
  case (Cons e m)
  have "fst ` set (visit_order m) \<subseteq> fst ` set m"
    by (force simp: visit_order_def)
  with Cons show ?case
    by (cases e) (fastforce simp: bt_ok_def sorted_wrt_append sorted_wrt_map)
qed

lemma sort_by_staging_ok: "bt_ok tree \<Longrightarrow> bt_ok (sort_by_staging view tree)"
  by (induction view tree rule: sort_by_staging.induct) (auto simp: bt_push_ok)

text \<open>The visiting order lists the buffers with staged data, the largest first.\<close>

definition staged_entries :: "(PartitionedUId, BufferInternal) dmap \<Rightarrow> (int \<times> PartitionedUId) list" where
  "staged_entries view =
     map (\<lambda>(uid, b). (staging_size b, uid)) (filter (\<lambda>(uid, b). staging_size b \<noteq> 0) view)"

lemma sort_by_staging_mset:
  "mset (visit_order (sort_by_staging view tree)) = mset (visit_order tree) + mset (staged_entries view)"
  by (induction view tree rule: sort_by_staging.induct)
    (auto simp: bt_push_mset staged_entries_def)

fun need :: "int \<Rightarrow> (int \<times> 'a) list \<Rightarrow> (int \<times> 'a) list" where
  "need req [] = []"
| "need req (x # xs) = (if req \<le> 0 then [] else x # need (req - fst x) xs)"

lemma need_prefix:
  "\<exists>zs. xs = need req xs @ zs \<and> (zs = [] \<or> req \<le> sum_list (map fst (need req xs)))"
proof (induction req xs rule: need.induct)
  case (2 req x xs)
  show ?case
  proof (cases "req \<le> 0")
    case False
    with 2 obtain zs where "xs = need (req - fst x) xs @ zs"
      "zs = [] \<or> req - fst x \<le> sum_list (map fst (need (req - fst x) xs))" by blast
    with False show ?thesis by (intro exI [of _ zs]) auto
  qed simp
qed simp

lemma need_minimal:
  assumes "sorted_wrt (\<lambda>a b. fst b \<le> fst a) xs" and "p \<in> set (need req xs)"
  shows "sum_list (map fst (need req xs)) - fst p < req"
  using assms
proof (induction req xs arbitrary: p rule: need.induct)
  case (1 req)
  then show ?case by simp
next
  case (2 req x xs)
  then have pos: "0 < req" by (auto split: if_splits)
  let ?n = "need (req - fst x) xs"
  have ih: "sum_list (map fst ?n) - fst q < req - fst x" if "q \<in> set ?n" for q
    using 2 pos that by auto
  have "sum_list (map fst ?n) < req"
  proof (cases ?n)
    case Nil
    with pos show ?thesis by simp
  next
    case (Cons q qs)
    then have "q \<in> set xs" using need_prefix [of xs "req - fst x"] by (metis UnCI list.set_intros(1) set_append)
    then have "fst q \<le> fst x" using 2(2) by simp
    moreover have "sum_list (map fst ?n) - fst q < req - fst x" by (rule ih) (simp add: Cons)
    ultimately show ?thesis by linarith
  qed
  with 2(3) pos ih show ?case by fastforce
qed

lemma pick_candidates_eq:
  assumes "\<forall>(sz, uid) \<in> set xs. 0 \<le> sz \<and> dm_get (state st) uid \<noteq> None"
    and "distinct (map fst cand @ map snd xs)"
    and "0 \<le> spilled" and "spilled + sum_list (map fst xs) < 2 ^ 63"
  shows "pick_candidates st req xs spilled cand =
    cand @ map (\<lambda>(sz, uid). (uid, the (dm_get (state st) uid))) (need (req - spilled) xs)"
  using assms
proof (induction xs arbitrary: spilled cand)
  case Nil
  then show ?case by simp
next
  case (Cons x xs)
  obtain sz uid where x: "x = (sz, uid)" by (cases x)
  obtain b where b: "dm_get (state st) uid = Some b" and sz: "0 \<le> sz"
    using Cons.prems(1) by (auto simp: x)
  have "0 \<le> sum_list (map fst xs)" using Cons.prems(1) by (intro sum_list_nonneg) auto
  then have "i64 (spilled + sz) = spilled + sz"
    using Cons.prems sz by (intro i64_id) (auto simp: x)
  moreover have "dm_insert uid b cand = cand @ [(uid, b)]"
    using Cons.prems(2) by (intro dm_insert_new) (auto simp: x)
  ultimately show ?case
    using Cons.IH [of "cand @ [(uid, b)]" "spilled + sz"] Cons.prems sz
    by (simp add: x get_buffer_def b algebra_simps)
qed

text \<open>
  The result of a lookup, with the staged sizes: enough to reach the target or everything,
  the largest buffers, and none too many.
\<close>

definition staged_total :: "(PartitionedUId, BufferInternal) dmap \<Rightarrow> int" where
  "staged_total view = weight staging_size view"

definition good_candidates ::
    "int \<Rightarrow> (PartitionedUId, BufferInternal) dmap \<Rightarrow> (PartitionedUId, BufferInternal) dmap \<Rightarrow> bool" where
  "good_candidates required view cand \<longleftrightarrow>
     set cand \<subseteq> set view \<and> distinct (map fst cand) \<and>
     list_all (\<lambda>(u, b). 0 < staging_size b) cand \<and>
     (required \<le> staged_total cand \<or> (\<forall>(u, b) \<in> set view. staging_size b \<noteq> 0 \<longrightarrow> (u, b) \<in> set cand)) \<and>
     (\<forall>(u, b) \<in> set cand. \<forall>(v, d) \<in> set view - set cand. staging_size d \<le> staging_size b) \<and>
     (\<forall>(u, b) \<in> set cand. staged_total cand - staging_size b < required)"

lemma staged_entries_mem:
  "(sz, uid) \<in> set (staged_entries view) \<longleftrightarrow> (\<exists>b. (uid, b) \<in> set view \<and> staging_size b = sz \<and> sz \<noteq> 0)"
  by (auto simp: staged_entries_def)

lemma staged_entries_distinct: "dm_ok view \<Longrightarrow> distinct (map snd (staged_entries view))"
  by (auto simp: staged_entries_def dm_ok_def comp_def case_prod_unfold distinct_map_filter)

lemma staged_entries_sum: "sum_list (map fst (staged_entries view)) = staged_total view"
  by (induction view) (auto simp: staged_entries_def staged_total_def)

lemma weight_alt: "weight f es = sum_list (map (\<lambda>e. f (snd e)) es)"
  by (simp add: weight_def case_prod_unfold)

lemma good_candidatesI:
  assumes ok: "dm_ok view" and nn: "list_all (\<lambda>(u, b). 0 \<le> staging_size b) view"
    and perm: "set (n @ zs) = set (staged_entries view)" and dist: "distinct (map snd n)"
    and sorted: "sorted_wrt (\<lambda>a b. fst b \<le> fst a) (n @ zs)"
    and enough: "zs = [] \<or> r \<le> sum_list (map fst n)"
    and minimal: "\<And>p. p \<in> set n \<Longrightarrow> sum_list (map fst n) - fst p < r"
  shows "good_candidates r view (map (\<lambda>(sz, uid). (uid, the (dm_get view uid))) n)"
proof -
  let ?c = "map (\<lambda>(sz, uid). (uid, the (dm_get view uid))) n"
  have get: "dm_get view u = Some b \<longleftrightarrow> (u, b) \<in> set view" for u b
    using ok by (simp add: dm_ok_def)
  have n: "\<exists>b. (u, b) \<in> set view \<and> staging_size b = sz \<and> sz \<noteq> 0" if "(sz, u) \<in> set n" for sz u
    using perm that staged_entries_mem [of sz u view] by auto
  have the: "staging_size (the (dm_get view u)) = sz \<and> (u, the (dm_get view u)) \<in> set view"
    if "(sz, u) \<in> set n" for sz u
  proof -
    from n [OF that] obtain b where b: "(u, b) \<in> set view" "staging_size b = sz" by blast
    then have "dm_get view u = Some b" using get by blast
    with b show ?thesis by simp
  qed
  have memc: "(u, b) \<in> set ?c \<longleftrightarrow> (staging_size b, u) \<in> set n \<and> (u, b) \<in> set view" for u b
  proof
    assume "(u, b) \<in> set ?c"
    then obtain sz where "(sz, u) \<in> set n" "b = the (dm_get view u)" by auto
    then show "(staging_size b, u) \<in> set n \<and> (u, b) \<in> set view" using the by blast
  next
    assume "(staging_size b, u) \<in> set n \<and> (u, b) \<in> set view"
    then show "(u, b) \<in> set ?c" using get [of u b] by force
  qed
  have "map (\<lambda>e. staging_size (snd e)) ?c = map fst n"
    using the by auto
  then have sum: "staged_total ?c = sum_list (map fst n)"
    by (simp only: staged_total_def weight_alt)
  have big: "staging_size d \<le> staging_size b"
    if "(u, b) \<in> set ?c" "(v, d) \<in> set view" "(v, d) \<notin> set ?c" for u b v d
  proof (cases "staging_size d = 0")
    case True
    then show ?thesis using that(1) nn memc [of u b] by (auto simp: list_all_iff)
  next
    case False
    then have "(staging_size d, v) \<in> set zs"
      using that(2,3) memc [of v d] perm staged_entries_mem [of "staging_size d" v view] by auto
    then show ?thesis using sorted that(1) memc [of u b] by (fastforce simp: sorted_wrt_append)
  qed
  have all: "(u, b) \<in> set ?c" if "zs = []" "(u, b) \<in> set view" "staging_size b \<noteq> 0" for u b
    using that memc [of u b] perm staged_entries_mem [of "staging_size b" u view] by auto
  have pos: "0 < staging_size b" if "(u, b) \<in> set ?c" for u b
    using that memc [of u b] n [of "staging_size b" u] nn by (fastforce simp: list_all_iff)
  have dc: "distinct (map fst ?c)"
    using dist by (simp add: comp_def case_prod_unfold)
  have sub: "set ?c \<subseteq> set view" using the by auto
  have min: "staged_total ?c - staging_size b < r" if "(u, b) \<in> set ?c" for u b
    using minimal [of "(staging_size b, u)"] that memc [of u b] by (simp add: sum)
  show ?thesis
    unfolding good_candidates_def
    using big all pos dc sub min enough sum by (fastforce simp: list_all_iff)
qed

lemma lookup_spill_buffers_good:
  assumes ok: "dm_ok (state st)" and nn: "list_all (\<lambda>(u, b). 0 \<le> staging_size b) (state st)"
    and bound: "staged_total (state st) < 2 ^ 63"
    and req: "0 < used (budget st) - e" "used (budget st) - e < 2 ^ 63"
  shows "\<exists>cand. lookup_spill_buffers (state st) e st = Ok cand \<and>
    good_candidates (used (budget st) - e) (state st) cand"
proof -
  let ?r = "used (budget st) - e"
  let ?view = "state st"
  define ys where "ys = visit_order (sort_by_staging ?view [])"
  have ysm: "mset ys = mset (staged_entries ?view)"
    by (simp add: ys_def sort_by_staging_mset)
  have sorted: "sorted_wrt (\<lambda>a b. fst b \<le> fst a) ys"
    unfolding ys_def by (intro visit_order_sorted sort_by_staging_ok) (simp add: bt_ok_def)
  have dist: "distinct (map snd ys)"
    using ysm staged_entries_distinct [OF ok] by (metis mset_map mset_eq_imp_distinct_iff)
  have "sum_list (map fst ys) = staged_total ?view"
    using ysm by (metis mset_map sum_mset_sum_list staged_entries_sum)
  moreover have "0 \<le> sz \<and> dm_get ?view uid \<noteq> None" if in_ys: "(sz, uid) \<in> set ys" for sz uid
  proof -
    obtain b where "(uid, b) \<in> set ?view" "staging_size b = sz"
      using in_ys mset_eq_setD [OF ysm] staged_entries_mem [of sz uid ?view] by auto
    then show ?thesis using nn ok by (auto simp: list_all_iff dm_ok_def)
  qed
  ultimately have "pick_candidates st ?r ys 0 [] =
      map (\<lambda>(sz, uid). (uid, the (dm_get ?view uid))) (need ?r ys)"
    using dist bound by (subst pick_candidates_eq) auto
  moreover have "i64 ?r = ?r" using req by (intro i64_id) auto
  ultimately have "lookup_spill_buffers ?view e st =
      Ok (map (\<lambda>(sz, uid). (uid, the (dm_get ?view uid))) (need ?r ys))"
    using req by (simp add: lookup_spill_buffers_def memory_snapshot_def snapshot_def ys_def)
  moreover obtain zs where zs: "ys = need ?r ys @ zs" "zs = [] \<or> ?r \<le> sum_list (map fst (need ?r ys))"
    using need_prefix by blast
  have "good_candidates ?r ?view (map (\<lambda>(sz, uid). (uid, the (dm_get ?view uid))) (need ?r ys))"
  proof (rule good_candidatesI [OF ok nn, of _ zs])
    show "set (need ?r ys @ zs) = set (staged_entries ?view)"
      using zs(1) mset_eq_setD [OF ysm] by simp
    show "distinct (map snd (need ?r ys))"
      using dist zs(1) by (metis distinct_append map_append)
    show "sorted_wrt (\<lambda>a b. fst b \<le> fst a) (need ?r ys @ zs)"
      using zs(1) sorted by simp
  qed (use zs(2) need_minimal [OF sorted] in auto)
  ultimately show ?thesis by blast
qed

section \<open>Properties\<close>

text \<open>
  C6. The choice of buffers to spill is right: when more memory is used than wanted, the
  candidates are buffers with staged data whose sizes add up to the excess (or all such
  buffers when that is not enough), no buffer left out is larger than one that was chosen,
  and without any one of the candidates the excess would not be reached.
\<close>

theorem spill_candidates_right:
  assumes "dm_ok (state st)" and "list_all (\<lambda>(u, b). 0 \<le> staging_size b) (state st)"
    and "staged_total (state st) < 2 ^ 63"
    and "0 < used (budget st) - expected" and "used (budget st) - expected < 2 ^ 63"
  shows "\<exists>cand. lookup_spill_buffers (state st) expected st = Ok cand \<and>
    good_candidates (used (budget st) - expected) (state st) cand"
  using assms by (rule lookup_spill_buffers_good)

definition uid_of :: "string \<Rightarrow> int \<Rightarrow> int \<Rightarrow> PartitionedUId" where
  "uid_of a s p = \<lparr>app_id = a, shuffle_id = s, partition_id = p\<rparr>"

definition sample_store :: MemoryStore where
  "sample_store = (new_memory_store 100)\<lparr>
     state := [(uid_of ''a'' 0 0, direct_push [sample_block 1 2] new_buffer),
               (uid_of ''a'' 0 1, direct_push [sample_block 2 5] new_buffer),
               (uid_of ''b'' 0 0, direct_push [sample_block 3 4] new_buffer)],
     budget := \<lparr>capacity = 100, allocated = 0, used = 11, allocation_inc_counter = 0\<rparr>\<rparr>"

lemmas sample_store_simps =
  sample_store_def new_memory_store_def uid_of_def direct_push_def append_blocks_def new_buffer_def
  sample_block_def sum_i32_def i32_id u64_id i64_id

theorem spill_candidates_right_witness:
  "(\<exists>cand. lookup_spill_buffers (state sample_store) 3 sample_store = Ok cand \<and>
      good_candidates 8 (state sample_store) cand) \<and>
   (case lookup_spill_buffers (state sample_store) 3 sample_store of
      Ok cand \<Rightarrow> map (\<lambda>(u, b). staging_size b) cand = [5, 4] | _ \<Rightarrow> False)"
  using spill_candidates_right [of sample_store 3]
  by (simp add: sample_store_simps dm_ok_def staged_total_def)
    (simp add: lookup_spill_buffers_def memory_snapshot_def snapshot_def get_buffer_def i64_id)

text \<open>
  A write is readable at once: after an insert, the partition's buffer holds its old
  blocks followed by the new ones, and every other partition is as before.
\<close>

theorem memory_insert_readable:
  assumes "memory_insert ctx st = (st', r)"
  defines "blocks_of \<equiv> \<lambda>m uid. case dm_get (state m) uid of None \<Rightarrow> [] | Some b \<Rightarrow> all_blocks (flight b) b"
  shows "r = Ok () \<and> blocks_of st' (w_uid ctx) = blocks_of st (w_uid ctx) @ w_data_blocks ctx \<and>
    (\<forall>uid. uid \<noteq> w_uid ctx \<longrightarrow> dm_get (state st') uid = dm_get (state st) uid)"
  using assms(1)
  by (auto simp: memory_insert_def get_or_create_buffer_def put_buffer_def blocks_of_def dm_simps
      append_blocks_def all_blocks_def new_buffer_def split: option.splits)

theorem memory_insert_readable_witness:
  "let ctx = new_writing_ctx (uid_of ''a'' 0 0) [sample_block 9 3];
       st' = fst (memory_insert ctx sample_store)
   in (case dm_get (state st') (uid_of ''a'' 0 0) of None \<Rightarrow> [] | Some b \<Rightarrow> all_blocks (flight b) b) =
        [sample_block 1 2, sample_block 9 3]"
  using memory_insert_readable [of "new_writing_ctx (uid_of ''a'' 0 0) [sample_block 9 3]" sample_store]
  by (simp add: new_writing_ctx_def sample_store_simps all_blocks_def case_prod_unfold prod_eq_iff Let_def)

text \<open>
  Purging an application, or one shuffle of it, removes the buffers of exactly those
  partitions, gives back the memory they held, and reports it.
\<close>

theorem memory_purge_exact:
  assumes "dm_ok (state st)" and "budget_inv (budget st)"
    and "freed = weight total_size (filter (\<lambda>e. purge_matches ctx (fst e)) (state st))"
    and "0 \<le> freed" and "freed \<le> used (budget st)"
  shows "memory_purge (state st) ctx st =
    (st\<lparr>state := filter (\<lambda>e. \<not> purge_matches ctx (fst e)) (state st),
        budget := (budget st)\<lparr>used := used (budget st) - freed\<rparr>\<rparr>, Ok freed)"
proof -
  have "freed < 2 ^ 63" using assms(2,5) by (auto simp: budget_inv_def)
  then have "i64 freed = freed" using assms(4) by (intro i64_id) auto
  then show ?thesis
    using assms
    by (simp add: memory_purge_def dm_drain_filter memory_dec_used_def dec_used_eq min_def)
qed

theorem memory_purge_exact_witness:
  "snd (memory_purge (state sample_store) \<lparr>p_app_id = ''a'', p_shuffle_id = None\<rparr> sample_store) = Ok 7 \<and>
   map fst (state (fst (memory_purge (state sample_store) \<lparr>p_app_id = ''a'', p_shuffle_id = None\<rparr> sample_store))) =
     [uid_of ''b'' 0 0] \<and>
   used (budget (fst (memory_purge (state sample_store) \<lparr>p_app_id = ''a'', p_shuffle_id = None\<rparr> sample_store))) = 4"
  using memory_purge_exact [of sample_store 7 "\<lparr>p_app_id = ''a'', p_shuffle_id = None\<rparr>"]
  by (simp add: sample_store_simps dm_ok_def budget_inv_def purge_matches_def)

text \<open>
  C29. In a store that is built from the configuration, the ticket manager gives the memory
  of late tickets back to a budget of its own and not to the store's: a timeout round never
  changes the store's budget, so what a vanished client has reserved stays reserved.
\<close>

theorem late_tickets_not_returned:
  "(memory_store_from conf = Ok st0 \<longrightarrow> ticket_budget st0 \<noteq> None) \<and>
   (ticket_budget st \<noteq> None \<longrightarrow> budget (memory_ticket_round view now st) = budget st)"
  by (auto simp: memory_store_from_def memory_ticket_round_def release_allocated_def
      case_prod_unfold Let_def split: option.split outcome.splits)

definition late_scenario :: "MemoryStore \<Rightarrow> MemoryStore" where
  "late_scenario st =
     (let st1 = fst (memory_require_buffer 0 \<lparr>q_uid = uid_of ''a'' 0 0, q_size = 100\<rparr> st)
      in memory_ticket_round (ticket_store (ticket_manager st1)) 1000 st1)"

definition late_conf :: MemoryStoreConfig where
  "late_conf = \<lparr>conf_capacity = ''100KiB'', conf_ticket_timeout_sec = 300, conf_ticket_check_interval_sec = 10\<rparr>"

lemma late_conf_store:
  "memory_store_from late_conf = Ok \<lparr>memory_capacity = 102400, state = [], budget = new_budget 102400,
     ticket_manager = new_ticket_manager 300 10, ticket_budget = Some (new_budget 102400)\<rparr>"
proof -
  have "show_nat 100 = ''100''" by code_simp
  then have "from_str ''100KiB'' = Ok 102400"
    using from_str_number [of "''KiB''" KIB 100] by (simp add: binary_units_def KIB_def)
  then show ?thesis by (simp add: memory_store_from_def late_conf_def i64_id)
qed

theorem late_tickets_not_returned_witness:
  "\<exists>st0. memory_store_from late_conf = Ok st0 \<and>
    (let st = late_scenario st0; st' = late_scenario (new_memory_store 102400)
     in ticket_store (ticket_manager st) = [] \<and> allocated (budget st) = 100 \<and>
        ticket_store (ticket_manager st') = [] \<and> allocated (budget st') = 0)"
proof -
  obtain st0 where st0: "memory_store_from late_conf = Ok st0" by (simp add: late_conf_store)
  let ?st1 = "fst (memory_require_buffer 0 \<lparr>q_uid = uid_of ''a'' 0 0, q_size = 100\<rparr> st0)"
  have "budget (late_scenario st0) = budget ?st1"
    using late_tickets_not_returned [of late_conf st0 ?st1 "ticket_store (ticket_manager ?st1)" 1000] st0
    by (simp add: late_scenario_def memory_require_buffer_def require_allocated_def late_conf_store
        new_budget_def i64_id Let_def split: if_splits)
  with st0 show ?thesis
    by (auto simp: late_scenario_def memory_require_buffer_def require_allocated_def late_conf_store
        new_memory_store_def new_budget_def i64_id u64_id ticket_insert_def new_ticket_manager_def
        memory_ticket_round_def ticket_check_round_def is_timeout_def release_allocated_def
        memory_dec_allocated_def dec_allocated_def Let_def)
qed

text \<open>
  The older read of the store returns the wanted blocks up to and including the one that
  reaches the limit, as the paged read does from the beginning.
\<close>

theorem read_partial_data_page:
  assumes "list_all (\<lambda>b. 0 \<le> length_of b) bs" and "lens bs < 2 ^ 63"
  shows "read_partial_data max_size task_ids bs [] 0 =
    (page INVALID_BLOCK_ID max_size task_ids bs, lens (page INVALID_BLOCK_ID max_size task_ids bs))"
proof -
  have "read_partial_data max_size task_ids bs res n =
      (res @ take_limit (max_size - n) (filter (\<lambda>b. \<not> filtered_out task_ids b) bs),
       n + lens (take_limit (max_size - n) (filter (\<lambda>b. \<not> filtered_out task_ids b) bs)))"
    if "0 \<le> n" "n + lens bs < 2 ^ 63" for res n
    using assms(1) that
  proof (induction bs arbitrary: res n)
    case Nil
    then show ?case by simp
  next
    case (Cons b bs)
    have "0 \<le> lens bs" using Cons.prems(1) by (simp add: lens_nonneg)
    then have "i64 (n + length_of b) = n + length_of b"
      using Cons.prems by (intro i64_id) auto
    with Cons show ?case by (auto simp: algebra_simps)
  qed
  from this [of 0 "[]"] show ?thesis using assms(2) by (simp add: page_def rest_after_def)
qed

theorem read_partial_data_page_witness:
  "read_partial_data 3 (Some (\<lambda>t. t = 5)) [sample_block 1 2, sample_block 2 2, sample_block 3 1] [] 0 =
     ([sample_block 1 2, sample_block 2 2], 4)"
  using read_partial_data_page [of "[sample_block 1 2, sample_block 2 2, sample_block 3 1]" 3 "Some (\<lambda>t. t = 5)"]
  by (simp add: sample_block_def page_def rest_after_def filtered_out_def u64_id)

end
