(* ===== verification/Memory_Accounting.thy ===== *)
theory Memory_Accounting
  imports Memory_Store
begin

text \<open>
  The books of the in-memory store.  Requests of many clients interleave: a step of
  \<open>mem_step\<close> is one operation of \<^verbatim>\<open>store/memory.rs\<close> on the shared state, in any order.

  Between two operations of one request the books are open.  The ledger says by how much:
  \<open>pending\<close> is the memory of tickets that were handed in and not yet settled, \<open>unsettled\<close>
  the data that is in a buffer but not yet moved to the used side of the budget, and \<open>leaked\<close>
  what the clamp of \<open>dec_used\<close> at zero has lost.
\<close>

record Ledger =
  pending :: int
  unsettled :: int
  leaked :: int

definition closed_books :: Ledger where
  "closed_books = \<lparr>pending = 0, unsettled = 0, leaked = 0\<rparr>"

definition audited :: "MemoryStore \<times> Ledger \<Rightarrow> bool" where
  "audited = (\<lambda>(st, l).
     budget_inv (budget st) \<and> dm_ok (state st) \<and> list_all (\<lambda>(u, b). buffer_inv b) (state st) \<and>
     tickets_inv (ticket_manager st) \<and> 0 \<le> allocation_inc_counter (budget st) \<and>
     list_all (\<lambda>(i, t). 0 \<le> ticket_size t \<and> i \<le> allocation_inc_counter (budget st))
       (ticket_store (ticket_manager st)) \<and>
     ticket_budget st = None \<and>
     0 \<le> pending l \<and> 0 \<le> unsettled l \<and> 0 \<le> leaked l \<and>
     allocated (budget st) = outstanding (ticket_manager st) + pending l \<and>
     used (budget st) + unsettled l = weight total_size (state st) + leaked l)"

text \<open>A writing context whose declared size is the sum of its blocks.\<close>

definition honest :: "WritingViewContext \<Rightarrow> bool" where
  "honest ctx \<longleftrightarrow> list_all (\<lambda>b. 0 \<le> length_of b) (w_data_blocks ctx) \<and>
     w_data_size ctx = lens (w_data_blocks ctx)"

definition held :: "PartitionedUId \<Rightarrow> MemoryStore \<Rightarrow> int" where
  "held uid st = (case dm_get (state st) uid of Some b \<Rightarrow> total_size b | None \<Rightarrow> 0)"

inductive mem_step :: "MemoryStore \<times> Ledger \<Rightarrow> MemoryStore \<times> Ledger \<Rightarrow> bool" where
  Require: "0 \<le> q_size ctx \<Longrightarrow> allocation_inc_counter (budget st) < 2 ^ 63 - 1 \<Longrightarrow>
    mem_step (st, l) (fst (memory_require_buffer now ctx st), l)"
| Release: "memory_release_ticket tid st = (st', Ok sz) \<Longrightarrow>
    mem_step (st, l) (st', l\<lparr>pending := pending l + sz\<rparr>)"
| Insert: "honest ctx \<Longrightarrow> held (w_uid ctx) st + w_data_size ctx < 2 ^ 63 \<Longrightarrow>
    mem_step (st, l) (fst (memory_insert ctx st), l\<lparr>unsettled := unsettled l + w_data_size ctx\<rparr>)"
| Settle: "0 \<le> n \<Longrightarrow> n \<le> pending l \<Longrightarrow> n \<le> unsettled l \<Longrightarrow>
    mem_step (st, l) (memory_move_allocated_to_used n st,
      l\<lparr>pending := pending l - n, unsettled := unsettled l - n\<rparr>)"
| Unused: "0 \<le> n \<Longrightarrow> n \<le> pending l \<Longrightarrow>
    mem_step (st, l) (memory_dec_allocated n st, l\<lparr>pending := pending l - n\<rparr>)"
| Spill: "get_buffer uid st = Ok b \<Longrightarrow> flight_counter b < 2 ^ 64 - 1 \<Longrightarrow>
    mem_step (st, l) (put_buffer uid (fst (spill b)) st, l)"
| Flushed: "get_buffer uid st = Ok b \<Longrightarrow> dm_get (flight b) fid = Some bb \<Longrightarrow>
    mem_step (st, l) (fst (clear_spilled_buffer uid fid (lens (concat bb)) st),
      l\<lparr>leaked := leaked l + max 0 (lens (concat bb) - used (budget st))\<rparr>)"
| Purge: "memory_purge (state st) ctx st = (st', Ok sz) \<Longrightarrow> weight total_size (state st) < 2 ^ 63 \<Longrightarrow>
    mem_step (st, l) (st', l\<lparr>leaked := leaked l + max 0 (sz - used (budget st))\<rparr>)"
| Ticket_check: "mem_step (st, l) (memory_ticket_round view now st, l)"

inductive_cases mem_stepE: "mem_step (st, l) s'"

section \<open>Each operation keeps the books\<close>

lemma audited_budgetI:
  assumes "audited (st, l)" and "budget_inv b" and "allocation_inc_counter b = allocation_inc_counter (budget st)"
    and "allocated b = outstanding (ticket_manager st) + pending l'"
    and "used b + unsettled l' = weight total_size (state st) + leaked l'"
    and "0 \<le> pending l'" and "0 \<le> unsettled l'" and "0 \<le> leaked l'"
  shows "audited (st\<lparr>budget := b\<rparr>, l')"
  using assms by (simp add: audited_def)

lemma audited_bufferI:
  assumes "audited (st, l)" and "dm_get (state st) uid = Some b0" and "buffer_inv b"
    and "total_size b = total_size b0"
  shows "audited (put_buffer uid b st, l)"
proof -
  have "dm_ok (state st)" using assms(1) by (simp add: audited_def)
  then have "weight total_size (dm_insert uid b (state st)) = weight total_size (state st)"
    by (simp add: dm.weight_put assms(2,4))
  moreover have "list_all (\<lambda>(u, b). buffer_inv b) (dm_insert uid b (state st))"
    using assms(1,3) set_dm_insert [of uid b "state st"] by (fastforce simp: audited_def list_all_iff)
  ultimately show ?thesis
    using assms(1) by (simp add: audited_def put_buffer_def)
qed

lemma audited_settle:
  assumes "audited (st, l)" and "0 \<le> n" "n \<le> pending l" "n \<le> unsettled l"
  shows "audited (memory_move_allocated_to_used n st, l\<lparr>pending := pending l - n, unsettled := unsettled l - n\<rparr>)"
proof -
  have b: "budget_inv (budget st)" and o: "0 \<le> outstanding (ticket_manager st)"
    using assms(1) by (auto simp: audited_def outstanding_def list_all_iff intro!: weight_nonneg)
  have "n \<le> allocated (budget st)" using assms o by (simp add: audited_def)
  then show ?thesis
    unfolding memory_move_allocated_to_used_def
    using assms budget.commit_invar [OF b assms(2)] budget.commit_moves [OF b assms(2)]
    by (intro audited_budgetI [OF assms(1)]) (auto simp: audited_def move_allocated_eq [OF b assms(2)])
qed

lemma outstanding_nonneg: "audited (st, l) \<Longrightarrow> 0 \<le> outstanding (ticket_manager st)"
  by (auto simp: audited_def outstanding_def list_all_iff intro!: weight_nonneg)

lemma audited_unused:
  assumes "audited (st, l)" and "0 \<le> n" "n \<le> pending l"
  shows "audited (memory_dec_allocated n st, l\<lparr>pending := pending l - n\<rparr>)"
proof -
  have b: "budget_inv (budget st)" using assms(1) by (simp add: audited_def)
  have "n \<le> allocated (budget st)"
    using assms outstanding_nonneg [OF assms(1)] by (simp add: audited_def)
  then show ?thesis
    unfolding memory_dec_allocated_def
    using assms budget.cancel_invar [OF b assms(2)]
    by (intro audited_budgetI [OF assms(1)]) (auto simp: audited_def dec_allocated_eq [OF b assms(2)])
qed

lemma audited_dec_used:
  assumes "audited (st, l)" and "0 \<le> n"
    and "weight total_size m = weight total_size (state st) - n" and "dm_ok m"
    and "list_all (\<lambda>(u, b). buffer_inv b) m"
  shows "audited (memory_dec_used n (st\<lparr>state := m\<rparr>), l\<lparr>leaked := leaked l + max 0 (n - used (budget st))\<rparr>)"
proof -
  have b: "budget_inv (budget st)" using assms(1) by (simp add: audited_def)
  show ?thesis
    unfolding memory_dec_used_def
    using assms budget.release_invar [OF b assms(2)]
    by (auto simp: audited_def dec_used_eq [OF b assms(2)])
qed

lemma audited_require:
  assumes "audited (st, l)" and "0 \<le> q_size ctx" and "allocation_inc_counter (budget st) < 2 ^ 63 - 1"
  shows "audited (fst (memory_require_buffer now ctx st), l)"
proof -
  have b: "budget_inv (budget st)" and tm: "tickets_inv (ticket_manager st)"
    using assms(1) by (simp_all add: audited_def)
  let ?id = "allocation_inc_counter (budget st) + 1"
  let ?tm = "fst (ticket_insert ?id (q_size ctx) now (app_id (q_uid ctx)) (ticket_manager st))"
  have id: "i64 ?id = ?id" using assms by (intro i64_id) (auto simp: audited_def)
  have "\<not> ticket_exist ?id (ticket_manager st)"
    using assms(1)
    by (fastforce simp: audited_def ticket_exist_def dm_contains_def list_all_iff dest!: map_of_SomeD)
  then have out: "outstanding ?tm = outstanding (ticket_manager st) + q_size ctx"
    by (rule outstanding_insert [OF tm])
  have "list_all (\<lambda>(i, t). 0 \<le> ticket_size t \<and> i \<le> ?id) (ticket_store ?tm)"
    using assms(1,2) set_dm_insert [of ?id _ "ticket_store (ticket_manager st)"]
    by (fastforce simp: audited_def list_all_iff ticket_insert_def Let_def)
  then show ?thesis
    using assms(1,2) out tickets_inv_insert [OF tm] budget.reserve_invar [OF b assms(2)]
    by (auto simp: memory_require_buffer_def require_allocated_eq [OF b assms(2)] id audited_def)
qed

lemma audited_release:
  assumes "audited (st, l)" and "memory_release_ticket tid st = (st', Ok sz)"
  shows "audited (st', l\<lparr>pending := pending l + sz\<rparr>)"
proof -
  have tm: "tickets_inv (ticket_manager st)" using assms(1) by (simp add: audited_def)
  have st': "st' = st\<lparr>ticket_manager := fst (ticket_delete tid (ticket_manager st))\<rparr>"
    and r: "snd (ticket_delete tid (ticket_manager st)) = Ok sz"
    using assms(2) by (auto simp: memory_release_ticket_def case_prod_unfold Let_def)
  have "list_all (\<lambda>(i, t). 0 \<le> ticket_size t \<and> i \<le> allocation_inc_counter (budget st))
      (ticket_store (fst (ticket_delete tid (ticket_manager st)))) \<and> 0 \<le> sz"
    using assms(1) r
    by (fastforce simp: audited_def ticket_delete_def dm_remove_filter list_all_iff
        split: option.splits dest!: map_of_SomeD)
  then show ?thesis
    using assms(1) tickets_inv_delete [OF tm] outstanding_delete [OF tm r]
    by (auto simp: audited_def st')
qed

lemma memory_insert_eq:
  assumes "honest ctx"
  shows "fst (memory_insert ctx st) = st\<lparr>state := dm_insert (w_uid ctx) (append_blocks (w_data_blocks ctx) (lens (w_data_blocks ctx))
    (case dm_get (state st) (w_uid ctx) of Some b \<Rightarrow> b | None \<Rightarrow> new_buffer)) (state st)\<rparr>"
proof -
  have "dm_insert u b (dm_insert u c m) = dm_insert u b m" for u :: PartitionedUId and b c :: BufferInternal and m
    by (induction m) auto
  then show ?thesis
    using assms by (simp add: memory_insert_def get_or_create_buffer_def put_buffer_def honest_def split: option.split)
qed

lemma audited_insert:
  assumes "audited (st, l)" and "honest ctx" and "held (w_uid ctx) st + w_data_size ctx < 2 ^ 63"
  shows "audited (fst (memory_insert ctx st), l\<lparr>unsettled := unsettled l + w_data_size ctx\<rparr>)"
proof -
  let ?uid = "w_uid ctx" and ?bs = "w_data_blocks ctx"
  define b where "b = (case dm_get (state st) ?uid of Some b \<Rightarrow> b | None \<Rightarrow> new_buffer)"
  let ?b = "append_blocks ?bs (lens ?bs) b"
  have ok: "dm_ok (state st)" using assms(1) by (simp add: audited_def)
  have b: "buffer_inv b" "total_size b = held ?uid st"
    using assms(1) buffer_inv_new
    by (auto simp: b_def held_def audited_def list_all_iff new_buffer_def split: option.split dest!: map_of_SomeD)
  have eq: "fst (memory_insert ctx st) = st\<lparr>state := dm_insert ?uid ?b (state st)\<rparr>"
    by (simp add: memory_insert_eq [OF assms(2)] b_def)
  have nn: "0 \<le> lens ?bs" using assms(2) by (auto simp: honest_def intro: lens_nonneg)
  have app: "buffer_inv ?b" "total_size ?b = held ?uid st + lens ?bs"
    using append_blocks_inv [OF b(1), of ?bs] assms(2,3) b(2) by (auto simp: honest_def)
  have "weight total_size (dm_insert ?uid ?b (state st)) = weight total_size (state st) + lens ?bs"
    using app(2) by (simp add: dm.weight_put [OF ok] held_def split: option.split)
  moreover have "list_all (\<lambda>(u, b). buffer_inv b) (dm_insert ?uid ?b (state st))"
    using assms(1) app(1) set_dm_insert [of ?uid ?b "state st"] by (fastforce simp: audited_def list_all_iff)
  ultimately show ?thesis
    unfolding eq using assms(1,2) ok nn by (auto simp: audited_def honest_def)
qed

lemma audited_spill:
  assumes "audited (st, l)" and "get_buffer uid st = Ok b" and "flight_counter b < 2 ^ 64 - 1"
  shows "audited (put_buffer uid (fst (spill b)) st, l)"
proof -
  have get: "dm_get (state st) uid = Some b"
    using assms(2) by (simp add: get_buffer_def split: option.splits)
  then have "buffer_inv b" using assms(1) by (auto simp: audited_def list_all_iff dest!: map_of_SomeD)
  from spill_inv [OF this assms(3)] show ?thesis
    by (intro audited_bufferI [OF assms(1) get])
qed

lemma audited_flushed:
  assumes "audited (st, l)" and "get_buffer uid st = Ok b" and "dm_get (flight b) fid = Some bb"
  shows "audited (fst (clear_spilled_buffer uid fid (lens (concat bb)) st),
    l\<lparr>leaked := leaked l + max 0 (lens (concat bb) - used (budget st))\<rparr>)"
proof -
  let ?n = "lens (concat bb)"
  have get: "dm_get (state st) uid = Some b"
    using assms(2) by (simp add: get_buffer_def split: option.splits)
  then have b: "buffer_inv b" and ok: "dm_ok (state st)"
    using assms(1) by (auto simp: audited_def list_all_iff dest!: map_of_SomeD)
  have n: "0 \<le> ?n" using flight_nonneg [OF b] assms(3) by (meson map_of_SomeD)
  have c: "buffer_inv (clear fid ?n b)" "total_size (clear fid ?n b) = total_size b - ?n"
    using clear_inv [OF b assms(3)] by auto
  then have "?n < 2 ^ 63"
    using buffer_inv_sizes(4) [OF c(1)] b by (simp add: buffer_inv_def)
  then have "i64 ?n = ?n" using n by (intro i64_id) auto
  then have eq: "fst (clear_spilled_buffer uid fid ?n st) =
      memory_dec_used ?n (st\<lparr>state := dm_insert uid (clear fid ?n b) (state st)\<rparr>)"
    by (simp add: clear_spilled_buffer_def assms(2) put_buffer_def)
  show ?thesis
    unfolding eq
  proof (rule audited_dec_used [OF assms(1) n])
    show "weight total_size (dm_insert uid (clear fid ?n b) (state st)) = weight total_size (state st) - ?n"
      by (simp add: dm.weight_put [OF ok] get c(2))
    show "list_all (\<lambda>(u, b). buffer_inv b) (dm_insert uid (clear fid ?n b) (state st))"
      using assms(1) c(1) set_dm_insert [of uid "clear fid ?n b" "state st"]
      by (fastforce simp: audited_def list_all_iff)
  qed (simp add: ok)
qed

lemma weight_filter: "weight f m = weight f (filter P m) + weight f (filter (\<lambda>e. \<not> P e) m)"
  by (induction m) auto

lemma memory_purge_eq:
  assumes "dm_ok (state st)"
  shows "memory_purge (state st) ctx st =
    (let freed = i64 (weight total_size (filter (\<lambda>e. purge_matches ctx (fst e)) (state st)))
     in (memory_dec_used freed (st\<lparr>state := filter (\<lambda>e. \<not> purge_matches ctx (fst e)) (state st)\<rparr>), Ok freed))"
  by (simp add: memory_purge_def dm_drain_filter [OF assms] Let_def)

lemma audited_purge:
  assumes "audited (st, l)" and "memory_purge (state st) ctx st = (st', Ok sz)"
    and "weight total_size (state st) < 2 ^ 63"
  shows "audited (st', l\<lparr>leaked := leaked l + max 0 (sz - used (budget st))\<rparr>)"
proof -
  let ?P = "\<lambda>e :: PartitionedUId \<times> BufferInternal. purge_matches ctx (fst e)"
  let ?w = "weight total_size (filter ?P (state st))"
  have ok: "dm_ok (state st)" using assms(1) by (simp add: audited_def)
  have nn: "0 \<le> weight total_size (filter Q (state st))" for Q
    using assms(1) by (auto simp: audited_def list_all_iff intro!: weight_nonneg buffer_inv_sizes(4))
  have "i64 ?w = ?w"
    using nn [of ?P] nn [of "\<lambda>e. \<not> ?P e"] assms(3) weight_filter [of total_size "state st" ?P]
    by (intro i64_id) auto
  with assms(2) have sz: "sz = ?w"
    and st': "st' = memory_dec_used ?w (st\<lparr>state := filter (\<lambda>e. \<not> ?P e) (state st)\<rparr>)"
    by (auto simp: memory_purge_eq [OF ok] Let_def)
  show ?thesis
    unfolding sz st'
    using assms(1) nn [of ?P] weight_filter [of total_size "state st" ?P] ok
    by (intro audited_dec_used [OF assms(1)]) (auto simp: audited_def list_all_iff dm_ok_def distinct_map_filter)
qed

lemma audited_ticket_round:
  assumes "audited (st, l)"
  shows "audited (memory_ticket_round view now st, l)"
proof -
  let ?tm = "ticket_manager st" and ?r = "ticket_check_round view now (ticket_manager st)"
  have b: "budget_inv (budget st)" and tm: "tickets_inv ?tm" using assms by (auto simp: audited_def)
  obtain P where P: "ticket_store (fst ?r) = filter P (ticket_store ?tm)"
    by (auto simp: ticket_check_round_def Let_def case_prod_unfold dm_drain_map)
  have nn: "0 \<le> weight ticket_size (filter Q (ticket_store ?tm))" for Q
    using assms by (auto simp: audited_def list_all_iff intro!: weight_nonneg)
  have gone: "outstanding ?tm - outstanding (fst ?r) = weight ticket_size (filter (\<lambda>e. \<not> P e) (ticket_store ?tm))"
    using weight_filter [of ticket_size "ticket_store ?tm" P] by (simp add: outstanding_def P)
  have "allocated (budget st) < 2 ^ 63" using b by (simp add: budget_inv_def)
  then have lt: "outstanding ?tm < 2 ^ 63" using assms by (simp add: audited_def)
  have le: "0 \<le> outstanding (fst ?r)" using nn [of P] by (simp add: outstanding_def P)
  define freed where "freed = (case snd ?r of None \<Rightarrow> 0 | Some x \<Rightarrow> x)"
  have "is_i64 (outstanding ?tm - outstanding (fst ?r))"
    using gone nn [of "\<lambda>e. \<not> P e"] lt le by (simp add: is_i64_def)
  then have out: "outstanding (fst ?r) = outstanding ?tm - freed"
    unfolding freed_def by (rule ticket_check_sum [OF tm])
  have fr: "0 \<le> freed" "freed \<le> allocated (budget st)"
    using out gone nn [of "\<lambda>e. \<not> P e"] le assms by (auto simp: audited_def)
  have base: "audited (st\<lparr>ticket_manager := fst ?r\<rparr>, l\<lparr>pending := pending l + freed\<rparr>)"
    using assms tickets_inv_check [OF tm] out fr by (auto simp: audited_def list_all_iff P)
  have "memory_ticket_round view now st =
      (case snd ?r of Some sz \<Rightarrow> memory_dec_allocated sz (st\<lparr>ticket_manager := fst ?r\<rparr>)
       | None \<Rightarrow> st\<lparr>ticket_manager := fst ?r\<rparr>)"
    using assms
    by (auto simp: memory_ticket_round_def release_allocated_def case_prod_unfold Let_def audited_def split: option.split)
  then show ?thesis
    using base audited_unused [OF base fr(1)] assms by (auto simp: freed_def audited_def split: option.splits)
qed

lemma mem_step_audited: "mem_step s s' \<Longrightarrow> audited s \<Longrightarrow> audited s'"
  by (induction rule: mem_step.induct)
    (simp_all add: audited_require audited_release audited_insert audited_settle audited_unused
      audited_spill audited_flushed audited_purge audited_ticket_round)

lemma audited_new: "0 \<le> cap \<Longrightarrow> cap < 2 ^ 63 \<Longrightarrow> audited (new_memory_store cap, closed_books)"
  by (simp add: audited_def new_memory_store_def closed_books_def budget_inv_new tickets_inv_new)
    (simp add: new_budget_def new_ticket_manager_def outstanding_def)

lemma reachable_audited:
  assumes "mem_step\<^sup>*\<^sup>* (new_memory_store cap, closed_books) s" and "0 \<le> cap" and "cap < 2 ^ 63"
  shows "audited s"
  using assms(1) audited_new [OF assms(2,3)]
  by (induction rule: rtranclp_induct) (auto intro: mem_step_audited)

lemma mem_step_capacity: "mem_step s s' \<Longrightarrow> capacity (budget (fst s')) = capacity (budget (fst s))"
  by (induction rule: mem_step.induct)
    (auto simp: memory_require_buffer_def memory_release_ticket_def memory_insert_def
      memory_move_allocated_to_used_def memory_dec_allocated_def memory_dec_used_def put_buffer_def
      clear_spilled_buffer_def memory_purge_def memory_ticket_round_def release_allocated_def
      get_or_create_buffer_def budget_defs case_prod_unfold
      split: option.splits outcome.splits if_splits)

lemma reachable_capacity:
  "mem_step\<^sup>*\<^sup>* s s' \<Longrightarrow> capacity (budget (fst s')) = capacity (budget (fst s))"
  by (induction rule: rtranclp_induct) (auto simp: mem_step_capacity)

section \<open>Properties\<close>


definition one_write :: "MemoryStore \<times> Ledger" where
  "one_write =
     (let st1 = fst (memory_require_buffer 0 \<lparr>q_uid = uid_of ''a'' 0 0, q_size = 8\<rparr> (new_memory_store 100));
          st2 = fst (memory_release_ticket 1 st1);
          st3 = fst (memory_insert (new_writing_ctx (uid_of ''a'' 0 0) [sample_block 1 5]) st2)
      in (st3, \<lparr>pending = 8, unsettled = 5, leaked = 0\<rparr>))"

lemmas write_simps =
  memory_require_buffer_def require_allocated_def new_memory_store_def new_budget_def
  ticket_insert_def new_ticket_manager_def memory_release_ticket_def ticket_delete_def
  memory_insert_def get_or_create_buffer_def put_buffer_def append_blocks_def new_buffer_def
  new_writing_ctx_def blocks_size_def sum_i32_def sample_block_def i64_id i32_id u64_id Let_def

lemma one_write_reachable: "mem_step\<^sup>*\<^sup>* (new_memory_store 100, closed_books) one_write"
proof -
  let ?st1 = "fst (memory_require_buffer 0 \<lparr>q_uid = uid_of ''a'' 0 0, q_size = 8\<rparr> (new_memory_store 100))"
  let ?st2 = "fst (memory_release_ticket 1 ?st1)"
  let ?ctx = "new_writing_ctx (uid_of ''a'' 0 0) [sample_block 1 5]"
  have 1: "mem_step (new_memory_store 100, closed_books) (?st1, closed_books)"
    by (rule mem_step.Require) (simp_all add: new_memory_store_def new_budget_def)
  have "memory_release_ticket 1 ?st1 = (?st2, Ok 8)"
    by (simp add: write_simps)
  then have 2: "mem_step (?st1, closed_books) (?st2, closed_books\<lparr>pending := pending closed_books + 8\<rparr>)"
    by (rule mem_step.Release)
  have 3: "mem_step (?st2, closed_books\<lparr>pending := pending closed_books + 8\<rparr>) one_write"
    using mem_step.Insert [of ?ctx ?st2 "closed_books\<lparr>pending := pending closed_books + 8\<rparr>"]
    by (simp add: one_write_def closed_books_def honest_def held_def write_simps)
  show ?thesis
    using 1 2 3 by (meson converse_rtranclp_into_rtranclp rtranclp.rtrancl_refl)
qed


text \<open>
  C30. Flushing a buffer before its write is settled loses memory for good: the clamp at zero
  swallows the release, the later move to the used side adds it back, and the store ends up
  with closed books, no data and no tickets, but with memory that counts as used.
\<close>

theorem early_flush_leaks:
  "\<exists>st l. mem_step\<^sup>*\<^sup>* (new_memory_store 100, closed_books) (st, l) \<and> pending l = 0 \<and> unsettled l = 0 \<and>
     weight total_size (state st) = 0 \<and> ticket_store (ticket_manager st) = [] \<and> used (budget st) = 5"
proof -
  let ?uid = "uid_of ''a'' 0 0"
  let ?st = "fst one_write" and ?l = "snd one_write"
  define b where "b = (case get_buffer ?uid ?st of Ok b \<Rightarrow> b | _ \<Rightarrow> new_buffer)"
  have b: "get_buffer ?uid ?st = Ok b" "b = direct_push [sample_block 1 5] new_buffer"
    by (simp_all add: b_def one_write_def get_buffer_def direct_push_def uid_of_def write_simps)
  let ?s4 = "put_buffer ?uid (fst (spill b)) ?st"
  let ?b' = "fst (spill b)"
  let ?s5 = "fst (clear_spilled_buffer ?uid 0 5 ?s4)"
  let ?l5 = "?l\<lparr>leaked := leaked ?l + 5\<rparr>"
  let ?s6 = "memory_move_allocated_to_used 5 ?s5"
  let ?l6 = "?l5\<lparr>pending := pending ?l5 - 5, unsettled := unsettled ?l5 - 5\<rparr>"
  let ?s7 = "memory_dec_allocated 3 ?s6"
  let ?l7 = "?l6\<lparr>pending := pending ?l6 - 3\<rparr>"
  have "mem_step (?st, ?l) (?s4, ?l)"
    using b by (intro mem_step.Spill) (simp_all add: direct_push_def write_simps)
  moreover have "mem_step (?s4, ?l) (?s5, ?l5)"
    using mem_step.Flushed [of ?uid ?s4 ?b' 0 "[[sample_block 1 5]]" ?l] b
    by (simp add: get_buffer_def put_buffer_def dm_simps spill_def direct_push_def one_write_def write_simps)
  moreover have "mem_step (?s5, ?l5) (?s6, ?l6)"
    by (rule mem_step.Settle) (simp_all add: one_write_def)
  moreover have "mem_step (?s6, ?l6) (?s7, ?l7)"
    by (rule mem_step.Unused) (simp_all add: one_write_def)
  moreover have "mem_step\<^sup>*\<^sup>* (new_memory_store 100, closed_books) (?st, ?l)"
    using one_write_reachable by simp
  ultimately have "mem_step\<^sup>*\<^sup>* (new_memory_store 100, closed_books) (?s7, ?l7)"
    by (meson rtranclp.rtrancl_into_rtrancl)
  moreover have "pending ?l7 = 0 \<and> unsettled ?l7 = 0" by (simp add: one_write_def)
  moreover have "weight total_size (state ?s7) = 0 \<and> ticket_store (ticket_manager ?s7) = [] \<and> used (budget ?s7) = 5"
    by (simp add: b(2) one_write_def clear_spilled_buffer_def get_buffer_def memory_dec_used_def dec_used_def
        memory_move_allocated_to_used_def move_allocated_to_used_def memory_dec_allocated_def dec_allocated_def
        direct_push_def spill_def clear_def dm_simps uid_of_def write_simps)
  ultimately show ?thesis by blast
qed

end
