(* ===== verification/Local_Disk.thy ===== *)
theory Local_Disk
  imports Shuffle_Format Text Floats
begin

text \<open>
  One local disk: the file operations of \<^verbatim>\<open>store/local/sync_io.rs\<close> and the health checks of
  \<^verbatim>\<open>store/local/delegator.rs\<close>, which forwards the operations and adds only metrics.

  A disk owns the tree below its root directory; the roots of different disks are different
  directories, none inside another, so paths are relative to the root.  The standard library's
  file system calls are modelled on a map from paths to nodes.  They can fail: a disk carries a
  schedule of the outcomes of its next calls, and a call with no outcome scheduled succeeds.  A
  failing append may have written a prefix, a failing removal may have removed some files, and
  a read may return fewer bytes than asked for.
\<close>

section \<open>Files\<close>

datatype node = Dir | File bytes

type_synonym tree = "(path, node) dmap"

definition fs_get :: "tree \<Rightarrow> path \<Rightarrow> node option" where
  "fs_get t p = (if p = [] then Some Dir else dm_get t p)"

fun mkdirs :: "path \<Rightarrow> path \<Rightarrow> tree \<Rightarrow> tree \<times> bool" where
  "mkdirs pre [] t = (t, True)"
| "mkdirs pre (c # cs) t =
     (case fs_get t (pre @ [c]) of
        Some Dir \<Rightarrow> mkdirs (pre @ [c]) cs t
      | Some (File _) \<Rightarrow> (t, False)
      | None \<Rightarrow> mkdirs (pre @ [c]) cs (dm_insert (pre @ [c]) Dir t))"

definition fs_create_dir_all :: "path \<Rightarrow> tree \<Rightarrow> tree \<times> bool" where
  "fs_create_dir_all p t = mkdirs [] p t"

text \<open>Opening for append with \<open>create(true)\<close>: the parent must exist and the path be no directory.\<close>

definition fs_append :: "path \<Rightarrow> bytes \<Rightarrow> tree \<Rightarrow> tree \<times> bool" where
  "fs_append p b t =
     (if p = [] \<or> fs_get t (butlast p) \<noteq> Some Dir then (t, False)
      else case fs_get t p of
             Some Dir \<Rightarrow> (t, False)
           | Some (File old) \<Rightarrow> (dm_insert p (File (old @ b)) t, True)
           | None \<Rightarrow> (dm_insert p (File b) t, True))"

definition fs_write :: "path \<Rightarrow> bytes \<Rightarrow> tree \<Rightarrow> tree \<times> bool" where
  "fs_write p b t =
     (if p = [] \<or> fs_get t (butlast p) \<noteq> Some Dir \<or> fs_get t p = Some Dir then (t, False)
      else (dm_insert p (File b) t, True))"

definition below :: "path \<Rightarrow> path \<Rightarrow> bool" where
  "below p q \<longleftrightarrow> take (length p) q = p"

definition fs_remove_dir_all :: "path \<Rightarrow> tree \<Rightarrow> tree" where
  "fs_remove_dir_all p t = filter (\<lambda>(q, _). \<not> below p q) t"

section \<open>State\<close>

datatype io_event = Io_ok | Io_err nat | Io_short nat

record Disk =
  root :: string
  files :: tree
  is_healthy :: bool
  is_corrupted :: bool
  high_watermark :: flt
  low_watermark :: flt
  schedule :: "io_event list"

definition new_disk :: "string \<Rightarrow> flt \<Rightarrow> flt \<Rightarrow> Disk" where
  "new_disk r high low = \<lparr>root = r, files = [], is_healthy = True, is_corrupted = False,
     high_watermark = high, low_watermark = low, schedule = []\<rparr>"

definition next_io :: "Disk \<Rightarrow> Disk \<times> io_event" where
  "next_io d = (case schedule d of [] \<Rightarrow> (d, Io_ok) | e # es \<Rightarrow> (d\<lparr>schedule := es\<rparr>, e))"

section \<open>Operations\<close>

type_synonym 'a disk_result = "Disk \<times> ('a, anyhow) outcome"

definition io_create_dir :: "string \<Rightarrow> Disk \<Rightarrow> unit disk_result" where
  "io_create_dir dir d =
     (let (d, e) = next_io d
      in case e of
           Io_err _ \<Rightarrow> (d, Err Any_io)
         | _ \<Rightarrow> let (t, good) = fs_create_dir_all (comps dir) (files d)
                in (d\<lparr>files := t\<rparr>, if good then Ok () else Err Any_io))"

definition io_append :: "string \<Rightarrow> BytesWrapper \<Rightarrow> Disk \<Rightarrow> unit disk_result" where
  "io_append pth w d =
     (let (d, e) = next_io d; b = wrapper_freeze w
      in case e of
           Io_err n \<Rightarrow> (d\<lparr>files := fst (fs_append (comps pth) (take n b) (files d))\<rparr>, Err Any_io)
         | _ \<Rightarrow> let (t, good) = fs_append (comps pth) b (files d)
                in (d\<lparr>files := t\<rparr>, if good then Ok () else Err Any_io))"

text \<open>
  \<open>read(path, offset, length)\<close>.  A length above \<open>isize::MAX\<close> makes the allocation panic inside the
  blocking task, which the caller sees as an error; an offset above \<open>i64::MAX\<close> makes the seek
  fail; one call of \<open>read\<close> fills the buffer as far as the file and the system let it.
\<close>

definition io_read :: "string \<Rightarrow> int \<Rightarrow> int option \<Rightarrow> Disk \<Rightarrow> bytes disk_result" where
  "io_read pth offset len d =
     (let (d, e) = next_io d
      in case (e, fs_get (files d) (comps pth)) of
           (Io_err _, _) \<Rightarrow> (d, Err Any_io)
         | (_, Some (File b)) \<Rightarrow>
             (case len of
                None \<Rightarrow> (d, Ok b)
              | Some l \<Rightarrow>
                  if u64 l \<ge> 2 ^ 63 then (d, Err (Any_message ''capacity overflow''))
                  else if u64 offset \<ge> 2 ^ 63 then (d, Err Any_io)
                  else let avail = slice (u64 offset) (u64 l) b;
                           got = (case e of Io_short n \<Rightarrow> take (max 1 n) avail | _ \<Rightarrow> avail)
                       in if int (length got) \<noteq> u64 l then (d, Err (Any_message ''Not expected bytes reading''))
                          else (d, Ok got))
         | _ \<Rightarrow> (d, Err Any_io))"

definition io_delete :: "string \<Rightarrow> Disk \<Rightarrow> unit disk_result" where
  "io_delete pth d =
     (let (d, e) = next_io d; p = comps pth
      in case fs_get (files d) p of
           Some Dir \<Rightarrow>
             (case e of
                Io_err n \<Rightarrow>
                  let gone = take n (filter (\<lambda>(q, x). below p q \<and> x \<noteq> Dir) (files d))
                  in (d\<lparr>files := filter (\<lambda>x. x \<notin> set gone) (files d)\<rparr>, Err Any_io)
              | _ \<Rightarrow> (d\<lparr>files := fs_remove_dir_all p (files d)\<rparr>, Ok ()))
         | Some (File _) \<Rightarrow>
             (case e of
                Io_err _ \<Rightarrow> (d, Err Any_io)
              | _ \<Rightarrow> (d\<lparr>files := dm_remove p (files d)\<rparr>, Ok ()))
         | None \<Rightarrow> (d, Ok ()))"

definition io_write :: "string \<Rightarrow> bytes \<Rightarrow> Disk \<Rightarrow> unit disk_result" where
  "io_write pth b d =
     (let (d, e) = next_io d
      in case e of
           Io_err n \<Rightarrow> (d\<lparr>files := fst (fs_write (comps pth) (take n b) (files d))\<rparr>, Err Any_io)
         | _ \<Rightarrow> let (t, good) = fs_write (comps pth) b (files d)
                in (d\<lparr>files := t\<rparr>, if good then Ok () else Err Any_io))"

definition io_file_stat :: "string \<Rightarrow> Disk \<Rightarrow> int disk_result" where
  "io_file_stat pth d =
     (let (d, e) = next_io d
      in case (e, fs_get (files d) (comps pth)) of
           (Io_err _, _) \<Rightarrow> (d, Err Any_io)
         | (_, Some (File b)) \<Rightarrow> (d, Ok (int (length b)))
         | (_, Some Dir) \<Rightarrow> (d, Ok 0)
         | (_, None) \<Rightarrow> (d, Err Any_io))"

definition mark_healthy :: "Disk \<Rightarrow> Disk" where
  "mark_healthy d = d\<lparr>is_healthy := True\<rparr>"

definition mark_unhealthy :: "Disk \<Rightarrow> Disk" where
  "mark_unhealthy d = d\<lparr>is_healthy := False\<rparr>"

definition mark_corrupted :: "Disk \<Rightarrow> Disk" where
  "mark_corrupted d = d\<lparr>is_corrupted := True\<rparr>"

section \<open>Health checks\<close>

text \<open>
  The total and the free space come from the \<open>fs2\<close> crate: they are arguments.  The integer
  division for the gauge panics on a total of zero.
\<close>

definition used_ratio :: "int \<Rightarrow> int \<Rightarrow> flt" where
  "used_ratio cap avail =
     flt_div f64_bits (flt_of_int f64_bits (u64 (cap - avail))) (flt_of_int f64_bits cap)"

definition capacity_check ::
    "(int, anyhow) outcome \<Rightarrow> (int, anyhow) outcome \<Rightarrow> Disk \<Rightarrow> unit disk_result" where
  "capacity_check total_space available_space d =
     (case total_space of
        Ok cap \<Rightarrow>
          (case available_space of
             Ok avail \<Rightarrow>
               if cap = 0 then (d, Panic)
               else
                 let ratio = used_ratio cap avail;
                     healthy_stat = is_healthy d;
                     d1 = (if healthy_stat \<and> flt_less (high_watermark d) ratio then mark_unhealthy d else d);
                     d2 = (if \<not> healthy_stat \<and> flt_less ratio (low_watermark d) then mark_healthy d1 else d1)
                 in (d2, Ok ())
           | Err e \<Rightarrow> (d, Err e)
           | Panic \<Rightarrow> (d, Panic))
      | Err e \<Rightarrow> (d, Err e)
      | Panic \<Rightarrow> (d, Panic))"

definition check_file :: string where
  "check_file = ''corruption_check.file''"

definition check_bytes :: bytes where
  "check_bytes = map (\<lambda>c. of_nat (of_char c)) ''hello world''"

definition write_read_check :: "Disk \<Rightarrow> unit disk_result" where
  "write_read_check d =
     (case io_delete check_file d of
        (d, Ok _) \<Rightarrow>
          (case io_write check_file check_bytes d of
             (d, Ok _) \<Rightarrow>
               (case io_read check_file 0 None d of
                  (d, Ok read_data) \<Rightarrow>
                    (if check_bytes \<noteq> read_data then (mark_corrupted d, Ok ()) else (d, Ok ()))
                | (d, Err e) \<Rightarrow> (d, Err e)
                | (d, Panic) \<Rightarrow> (d, Panic))
           | (d, Err e) \<Rightarrow> (d, Err e)
           | (d, Panic) \<Rightarrow> (d, Panic))
      | (d, Err e) \<Rightarrow> (d, Err e)
      | (d, Panic) \<Rightarrow> (d, Panic))"

text \<open>One turn of the loop in \<open>schedule_check\<close>, after the sleep.\<close>

definition check_round ::
    "(int, anyhow) outcome \<Rightarrow> (int, anyhow) outcome \<Rightarrow> Disk \<Rightarrow> unit disk_result" where
  "check_round total_space available_space d =
     (if is_corrupted d then (d, Ok ())
      else case capacity_check total_space available_space d of
             (d, Panic) \<Rightarrow> (d, Panic)
           | (d, _) \<Rightarrow>
               (case write_read_check d of
                  (d, Ok _) \<Rightarrow> (d, Ok ())
                | (d, Err _) \<Rightarrow> (mark_corrupted d, Ok ())
                | (d, Panic) \<Rightarrow> (d, Panic)))"

section \<open>Lemmas on the tree\<close>

lemma fs_get_insert: "p \<noteq> [] \<Longrightarrow> fs_get (dm_insert p x t) q = (if q = p then Some x else fs_get t q)"
  by (simp add: fs_get_def dm_simps)

lemma below_refl [simp]: "below p p"
  by (simp add: below_def)

lemma map_of_filter_fst:
  "map_of (filter (\<lambda>(k, v). P k) m) k = (if P k then map_of m k else None)"
  by (induction m) auto

lemma fs_get_remove_dir_all:
  "p \<noteq> [] \<Longrightarrow> fs_get (fs_remove_dir_all p t) q = (if below p q then None else fs_get t q)"
  by (auto simp: fs_get_def fs_remove_dir_all_def map_of_filter_fst below_def)

lemma fs_get_remove:
  "p \<noteq> [] \<Longrightarrow> fs_get (dm_remove p t) q = (if q = p then None else fs_get t q)"
  by (simp add: fs_get_def dm_simps)

lemma next_io_quiet [simp]: "schedule d = [] \<Longrightarrow> next_io d = (d, Io_ok)"
  by (simp add: next_io_def)

text \<open>The directory calls on a tree that has no files above the leaves in question.\<close>

lemma mkdirs_ok:
  assumes "\<And>k. k \<le> length cs \<Longrightarrow> fs_get t (pre @ take k cs) \<in> {None, Some Dir}"
    and "fs_get t pre = Some Dir"
  shows "snd (mkdirs pre cs t) \<and> fs_get (fst (mkdirs pre cs t)) (pre @ cs) = Some Dir \<and>
    (\<forall>q. (\<forall>k. 0 < k \<and> k \<le> length cs \<longrightarrow> q \<noteq> pre @ take k cs) \<longrightarrow>
       fs_get (fst (mkdirs pre cs t)) q = fs_get t q)"
  using assms
proof (induction pre cs t rule: mkdirs.induct)
  case (1 pre t)
  then show ?case by simp
next
  case (2 pre c cs t)
  let ?p = "pre @ [c]"
  have step: "fs_get t (?p @ take k cs) \<in> {None, Some Dir}" if "k \<le> length cs" for k
    using 2(3) [of "Suc k"] that by simp
  have frame: "q \<noteq> ?p \<and> (\<forall>k. 0 < k \<and> k \<le> length cs \<longrightarrow> q \<noteq> ?p @ take k cs)"
    if "\<forall>k. 0 < k \<and> k \<le> length (c # cs) \<longrightarrow> q \<noteq> pre @ take k (c # cs)" for q
    using that by (metis (no_types, lifting) Suc_le_mono append.assoc append_Cons append_Nil length_Cons
        less_Suc_eq_0_disj take0 take_Suc_Cons zero_less_Suc le0)
  show ?case
  proof (cases "fs_get t ?p")
    case None
    let ?t = "dm_insert ?p Dir t"
    have "fs_get ?t (?p @ take k cs) \<in> {None, Some Dir}" if "k \<le> length cs" for k
      using step [OF that] by (simp add: fs_get_insert)
    then have "snd (mkdirs ?p cs ?t) \<and> fs_get (fst (mkdirs ?p cs ?t)) (?p @ cs) = Some Dir \<and>
        (\<forall>q. (\<forall>k. 0 < k \<and> k \<le> length cs \<longrightarrow> q \<noteq> ?p @ take k cs) \<longrightarrow>
          fs_get (fst (mkdirs ?p cs ?t)) q = fs_get ?t q)"
      by (intro 2(1) None) (simp_all add: fs_get_insert)
    then show ?thesis using None frame by (auto simp: fs_get_insert)
  next
    case (Some x)
    then have x: "fs_get t ?p = Some Dir" using step [of 0] by auto
    then have "snd (mkdirs ?p cs t) \<and> fs_get (fst (mkdirs ?p cs t)) (?p @ cs) = Some Dir \<and>
        (\<forall>q. (\<forall>k. 0 < k \<and> k \<le> length cs \<longrightarrow> q \<noteq> ?p @ take k cs) \<longrightarrow>
          fs_get (fst (mkdirs ?p cs t)) q = fs_get t q)"
      using step by (intro 2(2) [OF x refl]) auto
    then show ?thesis using x frame by auto
  qed
qed

lemma io_append_quiet:
  assumes "schedule d = []" and "comps pth \<noteq> []" and "fs_get (files d) (butlast (comps pth)) = Some Dir"
    and "fs_get (files d) (comps pth) = (if old = [] then x else Some (File old))" and "x \<in> {None, Some (File [])}"
  shows "io_append pth w d =
    (d\<lparr>files := dm_insert (comps pth) (File (old @ wrapper_freeze w)) (files d)\<rparr>, Ok ())"
  using assms by (auto simp: io_append_def fs_append_def split: if_splits)

lemma io_read_quiet:
  assumes "schedule d = []" and "fs_get (files d) (comps pth) = Some (File b)"
    and "0 \<le> off" and "0 \<le> l" and "off + l \<le> int (length b)" and "off + l < 2 ^ 63"
  shows "io_read pth off (Some l) d = (d, Ok (slice off l b))"
proof -
  have "int (length (slice off l b)) = l"
    using assms(3-5) by (simp add: slice_def min_def) linarith
  moreover have "u64 off = off" "u64 l = l" using assms(3-6) by (auto intro!: u64_id)
  ultimately show ?thesis using assms by (simp add: io_read_def)
qed

lemma io_read_all_quiet:
  assumes "schedule d = []" and "fs_get (files d) (comps pth) = Some (File b)"
  shows "io_read pth off None d = (d, Ok b)"
  using assms by (simp add: io_read_def)

lemma comps_check_file [simp]: "comps check_file = [check_file]"
  by (intro comps_plain) (simp add: plain_name_def check_file_def)

lemma delete_check_file:
  assumes "schedule d = [] \<or> (\<exists>e es. schedule d = e # es \<and> (\<forall>n. e \<noteq> Io_err n))"
  shows "\<exists>t. io_delete check_file d = (d\<lparr>schedule := tl (schedule d), files := t\<rparr>, Ok ()) \<and>
    fs_get t [check_file] = None"
proof -
  obtain e where e: "next_io d = (d\<lparr>schedule := tl (schedule d)\<rparr>, e)" "\<forall>n. e \<noteq> Io_err n"
    using assms by (auto simp: next_io_def)
  show ?thesis
  proof (cases "fs_get (files d) [check_file]")
    case None
    then show ?thesis
      using e(1) by (intro exI [of _ "files d"]) (simp add: io_delete_def Let_def)
  next
    case (Some x)
    then show ?thesis
    proof (cases x)
      case Dir
      then show ?thesis
        using e Some by (intro exI [of _ "fs_remove_dir_all [check_file] (files d)"])
          (cases e; simp add: io_delete_def Let_def fs_get_remove_dir_all)
    next
      case (File b)
      then show ?thesis
        using e Some by (intro exI [of _ "dm_remove [check_file] (files d)"])
          (cases e; simp add: io_delete_def Let_def fs_get_remove)
    qed
  qed
qed

section \<open>Properties\<close>

text \<open>
  The capacity check is a hysteresis: a healthy disk becomes unhealthy exactly when its used
  ratio is above the high watermark, an unhealthy one recovers exactly when the ratio is below
  the low watermark, nothing else changes, and with a low watermark not above the high one a
  second check with the same numbers changes nothing.
\<close>

lemma disk_health_hysteresis:
  fixes d :: Disk and avail :: int
  assumes "cap \<noteq> 0"
  defines "d' \<equiv> fst (capacity_check (Ok cap) (Ok avail) d)"
  shows "capacity_check (Ok cap) (Ok avail) d =
      (d\<lparr>is_healthy := (if is_healthy d then \<not> flt_less (high_watermark d) (used_ratio cap avail)
          else flt_less (used_ratio cap avail) (low_watermark d))\<rparr>, Ok ()) \<and>
    (low_watermark d = Fin lo \<and> high_watermark d = Fin hi \<and> lo \<le> hi \<longrightarrow>
      fst (capacity_check (Ok cap) (Ok avail) d') = d')"
  using assms(1) unfolding d'_def
  by (cases "used_ratio cap avail")
    (auto simp: capacity_check_def Let_def mark_healthy_def mark_unhealthy_def)

lemma sample_ratios:
  "flt_less (Fin (4 / 5)) (used_ratio 100 10)" "\<not> flt_less (used_ratio 100 30) (Fin (3 / 5))"
  "flt_less (used_ratio 100 50) (Fin (3 / 5))"
  by code_simp+

lemma disk_health_hysteresis_witness:
  "let d = new_disk ''/data'' (Fin (4 / 5)) (Fin (3 / 5));
       d1 = fst (capacity_check (Ok 100) (Ok 10) d); d2 = fst (capacity_check (Ok 100) (Ok 30) d1);
       d3 = fst (capacity_check (Ok 100) (Ok 50) d2)
   in \<not> is_healthy d1 \<and> \<not> is_healthy d2 \<and> is_healthy d3"
  using disk_health_hysteresis [of 100 10 "new_disk ''/data'' (Fin (4 / 5)) (Fin (3 / 5))"]
    disk_health_hysteresis [of 100 30 "(new_disk ''/data'' (Fin (4 / 5)) (Fin (3 / 5)))\<lparr>is_healthy := False\<rparr>"]
    disk_health_hysteresis [of 100 50 "(new_disk ''/data'' (Fin (4 / 5)) (Fin (3 / 5)))\<lparr>is_healthy := False\<rparr>"]
  by (simp add: sample_ratios new_disk_def)



end
