(* ===== verification/Localfile.thy ===== *)
theory Localfile
  imports Local_Disk Buffer
begin

text \<open>
  The store on local disks: \<^verbatim>\<open>store/localfile.rs\<close>.  A partition lives on one disk, chosen by
  the hash of its id among the usable disks when it is first written; its entry in
  \<open>partition_locks\<close> keeps that disk and the length of the data written so far (\<open>pointer\<close>).
  Entries share the disk objects, so an entry names its disk by its position.

  Operations on one partition run under its lock and are atomic here.  The hash function is an
  argument.  The reads re-insert the entry if it vanished since the presence test; as the test
  and the lookup are one step here, that branch does not occur.
\<close>

section \<open>State\<close>

record LockedObj =
  lock_disk :: nat
  pointer :: int

record LocalFileStore =
  local_disks :: "Disk list"
  min_number_of_available_disks :: int
  partition_locks :: "(string, LockedObj) dmap"

record LocalfileStoreConfig =
  data_paths :: "string list"
  conf_min_available_disks :: int
  disk_high_watermark :: flt
  disk_low_watermark :: flt

record LocalDataIndex =
  index_data :: bytes
  data_file_len :: int

record SpillWritingViewContext =
  spill_uid :: PartitionedUId
  spill_data_blocks :: batch \<comment> \<open>whether the application still exists is asked of the table of applications\<close>

text \<open>
  \<open>LocalFileStore::from\<close> first removes the children of every data directory, so the disks start
  empty, and panics when that fails.
\<close>

definition localfile_from :: "LocalfileStoreConfig \<Rightarrow> (string \<Rightarrow> bool) \<Rightarrow> (LocalFileStore, worker_error) outcome" where
  "localfile_from conf cleanup_ok =
     (if list_all cleanup_ok (data_paths conf)
      then Ok \<lparr>local_disks = map (\<lambda>p. new_disk p (disk_high_watermark conf) (disk_low_watermark conf)) (data_paths conf),
               min_number_of_available_disks = conf_min_available_disks conf, partition_locks = []\<rparr>
      else Panic)"

section \<open>Paths\<close>

definition gen_relative_path_for_app :: "string \<Rightarrow> string" where
  "gen_relative_path_for_app a = a"

definition gen_relative_path_for_shuffle :: "string \<Rightarrow> int \<Rightarrow> string" where
  "gen_relative_path_for_shuffle a s = a @ ''/'' @ show_int s"

definition data_path :: "PartitionedUId \<Rightarrow> string" where
  "data_path uid = app_id uid @ ''/'' @ show_int (shuffle_id uid) @ ''/partition-'' @
     show_int (partition_id uid) @ ''.data''"

definition index_path :: "PartitionedUId \<Rightarrow> string" where
  "index_path uid = app_id uid @ ''/'' @ show_int (shuffle_id uid) @ ''/partition-'' @
     show_int (partition_id uid) @ ''.index''"

definition gen_relative_path_for_partition :: "PartitionedUId \<Rightarrow> string \<times> string" where
  "gen_relative_path_for_partition uid = (data_path uid, index_path uid)"

text \<open>\<open>format!("{}/", Path::new(p).parent())\<close> of a data path.\<close>

definition parent_dir :: "PartitionedUId \<Rightarrow> string" where
  "parent_dir uid = app_id uid @ ''/'' @ show_int (shuffle_id uid) @ ''/''"

section \<open>Operations\<close>

type_synonym 'a lf_result = "LocalFileStore \<times> ('a, worker_error) outcome"

definition usable :: "Disk \<Rightarrow> bool" where
  "usable d \<longleftrightarrow> \<not> is_corrupted d \<and> is_healthy d"

definition healthy_check :: "LocalFileStore \<Rightarrow> bool" where
  "healthy_check st =
     (int (length (filter (\<lambda>d. is_healthy d \<and> \<not> is_corrupted d) (local_disks st)))
        \<ge> min_number_of_available_disks st)"

definition select_disk :: "(PartitionedUId \<Rightarrow> int) \<Rightarrow> PartitionedUId \<Rightarrow> LocalFileStore \<Rightarrow> (nat, worker_error) outcome" where
  "select_disk get_hash uid st =
     (let candidates = filter (\<lambda>i. usable (local_disks st ! i)) [0..<length (local_disks st)];
          len = length candidates
      in if len = 0 then Err NO_AVAILABLE_LOCAL_DISK
         else let index = nat (get_hash uid mod int len)
              in if index < len then Ok (candidates ! index) else Err INTERNAL_ERROR)"

text \<open>Run an operation of the disk an entry names; \<open>?\<close> turns its error into \<open>Other\<close>.\<close>

definition on_disk :: "nat \<Rightarrow> (Disk \<Rightarrow> 'a disk_result) \<Rightarrow> LocalFileStore \<Rightarrow> 'a lf_result" where
  "on_disk i f st =
     (let (d, r) = f (local_disks st ! i)
      in (st\<lparr>local_disks := (local_disks st)[i := d]\<rparr>, from_anyhow r))"

definition write_blocks ::
    "codec \<Rightarrow> PartitionedUId \<Rightarrow> Block list \<Rightarrow> LockedObj \<Rightarrow> bool \<Rightarrow> LocalFileStore \<Rightarrow> unit lf_result" where
  "write_blocks c uid blocks l parent_dir_is_created st =
     (let i = lock_disk l; d = local_disks st ! i; next_offset = pointer l
      in if is_corrupted d then (st, Err (PARTIAL_DATA_LOST (root d)))
         else if \<not> is_healthy d then (st, Err (LOCAL_DISK_UNHEALTHY (root d)))
         else
           run_then (if parent_dir_is_created then (st, Ok ()) else on_disk i (io_create_dir (parent_dir uid)) st)
             (\<lambda>_ st. let fmt = generate_shuffle_file_format c blocks next_offset
                in run_then (on_disk i (io_append (data_path uid) (fmt_data fmt)) st)
                  (\<lambda>_ st. run_then (on_disk i (io_append (index_path uid) (fmt_index fmt)) st)
                    (\<lambda>_ st. (st\<lparr>partition_locks :=
                        dm_insert (data_path uid) (l\<lparr>pointer := fmt_offset fmt\<rparr>) (partition_locks st)\<rparr>, Ok ())))))"

definition data_insert ::
    "codec \<Rightarrow> (PartitionedUId \<Rightarrow> int) \<Rightarrow> PartitionedUId \<Rightarrow> Block list \<Rightarrow> LocalFileStore \<Rightarrow> unit lf_result" where
  "data_insert c get_hash uid blocks st =
     (case dm_get (partition_locks st) (data_path uid) of
        Some l \<Rightarrow> write_blocks c uid blocks l True st
      | None \<Rightarrow>
          (case select_disk get_hash uid st of
             Ok i \<Rightarrow>
               let l = \<lparr>lock_disk = i, pointer = 0\<rparr>
               in write_blocks c uid blocks l False
                    (st\<lparr>partition_locks := dm_insert (data_path uid) l (partition_locks st)\<rparr>)
           | Err e \<Rightarrow> (st, Err e)
           | Panic \<Rightarrow> (st, Panic)))"

definition localfile_insert ::
    "codec \<Rightarrow> (PartitionedUId \<Rightarrow> int) \<Rightarrow> WritingViewContext \<Rightarrow> LocalFileStore \<Rightarrow> unit lf_result" where
  "localfile_insert c get_hash ctx st =
     (if w_data_blocks ctx = [] then (st, Ok ())
      else data_insert c get_hash (w_uid ctx) (w_data_blocks ctx) st)"

text \<open>\<open>sort_by_key\<close> is a stable sort, as \<open>sort_key\<close> is.\<close>

definition localfile_spill_insert ::
    "codec \<Rightarrow> (PartitionedUId \<Rightarrow> int) \<Rightarrow> SpillWritingViewContext \<Rightarrow> LocalFileStore \<Rightarrow> unit lf_result" where
  "localfile_spill_insert c get_hash ctx st =
     data_insert c get_hash (spill_uid ctx) (sort_key task_attempt_id (concat (spill_data_blocks ctx))) st"

definition localfile_get :: "ReadingViewContext \<Rightarrow> LocalFileStore \<Rightarrow> bytes lf_result" where
  "localfile_get ctx st =
     (let uid = r_uid ctx;
          (offset, len) = (case r_reading_options ctx of FILE_OFFSET_AND_LEN offset len \<Rightarrow> (offset, len) | _ \<Rightarrow> (0, 0))
      in if len = 0 then (st, Ok [])
         else case dm_get (partition_locks st) (data_path uid) of
                None \<Rightarrow> (st, Ok [])
              | Some l \<Rightarrow>
                  let d = local_disks st ! lock_disk l
                  in if is_corrupted d then (st, Err (LOCAL_DISK_OWNED_BY_PARTITION_CORRUPTED (root d)))
                     else on_disk (lock_disk l) (io_read (data_path uid) offset (Some len)) st)"

definition localfile_get_index :: "PartitionedUId \<Rightarrow> LocalFileStore \<Rightarrow> LocalDataIndex lf_result" where
  "localfile_get_index uid st =
     (case dm_get (partition_locks st) (data_path uid) of
        None \<Rightarrow> (st, Ok \<lparr>index_data = [], data_file_len = 0\<rparr>)
      | Some l \<Rightarrow>
          let d = local_disks st ! lock_disk l
          in if is_corrupted d then (st, Err (LOCAL_DISK_OWNED_BY_PARTITION_CORRUPTED (root d)))
             else run_then (on_disk (lock_disk l) (io_read (index_path uid) 0 None) st)
                    (\<lambda>b st. (st, Ok \<lparr>index_data = b, data_file_len = pointer l\<rparr>)))"

text \<open>The deletions on the disks, one after the other, until one fails.\<close>

fun delete_on_disks :: "string \<Rightarrow> Disk list \<Rightarrow> Disk list \<times> (unit, anyhow) outcome" where
  "delete_on_disks dir [] = ([], Ok ())"
| "delete_on_disks dir (d # ds) =
     (case io_delete dir d of
        (d', Ok _) \<Rightarrow> let (ds', r) = delete_on_disks dir ds in (d' # ds', r)
      | (d', Err e) \<Rightarrow> (d' # ds, Err e)
      | (d', Panic) \<Rightarrow> (d' # ds, Panic))"

definition localfile_purge :: "PurgeDataContext \<Rightarrow> LocalFileStore \<Rightarrow> LocalFileStore \<times> (int, anyhow) outcome" where
  "localfile_purge ctx st =
     (let dir = (case p_shuffle_id ctx of
                   Some s \<Rightarrow> gen_relative_path_for_shuffle (p_app_id ctx) s
                 | None \<Rightarrow> gen_relative_path_for_app (p_app_id ctx));
          (ds, r) = delete_on_disks dir (local_disks st)
      in case r of
           Ok _ \<Rightarrow>
             let keys_to_delete = map fst (filter (\<lambda>e. starts_with (fst e) dir) (partition_locks st));
                 (m, removed) = dm_drain pointer keys_to_delete (partition_locks st) 0
             in (st\<lparr>local_disks := ds, partition_locks := m\<rparr>, Ok removed)
         | Err e \<Rightarrow> (st\<lparr>local_disks := ds\<rparr>, Err e)
         | Panic \<Rightarrow> (st\<lparr>local_disks := ds\<rparr>, Panic))"

section \<open>Paths do not collide\<close>

definition data_comps :: "PartitionedUId \<Rightarrow> path" where
  "data_comps uid = [app_id uid, show_int (shuffle_id uid), ''partition-'' @ show_int (partition_id uid) @ ''.data'']"

definition index_comps :: "PartitionedUId \<Rightarrow> path" where
  "index_comps uid = [app_id uid, show_int (shuffle_id uid), ''partition-'' @ show_int (partition_id uid) @ ''.index'']"

lemma number_no_slash [simp]: "CHR ''/'' \<notin> set (show_int i)"
  using plain_number [of i] by (simp add: plain_name_def)

lemma comps_paths:
  assumes "plain_name (app_id uid)"
  shows "comps (data_path uid) = data_comps uid" and "comps (index_path uid) = index_comps uid"
    and "comps (parent_dir uid) = [app_id uid, show_int (shuffle_id uid)]"
proof -
  have plain: "plain_name (''partition-'' @ show_int p @ ''.data'')" "plain_name (''partition-'' @ show_int p @ ''.index'')" for p
    by (auto simp: plain_name_def)
  show "comps (data_path uid) = data_comps uid"
    using comps_cons [OF assms] comps_cons [OF plain_number] comps_plain [OF plain(1)]
    by (simp add: data_path_def data_comps_def)
  show "comps (index_path uid) = index_comps uid"
    using comps_cons [OF assms] comps_cons [OF plain_number] comps_plain [OF plain(2)]
    by (simp add: index_path_def index_comps_def)
  show "comps (parent_dir uid) = [app_id uid, show_int (shuffle_id uid)]"
    using comps_cons [OF assms] comps_cons [OF plain_number, of _ "[]"]
    by (simp add: parent_dir_def) (simp add: comps_def)
qed

lemma uid_eqI:
  "app_id u = app_id v \<Longrightarrow> shuffle_id u = shuffle_id v \<Longrightarrow> partition_id u = partition_id v \<Longrightarrow> u = (v :: PartitionedUId)"
  by simp

lemma comps_inject [simp]:
  "data_comps u = data_comps v \<longleftrightarrow> u = v" "index_comps u = index_comps v \<longleftrightarrow> u = v"
  by (auto simp: data_comps_def index_comps_def intro: uid_eqI)

lemma data_not_index [simp]: "data_comps u \<noteq> index_comps v" "index_comps v \<noteq> data_comps u"
proof -
  have "last (x @ ''.data'') \<noteq> last (y @ ''.index'')" for x y by simp
  then show "data_comps u \<noteq> index_comps v"
    unfolding data_comps_def index_comps_def by (metis append.assoc list.inject)
  then show "index_comps v \<noteq> data_comps u" by simp
qed

lemma comps_shape [simp]:
  "length (data_comps u) = 3" "length (index_comps u) = 3" "data_comps u \<noteq> []" "index_comps u \<noteq> []"
  "[x, y] \<noteq> data_comps u" "[x, y] \<noteq> index_comps u" "data_comps u \<noteq> [x, y]" "index_comps u \<noteq> [x, y]"
  "butlast (data_comps u) = [app_id u, show_int (shuffle_id u)]"
  "butlast (index_comps u) = [app_id u, show_int (shuffle_id u)]"
  by (simp_all add: data_comps_def index_comps_def)

section \<open>What the disks hold\<close>

text \<open>
  \<open>W\<close> says which blocks have been written to each partition.  A written partition has its entry,
  its data file is the data of these blocks one after the other, its index file lists them, and
  the pointer is the length of the data.  An unwritten one has no entry and no files.
\<close>

definition part_ok :: "codec \<Rightarrow> LocalFileStore \<Rightarrow> PartitionedUId \<Rightarrow> Block list \<Rightarrow> bool" where
  "part_ok c st uid bs \<longleftrightarrow> (\<exists>l. dm_get (partition_locks st) (data_path uid) = Some l \<and>
     lock_disk l < length (local_disks st) \<and> pointer l = int (length (payload bs)) \<and>
     (let t = files (local_disks st ! lock_disk l)
      in fs_get t (data_comps uid) = Some (File (payload bs)) \<and>
         fs_get t (index_comps uid) = Some (File (index_bytes c 0 bs)) \<and>
         fs_get t [app_id uid, show_int (shuffle_id uid)] = Some Dir))"

definition shallow :: "tree \<Rightarrow> bool" where
  "shallow t \<longleftrightarrow> (\<forall>p. length p \<le> 2 \<longrightarrow> fs_get t p \<in> {None, Some Dir}) \<and>
     (\<forall>p. fs_get t p \<noteq> None \<longrightarrow> fs_get t (butlast p) = Some Dir)"

definition lf_ok :: "codec \<Rightarrow> (PartitionedUId \<Rightarrow> Block list option) \<Rightarrow> LocalFileStore \<Rightarrow> bool" where
  "lf_ok c W st \<longleftrightarrow>
     (\<forall>uid. plain_name (app_id uid) \<longrightarrow>
       (case W uid of
          None \<Rightarrow> dm_get (partition_locks st) (data_path uid) = None \<and>
            (\<forall>d \<in> set (local_disks st). fs_get (files d) (data_comps uid) = None \<and> fs_get (files d) (index_comps uid) = None)
        | Some bs \<Rightarrow> part_ok c st uid bs \<and> list_all block_ok bs \<and> int (length (payload bs)) < 2 ^ 63)) \<and>
     (\<forall>d \<in> set (local_disks st). shallow (files d))"

definition quiet :: "LocalFileStore \<Rightarrow> bool" where
  "quiet st \<longleftrightarrow> local_disks st \<noteq> [] \<and> (\<forall>d \<in> set (local_disks st). schedule d = [] \<and> usable d)"

lemma data_path_inject:
  assumes "plain_name (app_id u)" and "plain_name (app_id v)"
  shows "data_path u = data_path v \<longleftrightarrow> u = v"
  using comps_paths(1) [OF assms(1)] comps_paths(1) [OF assms(2)] comps_inject(1) by metis

lemma select_disk_quiet:
  assumes "quiet st"
  shows "\<exists>i < length (local_disks st). select_disk h uid st = Ok i"
proof -
  let ?n = "length (local_disks st)"
  have all: "filter (\<lambda>i. usable (local_disks st ! i)) [0..<?n] = [0..<?n]"
    using assms by (auto simp: quiet_def filter_id_conv)
  have n: "0 < ?n" using assms by (auto simp: quiet_def)
  then have "nat (h uid mod int ?n) < ?n" by (simp add: nat_less_iff)
  with n show ?thesis by (auto simp: select_disk_def Let_def all)
qed

lemma on_disk_Ok: "f (local_disks st ! i) = (d, Ok x) \<Longrightarrow>
  on_disk i f st = (st\<lparr>local_disks := (local_disks st)[i := d]\<rparr>, Ok x)"
  by (simp add: on_disk_def from_anyhow_def)

text \<open>The two appends of a write, on a disk that has the directory.\<close>

lemma write_blocks_files:
  fixes c :: codec and bs :: "Block list"
  assumes "plain_name (app_id uid)" and d: "local_disks st ! lock_disk l = d" "lock_disk l < length (local_disks st)"
    and "schedule d = []" and "usable d"
    and dir: "fs_get (files d) [app_id uid, show_int (shuffle_id uid)] = Some Dir"
    and old: "fs_get (files d) (data_comps uid) = Some (File D) \<or> D = [] \<and> fs_get (files d) (data_comps uid) = None"
    and idx: "fs_get (files d) (index_comps uid) = Some (File I) \<or> I = [] \<and> fs_get (files d) (index_comps uid) = None"
  defines "fmt \<equiv> generate_shuffle_file_format c bs (pointer l)"
  defines "d' \<equiv> d\<lparr>files := dm_insert (index_comps uid) (File (I @ wrapper_freeze (fmt_index fmt)))
      (dm_insert (data_comps uid) (File (D @ wrapper_freeze (fmt_data fmt))) (files d))\<rparr>"
  shows "write_blocks c uid bs l True st =
    (st\<lparr>local_disks := (local_disks st)[lock_disk l := d'],
        partition_locks := dm_insert (data_path uid) (l\<lparr>pointer := fmt_offset fmt\<rparr>) (partition_locks st)\<rparr>, Ok ())"
proof -
  note cp = comps_paths [OF assms(1)]
  have bl: "butlast (data_comps uid) = [app_id uid, show_int (shuffle_id uid)]"
      "butlast (index_comps uid) = [app_id uid, show_int (shuffle_id uid)]"
    by (auto simp: data_comps_def index_comps_def)
  let ?d1 = "d\<lparr>files := dm_insert (data_comps uid) (File (D @ wrapper_freeze (fmt_data fmt))) (files d)\<rparr>"
  let ?st1 = "st\<lparr>local_disks := (local_disks st)[lock_disk l := ?d1]\<rparr>"
  have "io_append (data_path uid) (fmt_data fmt) d = (?d1, Ok ())"
    using assms(4) dir old bl
    by (auto simp: io_append_def fs_append_def cp Let_def)
  then have 1: "on_disk (lock_disk l) (io_append (data_path uid) (fmt_data fmt)) st = (?st1, Ok ())"
    using d by (simp add: on_disk_Ok)
  have "io_append (index_path uid) (fmt_index fmt) ?d1 = (d', Ok ())"
    using assms(4) dir idx bl
    by (auto simp: io_append_def fs_append_def cp Let_def d'_def fs_get_insert)
  then have 2: "on_disk (lock_disk l) (io_append (index_path uid) (fmt_index fmt)) ?st1 =
      (st\<lparr>local_disks := (local_disks st)[lock_disk l := d']\<rparr>, Ok ())"
    using d(2) by (simp add: on_disk_Ok)
  show ?thesis
    using assms(5) 1 2 by (simp add: write_blocks_def d(1) usable_def Let_def fmt_def [symmetric])
qed

text \<open>Changing one partition's files and entry keeps everything else.\<close>

lemma lf_ok_update:
  assumes inv: "lf_ok c W st" and plain: "plain_name (app_id uid)" and i: "i < length (local_disks st)"
    and deep: "\<And>q. length q = 3 \<Longrightarrow> q \<noteq> data_comps uid \<Longrightarrow> q \<noteq> index_comps uid \<Longrightarrow>
        fs_get (files d) q = fs_get (files (local_disks st ! i)) q"
    and dirs: "\<And>q. fs_get (files (local_disks st ! i)) q = Some Dir \<Longrightarrow> fs_get (files d) q = Some Dir"
    and sh: "shallow (files d)"
    and new: "fs_get (files d) (data_comps uid) = Some (File (payload bs))"
      "fs_get (files d) (index_comps uid) = Some (File (index_bytes c 0 bs))"
      "fs_get (files d) [app_id uid, show_int (shuffle_id uid)] = Some Dir"
    and bs: "list_all block_ok bs" "int (length (payload bs)) < 2 ^ 63"
    and st': "local_disks st' = (local_disks st)[i := d]"
      "partition_locks st' = dm_insert (data_path uid) \<lparr>lock_disk = i, pointer = int (length (payload bs))\<rparr> (partition_locks st)"
  shows "lf_ok c (W(uid \<mapsto> bs)) st'"
proof -
  have me: "part_ok c st' uid bs"
    using new i by (simp add: part_ok_def st' dm_simps Let_def)
  have other: "case W v of
      None \<Rightarrow> dm_get (partition_locks st') (data_path v) = None \<and>
        (\<forall>d \<in> set (local_disks st'). fs_get (files d) (data_comps v) = None \<and> fs_get (files d) (index_comps v) = None)
    | Some bs \<Rightarrow> part_ok c st' v bs \<and> list_all block_ok bs \<and> int (length (payload bs)) < 2 ^ 63"
    if v: "plain_name (app_id v)" "v \<noteq> uid" for v
  proof -
    have lock: "dm_get (partition_locks st') (data_path v) = dm_get (partition_locks st) (data_path v)"
      using data_path_inject [OF v(1) plain] v(2) by (simp add: st' dm_simps)
    have same: "fs_get (files d) (data_comps v) = fs_get (files (local_disks st ! i)) (data_comps v)"
      "fs_get (files d) (index_comps v) = fs_get (files (local_disks st ! i)) (index_comps v)"
      using v(2) by (auto intro!: deep)
    have W: "case W v of
        None \<Rightarrow> dm_get (partition_locks st) (data_path v) = None \<and>
          (\<forall>d \<in> set (local_disks st). fs_get (files d) (data_comps v) = None \<and> fs_get (files d) (index_comps v) = None)
      | Some bs \<Rightarrow> part_ok c st v bs \<and> list_all block_ok bs \<and> int (length (payload bs)) < 2 ^ 63"
      using inv v(1) by (simp add: lf_ok_def)
    show ?thesis
    proof (cases "W v")
      case None
      then show ?thesis
        using W lock same i set_update_subset_insert [of "local_disks st" i d]
        by (auto simp: st')
    next
      case (Some vs)
      then obtain l where l: "dm_get (partition_locks st) (data_path v) = Some l"
        "lock_disk l < length (local_disks st)" "pointer l = int (length (payload vs))"
        "fs_get (files (local_disks st ! lock_disk l)) (data_comps v) = Some (File (payload vs))"
        "fs_get (files (local_disks st ! lock_disk l)) (index_comps v) = Some (File (index_bytes c 0 vs))"
        "fs_get (files (local_disks st ! lock_disk l)) [app_id v, show_int (shuffle_id v)] = Some Dir"
        using W by (auto simp: part_ok_def Let_def)
      have "part_ok c st' v vs"
        unfolding part_ok_def
        using l lock same dirs i by (intro exI [of _ l]) (auto simp: Let_def st' nth_list_update)
      then show ?thesis using W Some by simp
    qed
  qed
  have "\<forall>d \<in> set (local_disks st'). shallow (files d)"
    using inv sh set_update_subset_insert [of "local_disks st" i d] by (auto simp: lf_ok_def st')
  then show ?thesis
    unfolding lf_ok_def using me bs other by auto
qed

lemma quiet_update:
  "quiet st \<Longrightarrow> local_disks st' = (local_disks st)[i := d] \<Longrightarrow> schedule d = [] \<Longrightarrow> usable d \<Longrightarrow> quiet st'"
  using set_update_subset_insert [of "local_disks st" i d] by (auto simp: quiet_def)

lemma shallow_insert:
  assumes "shallow t" and "length p = 3" and "fs_get t (butlast p) = Some Dir" and "fs_get t p \<noteq> Some Dir"
  shows "shallow (dm_insert p x t)"
proof -
  have "p \<noteq> []" using assms(2) by auto
  then have get: "fs_get (dm_insert p x t) q = (if q = p then Some x else fs_get t q)" for q
    by (rule fs_get_insert)
  have "butlast p \<noteq> p" using assms(2) by (metis length_butlast diff_less numeral_2_eq_2 zero_less_numeral less_irrefl one_less_numeral_iff zero_less_one)
  with assms show ?thesis
    unfolding shallow_def get by (auto split: if_splits)
qed

definition written :: "(PartitionedUId \<Rightarrow> Block list option) \<Rightarrow> PartitionedUId \<Rightarrow> Block list" where
  "written W uid = (case W uid of None \<Rightarrow> [] | Some bs \<Rightarrow> bs)"

section \<open>Writes\<close>

lemma index_bytes_append:
  "index_bytes c off (xs @ ys) = index_bytes c off xs @ index_bytes c (off + lens xs) ys"
  by (induction xs arbitrary: off) (auto simp: algebra_simps)

lemma lens_payload: "list_all block_ok bs \<Longrightarrow> lens bs = int (length (payload bs))"
  using sum_length_payload [of bs] by (simp add: lens_def)

lemma write_format:
  fixes c :: codec
  assumes "list_all block_ok old" and "list_all block_ok bs" and "int (length (payload (old @ bs))) < 2 ^ 63"
  defines "fmt \<equiv> generate_shuffle_file_format c bs (int (length (payload old)))"
  shows "payload old @ wrapper_freeze (fmt_data fmt) = payload (old @ bs)"
    and "index_bytes c 0 old @ wrapper_freeze (fmt_index fmt) = index_bytes c 0 (old @ bs)"
    and "fmt_offset fmt = int (length (payload (old @ bs)))"
proof -
  have fmt: "fmt = \<lparr>fmt_data = Composed (composed_from (map data bs) (int (length (payload bs)))),
     fmt_index = Direct (index_bytes c (int (length (payload old))) bs),
     fmt_len = int (length (payload bs)), fmt_offset = int (length (payload old)) + int (length (payload bs))\<rparr>"
    unfolding fmt_def using assms(2,3) by (intro generate_format_eq) auto
  show "payload old @ wrapper_freeze (fmt_data fmt) = payload (old @ bs)"
    by (simp add: fmt composed_freeze_concat composed_from_def payload_def)
  show "index_bytes c 0 old @ wrapper_freeze (fmt_index fmt) = index_bytes c 0 (old @ bs)"
    by (simp add: fmt index_bytes_append lens_payload [OF assms(1)])
  show "fmt_offset fmt = int (length (payload (old @ bs)))" by (simp add: fmt)
qed

lemma quiet_disk:
  "quiet st \<Longrightarrow> i < length (local_disks st) \<Longrightarrow> schedule (local_disks st ! i) = [] \<and> usable (local_disks st ! i)"
  by (simp add: quiet_def)

lemma create_dir_quiet:
  assumes "shallow (files d)" and "schedule d = []" and "plain_name (app_id uid)"
  shows "\<exists>t. io_create_dir (parent_dir uid) d = (d\<lparr>files := t\<rparr>, Ok ()) \<and> shallow t \<and>
    fs_get t [app_id uid, show_int (shuffle_id uid)] = Some Dir \<and>
    (\<forall>q. length q = 3 \<longrightarrow> fs_get t q = fs_get (files d) q) \<and>
    (\<forall>q. fs_get (files d) q = Some Dir \<longrightarrow> fs_get t q = Some Dir)"
proof -
  let ?p = "[app_id uid, show_int (shuffle_id uid)]"
  define r where "r = mkdirs [] ?p (files d)"
  have dir: "fs_get (files d) ([] @ take k ?p) \<in> {None, Some Dir}" for k
    using assms(1) by (simp add: shallow_def)
  have r: "snd r \<and> fs_get (fst r) ([] @ ?p) = Some Dir \<and>
      (\<forall>q. (\<forall>k. 0 < k \<and> k \<le> length ?p \<longrightarrow> q \<noteq> [] @ take k ?p) \<longrightarrow> fs_get (fst r) q = fs_get (files d) q)"
    unfolding r_def by (rule mkdirs_ok) (use dir in \<open>auto simp: fs_get_def\<close>)
  have one: "fs_get (fst r) [app_id uid] = Some Dir"
    using dir [of 1] dir [of 2]
    by (auto simp: r_def fs_get_insert split: option.split node.split)
  have deep: "fs_get (fst r) q = fs_get (files d) q" if "q \<noteq> [app_id uid]" "q \<noteq> ?p" for q
  proof -
    have "\<forall>k. 0 < k \<and> k \<le> length ?p \<longrightarrow> q \<noteq> [] @ take k ?p"
      using that by (auto simp: less_Suc_eq le_Suc_eq)
    then show ?thesis using r by blast
  qed
  have two: "fs_get (fst r) ?p = Some Dir" using r by simp
  have "shallow (fst r)"
  proof -
    have "fs_get (fst r) q \<in> {None, Some Dir}" if "length q \<le> 2" for q
      using that assms(1) one two deep [of q] by (cases "q = [app_id uid] \<or> q = ?p") (auto simp: shallow_def)
    moreover have "fs_get (fst r) (butlast q) = Some Dir" if "fs_get (fst r) q \<noteq> None" for q
    proof (cases "butlast q \<in> {[app_id uid], ?p, []}")
      case True
      then show ?thesis using one two by (auto simp: fs_get_def)
    next
      case False
      then have "q \<noteq> [app_id uid]" "q \<noteq> ?p" by auto
      with that have "fs_get (files d) q \<noteq> None" using deep by metis
      then have "fs_get (files d) (butlast q) = Some Dir" using assms(1) by (simp add: shallow_def)
      with False show ?thesis using deep [of "butlast q"] by simp
    qed
    ultimately show ?thesis by (simp add: shallow_def)
  qed
  moreover have "fs_get (fst r) q = Some Dir" if "fs_get (files d) q = Some Dir" for q
    using that r one deep [of q] by (cases "q = [app_id uid] \<or> q = ?p") auto
  moreover have "io_create_dir (parent_dir uid) d = (d\<lparr>files := fst r\<rparr>, Ok ())"
    using r assms(2)
    by (simp add: io_create_dir_def fs_create_dir_all_def comps_paths [OF assms(3)] Let_def case_prod_unfold
        r_def [symmetric] del: mkdirs.simps)
  moreover have "fs_get (fst r) q = fs_get (files d) q" if "length q = 3" for q
    using that by (intro deep) auto
  ultimately show ?thesis
    using r by (intro exI [of _ "fst r"]) auto
qed

text \<open>A write on healthy disks without I/O faults succeeds and appends its blocks to the partition.\<close>

lemma data_insert_quiet:
  assumes inv: "lf_ok c W st" and q: "quiet st" and plain: "plain_name (app_id uid)"
    and bs: "list_all block_ok bs" and bound: "int (length (payload (written W uid @ bs))) < 2 ^ 63"
  shows "\<exists>st'. data_insert c h uid bs st = (st', Ok ()) \<and> quiet st' \<and>
    lf_ok c (W(uid \<mapsto> written W uid @ bs)) st'"
proof -
  have fmt: "payload old @ wrapper_freeze (fmt_data fmt) = payload (old @ bs) \<and>
      index_bytes c 0 old @ wrapper_freeze (fmt_index fmt) = index_bytes c 0 (old @ bs) \<and>
      fmt_offset fmt = int (length (payload (old @ bs)))"
    if "old = written W uid" "list_all block_ok old" "fmt = generate_shuffle_file_format c bs (int (length (payload old)))"
    for old fmt
    using write_format [of old bs c] that bs bound by simp
  have sh: "shallow (files (local_disks st ! i))" if "i < length (local_disks st)" for i
    using inv that by (simp add: lf_ok_def)
  show ?thesis
  proof (cases "W uid")
    case (Some old)
    then have w: "written W uid = old" "part_ok c st uid old" "list_all block_ok old"
      using inv plain by (auto simp: written_def lf_ok_def split: option.splits dest: spec [of _ uid])
    then obtain l where l: "dm_get (partition_locks st) (data_path uid) = Some l"
      "lock_disk l < length (local_disks st)" "pointer l = int (length (payload old))"
      "fs_get (files (local_disks st ! lock_disk l)) (data_comps uid) = Some (File (payload old))"
      "fs_get (files (local_disks st ! lock_disk l)) (index_comps uid) = Some (File (index_bytes c 0 old))"
      "fs_get (files (local_disks st ! lock_disk l)) [app_id uid, show_int (shuffle_id uid)] = Some Dir"
      by (auto simp: part_ok_def Let_def)
    let ?d = "local_disks st ! lock_disk l"
    have qd: "schedule ?d = []" "usable ?d" using quiet_disk [OF q l(2)] by auto
    note eq = write_blocks_files [OF plain refl l(2) qd l(6) disjI1 [OF l(4)] disjI1 [OF l(5)], of c bs,
        unfolded l(3)]
    note f = fmt [OF w(1) [symmetric] w(3) refl]
    let ?d' = "?d\<lparr>files := dm_insert (index_comps uid) (File (index_bytes c 0 (old @ bs)))
        (dm_insert (data_comps uid) (File (payload (old @ bs))) (files ?d))\<rparr>"
    let ?st' = "st\<lparr>local_disks := (local_disks st)[lock_disk l := ?d'],
        partition_locks := dm_insert (data_path uid) (l\<lparr>pointer := int (length (payload (old @ bs)))\<rparr>) (partition_locks st)\<rparr>"
    have "data_insert c h uid bs st = (?st', Ok ())"
      using eq f by (simp add: data_insert_def l(1))
    moreover have "quiet ?st'"
      using qd by (intro quiet_update [OF q, of ?st' "lock_disk l" ?d']) (simp_all add: usable_def)
    moreover have "lf_ok c (W(uid \<mapsto> old @ bs)) ?st'"
    proof (rule lf_ok_update [OF inv plain l(2), of ?d'])
      show "shallow (files ?d')" using sh [OF l(2)] l by (simp add: shallow_insert fs_get_insert)
      show "partition_locks ?st' = dm_insert (data_path uid)
          \<lparr>lock_disk = lock_disk l, pointer = int (length (payload (old @ bs)))\<rparr> (partition_locks st)"
        by (cases l) simp
    qed (use w bs bound l in \<open>auto simp: fs_get_insert\<close>)
    ultimately show ?thesis using w(1) by blast
  next
    case None
    then have lk: "dm_get (partition_locks st) (data_path uid) = None"
      and nof: "\<And>d. d \<in> set (local_disks st) \<Longrightarrow>
        fs_get (files d) (data_comps uid) = None \<and> fs_get (files d) (index_comps uid) = None"
      using inv plain by (auto simp: lf_ok_def split: option.splits dest: spec [of _ uid])
    have w: "written W uid = []" using None by (simp add: written_def)
    obtain i where i: "i < length (local_disks st)" "select_disk h uid st = Ok i"
      using select_disk_quiet [OF q] by blast
    let ?l = "\<lparr>lock_disk = i, pointer = 0\<rparr>"
    let ?d = "local_disks st ! i"
    have qd: "schedule ?d = []" "usable ?d" using quiet_disk [OF q i(1)] by auto
    obtain t where t: "io_create_dir (parent_dir uid) ?d = (?d\<lparr>files := t\<rparr>, Ok ())" "shallow t"
      "fs_get t [app_id uid, show_int (shuffle_id uid)] = Some Dir"
      "\<And>q. length q = 3 \<Longrightarrow> fs_get t q = fs_get (files ?d) q"
      "\<And>q. fs_get (files ?d) q = Some Dir \<Longrightarrow> fs_get t q = Some Dir"
      using create_dir_quiet [OF sh [OF i(1)] qd(1) plain] by blast
    let ?st1 = "st\<lparr>partition_locks := dm_insert (data_path uid) ?l (partition_locks st),
        local_disks := (local_disks st)[i := ?d\<lparr>files := t\<rparr>]\<rparr>"
    have no: "fs_get t (data_comps uid) = None" "fs_get t (index_comps uid) = None"
      using nof [of ?d] i(1) t(4) by simp_all
    have first: "write_blocks c uid bs ?l False (st\<lparr>partition_locks := dm_insert (data_path uid) ?l (partition_locks st)\<rparr>) =
        write_blocks c uid bs ?l True ?st1"
      using t(1) i(1) qd(2) by (simp add: write_blocks_def Let_def on_disk_Ok usable_def)
    have eq: "write_blocks c uid bs ?l True ?st1 =
        (?st1\<lparr>local_disks := (local_disks ?st1)[i := ?d\<lparr>files :=
            dm_insert (index_comps uid) (File ([] @ wrapper_freeze (fmt_index (generate_shuffle_file_format c bs 0))))
              (dm_insert (data_comps uid) (File ([] @ wrapper_freeze (fmt_data (generate_shuffle_file_format c bs 0)))) t)\<rparr>],
            partition_locks := dm_insert (data_path uid) (?l\<lparr>pointer := fmt_offset (generate_shuffle_file_format c bs 0)\<rparr>)
              (partition_locks ?st1)\<rparr>, Ok ())"
      using write_blocks_files [OF plain, of ?st1 ?l "?d\<lparr>files := t\<rparr>" "[]" "[]" c bs] i(1) qd t(3) no
      by (simp add: usable_def)
    let ?d' = "?d\<lparr>files := dm_insert (index_comps uid) (File (index_bytes c 0 bs))
        (dm_insert (data_comps uid) (File (payload bs)) t)\<rparr>"
    let ?st' = "st\<lparr>local_disks := (local_disks st)[i := ?d'],
        partition_locks := dm_insert (data_path uid) \<lparr>lock_disk = i, pointer = int (length (payload bs))\<rparr> (partition_locks st)\<rparr>"
    have upd: "dm_insert k x (dm_insert k y m) = dm_insert k x m" for k :: string and x y :: LockedObj and m
      by (induction m) auto
    have "data_insert c h uid bs st = (?st', Ok ())"
      using first eq fmt [of "[]"] by (simp add: data_insert_def lk i(2) w upd Let_def)
    moreover have "quiet ?st'"
      using qd by (intro quiet_update [OF q, of ?st' i ?d']) (simp_all add: usable_def)
    moreover have "lf_ok c (W(uid \<mapsto> bs)) ?st'"
    proof (rule lf_ok_update [OF inv plain i(1), of ?d'])
      show "shallow (files ?d')" using t(2,3) no by (simp add: shallow_insert fs_get_insert)
    qed (use t(3-5) bs bound w nof [of ?d] i(1) in \<open>auto simp: fs_get_insert\<close>)
    ultimately show ?thesis using w by auto
  qed
qed

section \<open>Sequences of writes\<close>

fun insert_all ::
    "codec \<Rightarrow> (PartitionedUId \<Rightarrow> int) \<Rightarrow> (PartitionedUId \<times> Block list) list \<Rightarrow> LocalFileStore \<Rightarrow> unit lf_result" where
  "insert_all c h [] st = (st, Ok ())"
| "insert_all c h ((uid, bs) # ws) st = run_then (data_insert c h uid bs st) (\<lambda>_. insert_all c h ws)"

definition blocks_for :: "PartitionedUId \<Rightarrow> (PartitionedUId \<times> Block list) list \<Rightarrow> Block list" where
  "blocks_for uid ws = concat (map snd (filter (\<lambda>w. fst w = uid) ws))"

definition writes_ok :: "(PartitionedUId \<times> Block list) list \<Rightarrow> bool" where
  "writes_ok ws \<longleftrightarrow> list_all (\<lambda>(uid, bs). plain_name (app_id uid) \<and> list_all block_ok bs) ws"

lemma blocks_for_simps [simp]:
  "blocks_for uid [] = []"
  "blocks_for uid ((v, bs) # ws) = (if v = uid then bs @ blocks_for uid ws else blocks_for uid ws)"
  by (simp_all add: blocks_for_def)

lemma insert_all_quiet:
  assumes "lf_ok c W st" and "quiet st" and "writes_ok ws"
    and "\<And>uid. int (length (payload (written W uid))) + int (length (payload (concat (map snd ws)))) < 2 ^ 63"
  shows "\<exists>st' W'. insert_all c h ws st = (st', Ok ()) \<and> quiet st' \<and> lf_ok c W' st' \<and>
    (\<forall>uid. written W' uid = written W uid @ blocks_for uid ws)"
  using assms
proof (induction ws arbitrary: W st)
  case Nil
  then show ?case by auto
next
  case (Cons w ws)
  obtain uid bs where w: "w = (uid, bs)" by (cases w)
  let ?W = "W(uid \<mapsto> written W uid @ bs)"
  have wr: "written ?W v = (if v = uid then written W uid @ bs else written W v)" for v
    by (simp add: written_def)
  obtain st1 where st1: "data_insert c h uid bs st = (st1, Ok ())" "quiet st1" "lf_ok c ?W st1"
    using data_insert_quiet [OF Cons.prems(1,2), of uid bs h] Cons.prems(3) Cons.prems(4) [of uid]
    by (auto simp: w writes_ok_def)
  have "\<exists>st' W'. insert_all c h ws st1 = (st', Ok ()) \<and> quiet st' \<and> lf_ok c W' st' \<and>
      (\<forall>v. written W' v = written ?W v @ blocks_for v ws)"
    (is "\<exists>st' W'. ?P st' W'")
  proof (rule Cons.IH [OF st1(3,2)])
    show "writes_ok ws" using Cons.prems(3) by (simp add: writes_ok_def)
    show "int (length (payload (written ?W v))) + int (length (payload (concat (map snd ws)))) < 2 ^ 63" for v
      using Cons.prems(4) [of v] by (auto simp: wr w)
  qed
  then obtain st' W' where P: "?P st' W'" by blast
  show ?case
    by (rule exI [of _ st'], rule exI [of _ W']) (use P st1(1) in \<open>auto simp: w wr\<close>)
qed

section \<open>Reads\<close>

lemma on_disk_same:
  "i < length (local_disks st) \<Longrightarrow> f (local_disks st ! i) = (local_disks st ! i, Ok x) \<Longrightarrow> on_disk i f st = (st, Ok x)"
  by (simp add: on_disk_Ok)

lemma part_ok_reads:
  assumes "part_ok c st uid bs" and "quiet st" and "plain_name (app_id uid)" and "int (length (payload bs)) < 2 ^ 63"
  shows "localfile_get_index uid st =
      (st, Ok \<lparr>index_data = index_bytes c 0 bs, data_file_len = int (length (payload bs))\<rparr>)"
    and "\<lbrakk>0 \<le> off; 0 \<le> len; off + len \<le> int (length (payload bs))\<rbrakk> \<Longrightarrow>
      localfile_get \<lparr>r_uid = uid, r_reading_options = FILE_OFFSET_AND_LEN off len, r_task_ids = f\<rparr> st =
        (st, Ok (slice off len (payload bs)))"
proof -
  obtain l where l: "dm_get (partition_locks st) (data_path uid) = Some l"
    "lock_disk l < length (local_disks st)" "pointer l = int (length (payload bs))"
    "fs_get (files (local_disks st ! lock_disk l)) (data_comps uid) = Some (File (payload bs))"
    "fs_get (files (local_disks st ! lock_disk l)) (index_comps uid) = Some (File (index_bytes c 0 bs))"
    using assms(1) by (auto simp: part_ok_def Let_def)
  note cp = comps_paths [OF assms(3)]
  have d: "schedule (local_disks st ! lock_disk l) = []" "\<not> is_corrupted (local_disks st ! lock_disk l)"
    using quiet_disk [OF assms(2) l(2)] by (auto simp: usable_def)
  show "localfile_get_index uid st =
      (st, Ok \<lparr>index_data = index_bytes c 0 bs, data_file_len = int (length (payload bs))\<rparr>)"
    using l d by (simp add: localfile_get_index_def Let_def cp io_read_all_quiet on_disk_same)
  assume r: "0 \<le> off" "0 \<le> len" "off + len \<le> int (length (payload bs))"
  show "localfile_get \<lparr>r_uid = uid, r_reading_options = FILE_OFFSET_AND_LEN off len, r_task_ids = f\<rparr> st =
      (st, Ok (slice off len (payload bs)))"
  proof (cases "len = 0")
    case True
    then show ?thesis by (simp add: localfile_get_def slice_def)
  next
    case False
    have "io_read (data_path uid) off (Some len) (local_disks st ! lock_disk l) =
        (local_disks st ! lock_disk l, Ok (slice off len (payload bs)))"
      using d(1) l(4) r assms(4) by (intro io_read_quiet) (auto simp: cp)
    then show ?thesis using False l d by (simp add: localfile_get_def Let_def on_disk_same)
  qed
qed

lemma segments_bounds:
  "list_all block_ok bs \<Longrightarrow> s \<in> set (segments_from off bs) \<Longrightarrow>
   off \<le> seg_offset s \<and> 0 \<le> seg_length s \<and> seg_offset s + seg_length s \<le> off + int (length (payload bs))"
proof (induction bs arbitrary: off)
  case Nil
  then show ?case by simp
next
  case (Cons b bs)
  have len: "length_of b = int (length (data b))" using Cons.prems(1) by (simp add: block_ok_def)
  show ?case
  proof (cases "s = segment_of b off")
    case True
    then show ?thesis by (simp add: segment_of_def len)
  next
    case False
    then have "off + length_of b \<le> seg_offset s \<and> 0 \<le> seg_length s \<and>
        seg_offset s + seg_length s \<le> off + length_of b + int (length (payload bs))"
      using Cons by simp
    then show ?thesis by (simp add: len)
  qed
qed

lemma lf_ok_written:
  assumes "lf_ok c W st" and "plain_name (app_id uid)"
  shows "list_all block_ok (written W uid)" and "int (length (payload (written W uid))) < 2 ^ 63"
    and "W uid \<noteq> None \<Longrightarrow> part_ok c st uid (written W uid)"
    and "W uid = None \<Longrightarrow> dm_get (partition_locks st) (data_path uid) = None"
  using assms by (auto simp: lf_ok_def written_def split: option.splits dest: spec [of _ uid])

lemma lf_ok_reads:
  assumes "lf_ok c W st" and "quiet st" and "plain_name (app_id uid)" and "wire_codec c"
  defines "bs \<equiv> written W uid"
  shows "\<exists>idx. localfile_get_index uid st = (st, Ok idx) \<and> decode_index c (index_data idx) = segments_from 0 bs \<and>
    data_file_len idx = int (length (payload bs)) \<and>
    map (\<lambda>s. snd (localfile_get \<lparr>r_uid = uid,
        r_reading_options = FILE_OFFSET_AND_LEN (seg_offset s) (seg_length s), r_task_ids = f\<rparr> st))
      (decode_index c (index_data idx)) = map (\<lambda>b. Ok (data b)) bs"
proof (cases "W uid")
  case None
  then have "bs = []" by (simp add: bs_def written_def)
  then show ?thesis
    using lf_ok_written(4) [OF assms(1,3) None]
    by (simp add: localfile_get_index_def decode_index.simps [of _ "[]"])
next
  case (Some x)
  note w = lf_ok_written [OF assms(1,3), folded bs_def]
  have ok: "part_ok c st uid bs" using w(3) Some by simp
  note r = part_ok_reads [OF ok assms(2,3) w(2)]
  have dec: "decode_index c (index_bytes c 0 bs) = segments_from 0 bs"
    using wire_codec.decode_index_bytes [OF assms(4) w(1), of 0 "[]"] w(2)
    by (simp add: decode_index.simps [of _ "[]"])
  have "map (\<lambda>s. snd (localfile_get \<lparr>r_uid = uid,
        r_reading_options = FILE_OFFSET_AND_LEN (seg_offset s) (seg_length s), r_task_ids = f\<rparr> st)) (segments_from 0 bs) =
      map (\<lambda>s. Ok (slice (seg_offset s) (seg_length s) (payload bs))) (segments_from 0 bs)"
    using segments_bounds [OF w(1), of _ 0] by (intro map_cong [OF refl]) (simp add: r(2))
  also have "\<dots> = map Ok (map (\<lambda>s. slice (seg_offset s - 0) (seg_length s) (payload bs)) (segments_from 0 bs))"
    by simp
  also have "\<dots> = map (\<lambda>b. Ok (data b)) bs"
    unfolding segments_slice [OF w(1)] by simp
  finally show ?thesis using r(1) dec by simp
qed

section \<open>Purges\<close>

lemma below_app: "below [a] (data_comps u) \<longleftrightarrow> app_id u = a" "below [a] (index_comps u) \<longleftrightarrow> app_id u = a"
  "below [a] [x, y] \<longleftrightarrow> x = a"
  by (auto simp: below_def data_comps_def index_comps_def)

lemma delete_app_quiet:
  assumes "shallow (files d)" and "schedule d = []" and "plain_name a"
  shows "\<exists>t. io_delete a d = (d\<lparr>files := t\<rparr>, Ok ()) \<and> shallow t \<and>
    (\<forall>q. fs_get t q = (if q \<noteq> [] \<and> below [a] q then None else fs_get (files d) q))"
proof (cases "fs_get (files d) [a]")
  case None
  have "fs_get (files d) q = None" if "below [a] q" "q \<noteq> []" for q
    using that
  proof (induction q rule: rev_induct)
    case (snoc x q)
    show ?case
    proof (cases "q = []")
      case True
      with snoc.prems None show ?thesis by (simp add: below_def)
    next
      case False
      then have "below [a] q" using snoc.prems(1) by (cases q) (auto simp: below_def)
      then have "fs_get (files d) q = None" using snoc.IH False by simp
      then show ?thesis using assms(1) unfolding shallow_def by (metis butlast_snoc option.distinct(1))
    qed
  qed simp
  then show ?thesis
    using None assms by (intro exI [of _ "files d"]) (auto simp: io_delete_def Let_def comps_plain)
next
  case (Some x)
  then have "x = Dir" using assms(1) by (auto simp: shallow_def dest: spec [of _ "[a]"])
  let ?t = "fs_remove_dir_all [a] (files d)"
  have get: "fs_get ?t q = (if below [a] q then None else fs_get (files d) q)" for q
    by (rule fs_get_remove_dir_all) simp
  have nb: "\<not> below [a] (butlast q)" if "\<not> below [a] q" for q
    using that by (cases q) (auto simp: below_def)
  have "shallow ?t"
    using assms(1) nb by (auto simp: shallow_def get)
  then show ?thesis
    using Some \<open>x = Dir\<close> assms(2,3) by (intro exI [of _ ?t]) (auto simp: io_delete_def Let_def comps_plain get below_def)
qed

lemma delete_on_disks_quiet:
  assumes "\<And>d. d \<in> set ds \<Longrightarrow> shallow (files d) \<and> schedule d = []" and "plain_name a"
  shows "\<exists>ts. delete_on_disks a ds = (map2 (\<lambda>d t. d\<lparr>files := t\<rparr>) ds ts, Ok ()) \<and> length ts = length ds \<and>
    (\<forall>i < length ds. shallow (ts ! i) \<and>
      (\<forall>q. fs_get (ts ! i) q = (if q \<noteq> [] \<and> below [a] q then None else fs_get (files (ds ! i)) q)))"
  using assms(1)
proof (induction ds)
  case Nil
  then show ?case by auto
next
  case (Cons d ds)
  obtain t where t: "io_delete a d = (d\<lparr>files := t\<rparr>, Ok ())" "shallow t"
    "\<forall>q. fs_get t q = (if q \<noteq> [] \<and> below [a] q then None else fs_get (files d) q)"
    using delete_app_quiet [of d a] Cons.prems assms(2) by auto
  obtain ts where ts: "delete_on_disks a ds = (map2 (\<lambda>d t. d\<lparr>files := t\<rparr>) ds ts, Ok ())" "length ts = length ds"
    "\<forall>i < length ds. shallow (ts ! i) \<and>
      (\<forall>q. fs_get (ts ! i) q = (if q \<noteq> [] \<and> below [a] q then None else fs_get (files (ds ! i)) q))"
    using Cons by auto
  show ?case
    by (rule exI [of _ "t # ts"]) (use t ts in \<open>auto simp: less_Suc_eq_0_disj\<close>)
qed

text \<open>Purging an application whose id is no prefix of another written application's id.\<close>

lemma purge_app_quiet:
  assumes inv: "lf_ok c W st" and q: "quiet st" and plain: "plain_name a" and ok: "dm_ok (partition_locks st)"
    and sep: "\<And>uid. W uid \<noteq> None \<Longrightarrow> app_id uid \<noteq> a \<Longrightarrow> \<not> starts_with (app_id uid) a"
  shows "\<exists>st'. localfile_purge \<lparr>p_app_id = a, p_shuffle_id = None\<rparr> st =
      (st', Ok (i64 (weight pointer (filter (\<lambda>e. starts_with (fst e) a) (partition_locks st))))) \<and>
    quiet st' \<and> lf_ok c (\<lambda>uid. if app_id uid = a then None else W uid) st'"
proof -
  let ?ds = "local_disks st"
  have "shallow (files d) \<and> schedule d = []" if "d \<in> set ?ds" for d
    using that inv q by (auto simp: lf_ok_def quiet_def)
  then obtain ts where ts: "delete_on_disks a ?ds = (map2 (\<lambda>d t. d\<lparr>files := t\<rparr>) ?ds ts, Ok ())" "length ts = length ?ds"
    "\<And>i. i < length ?ds \<Longrightarrow> shallow (ts ! i)"
    "\<And>i q. i < length ?ds \<Longrightarrow> fs_get (ts ! i) q = (if q \<noteq> [] \<and> below [a] q then None else fs_get (files (?ds ! i)) q)"
    using delete_on_disks_quiet [OF _ plain, of ?ds] by blast
  let ?ds' = "map2 (\<lambda>d t. d\<lparr>files := t\<rparr>) ?ds ts"
  let ?m = "filter (\<lambda>e. \<not> starts_with (fst e) a) (partition_locks st)"
  let ?st' = "st\<lparr>local_disks := ?ds', partition_locks := ?m\<rparr>"
  let ?W = "\<lambda>uid. if app_id uid = a then None else W uid"
  have eq: "localfile_purge \<lparr>p_app_id = a, p_shuffle_id = None\<rparr> st =
      (?st', Ok (i64 (weight pointer (filter (\<lambda>e. starts_with (fst e) a) (partition_locks st)))))"
    using dm_drain_filter [OF ok, of pointer "\<lambda>e. starts_with (fst e) a"]
    by (simp add: localfile_purge_def gen_relative_path_for_app_def ts(1) Let_def)
  have at: "?ds' ! i = (?ds ! i)\<lparr>files := ts ! i\<rparr>" if "i < length ?ds" for i
    using that ts(2) by simp
  have "quiet ?st'"
    using q ts(2) quiet_disk [OF q] by (auto simp: quiet_def usable_def in_set_conv_nth)
  moreover have "lf_ok c ?W ?st'"
    unfolding lf_ok_def
  proof (intro conjI allI impI ballI)
    fix d assume "d \<in> set (local_disks ?st')"
    then show "shallow (files d)" using ts(2,3) by (auto simp: in_set_conv_nth)
  next
    fix uid :: PartitionedUId assume pu: "plain_name (app_id uid)"
    have W: "case W uid of
        None \<Rightarrow> dm_get (partition_locks st) (data_path uid) = None \<and>
          (\<forall>d \<in> set ?ds. fs_get (files d) (data_comps uid) = None \<and> fs_get (files d) (index_comps uid) = None)
      | Some bs \<Rightarrow> part_ok c st uid bs \<and> list_all block_ok bs \<and> int (length (payload bs)) < 2 ^ 63"
      using inv pu by (simp add: lf_ok_def)
    have lock: "dm_get ?m (data_path uid) =
        (if starts_with (data_path uid) a then None else dm_get (partition_locks st) (data_path uid))"
      using map_of_filter_fst [of "\<lambda>k. \<not> starts_with k a" "partition_locks st" "data_path uid"]
      by (simp add: case_prod_unfold)
    show "case ?W uid of
        None \<Rightarrow> dm_get (partition_locks ?st') (data_path uid) = None \<and>
          (\<forall>d \<in> set (local_disks ?st'). fs_get (files d) (data_comps uid) = None \<and> fs_get (files d) (index_comps uid) = None)
      | Some bs \<Rightarrow> part_ok c ?st' uid bs \<and> list_all block_ok bs \<and> int (length (payload bs)) < 2 ^ 63"
    proof (cases "app_id uid = a \<or> W uid = None")
      case True
      then have "dm_get ?m (data_path uid) = None"
        using W lock by (auto simp: data_path_def starts_with_split split: option.splits)
      moreover have "fs_get (files d) (data_comps uid) = None \<and> fs_get (files d) (index_comps uid) = None"
        if d: "d \<in> set ?ds'" for d
      proof -
        obtain i where i: "i < length ?ds" "d = (?ds ! i)\<lparr>files := ts ! i\<rparr>"
          using d ts(2) by (auto simp: in_set_conv_nth)
        show ?thesis
          using True W nth_mem [OF i(1)] by (auto simp: i(2) ts(4) [OF i(1)] below_app split: option.splits)
      qed
      ultimately show ?thesis using True by auto
    next
      case False
      then obtain bs where bs: "W uid = Some bs" by auto
      then obtain l where l: "dm_get (partition_locks st) (data_path uid) = Some l"
        "lock_disk l < length ?ds" "pointer l = int (length (payload bs))"
        "fs_get (files (?ds ! lock_disk l)) (data_comps uid) = Some (File (payload bs))"
        "fs_get (files (?ds ! lock_disk l)) (index_comps uid) = Some (File (index_bytes c 0 bs))"
        "fs_get (files (?ds ! lock_disk l)) [app_id uid, show_int (shuffle_id uid)] = Some Dir"
        using W by (auto simp: part_ok_def Let_def)
      have "\<not> starts_with (data_path uid) a"
      proof
        assume "starts_with (data_path uid) a"
        moreover have "\<not> starts_with (app_id uid) a" using sep [of uid] bs False by auto
        moreover have "CHR ''/'' \<notin> set a" using plain by (simp add: plain_name_def)
        ultimately show False
          by (auto simp: data_path_def starts_with_split append_eq_append_conv2 Cons_eq_append_conv)
      qed
      then have "part_ok c ?st' uid bs"
        unfolding part_ok_def using l lock ts(2,4) False
        by (intro exI [of _ l]) (simp add: Let_def at below_app)
      then show ?thesis using W bs False by simp
    qed
  qed
  ultimately show ?thesis using eq by blast
qed

section \<open>Properties\<close>

text \<open>
  C15. What is written to local disks can be read back.  After any sequence of writes to any
  partitions, on usable disks and without I/O faults, every write has succeeded, and for each
  partition the index lists all its blocks in the order of the writes, the reported file length
  is the length of their data, and reading the segment of a block returns exactly its bytes.
\<close>

theorem localfile_roundtrip:
  assumes "wire_codec c" and "lf_ok c (\<lambda>_. None) st" and "quiet st" and "writes_ok ws"
    and "int (length (payload (concat (map snd ws)))) < 2 ^ 63"
  shows "\<exists>st'. insert_all c h ws st = (st', Ok ()) \<and>
    (\<forall>uid. plain_name (app_id uid) \<longrightarrow>
      (\<exists>idx. localfile_get_index uid st' = (st', Ok idx) \<and>
        decode_index c (index_data idx) = segments_from 0 (blocks_for uid ws) \<and>
        data_file_len idx = int (length (payload (blocks_for uid ws))) \<and>
        map (\<lambda>s. snd (localfile_get \<lparr>r_uid = uid,
            r_reading_options = FILE_OFFSET_AND_LEN (seg_offset s) (seg_length s), r_task_ids = None\<rparr> st'))
          (decode_index c (index_data idx)) = map (\<lambda>b. Ok (data b)) (blocks_for uid ws)))"
proof -
  have "int (length (payload (written (\<lambda>_. None) uid))) + int (length (payload (concat (map snd ws)))) < 2 ^ 63" for uid
    using assms(5) by (simp add: written_def)
  then obtain st' W' where st': "insert_all c h ws st = (st', Ok ())" "quiet st'" "lf_ok c W' st'"
    and w: "\<And>uid. written W' uid = blocks_for uid ws"
    using insert_all_quiet [OF assms(2-4), of h] by (auto simp: written_def)
  show ?thesis
    using st'(1) lf_ok_reads [OF st'(3,2) _ assms(1), unfolded w] by blast
qed

lemma lf_ok_fresh:
  assumes "localfile_from conf cleanup = Ok st"
  shows "lf_ok c (\<lambda>_. None) st" and "data_paths conf \<noteq> [] \<Longrightarrow> quiet st"
  using assms
  by (auto simp: localfile_from_def lf_ok_def shallow_def fs_get_def new_disk_def quiet_def usable_def
      split: if_splits)

definition sample_conf :: LocalfileStoreConfig where
  "sample_conf = \<lparr>data_paths = [''/d1'', ''/d2''], conf_min_available_disks = 1,
     disk_high_watermark = Fin (4 / 5), disk_low_watermark = Fin (3 / 5)\<rparr>"

definition sample_localfile :: LocalFileStore where
  "sample_localfile = (case localfile_from sample_conf (\<lambda>_. True) of Ok st \<Rightarrow> st)"

lemma sample_localfile_from: "localfile_from sample_conf (\<lambda>_. True) = Ok sample_localfile"
  by (simp add: sample_localfile_def localfile_from_def sample_conf_def)

definition part :: "string \<Rightarrow> int \<Rightarrow> PartitionedUId" where
  "part a p = \<lparr>app_id = a, shuffle_id = 0, partition_id = p\<rparr>"

definition sample_writes :: "(PartitionedUId \<times> Block list) list" where
  "sample_writes = [(part ''a'' 0, [sample_block 1 3]), (part ''a'' 1, [sample_block 2 2]), (part ''a'' 0, [sample_block 3 4])]"

lemma sample_writes_ok: "writes_ok sample_writes" "int (length (payload (concat (map snd sample_writes)))) < 2 ^ 63"
  by (simp_all add: writes_ok_def sample_writes_def part_def sample_block_def block_ok_def is_i32_def is_i64_def plain_name_def)

lemma sample_localfile_quiet: "quiet sample_localfile"
  by (rule lf_ok_fresh(2) [OF sample_localfile_from]) (simp add: sample_conf_def)

theorem localfile_roundtrip_witness:
  "\<exists>st'. insert_all be_codec partition_id sample_writes sample_localfile = (st', Ok ()) \<and>
    (\<exists>idx. localfile_get_index (part ''a'' 0) st' = (st', Ok idx) \<and>
      decode_index be_codec (index_data idx) = [segment_of (sample_block 1 3) 0, segment_of (sample_block 3 4) 3] \<and>
      data_file_len idx = 7)"
proof -
  have "plain_name (app_id (part ''a'' 0))" by (simp add: part_def plain_name_def)
  moreover have "blocks_for (part ''a'' 0) sample_writes = [sample_block 1 3, sample_block 3 4]"
    by (simp add: sample_writes_def part_def)
  ultimately show ?thesis
    using localfile_roundtrip [OF be.wire_codec_axioms lf_ok_fresh(1) [OF sample_localfile_from]
        sample_localfile_quiet sample_writes_ok, of partition_id]
    by (fastforce simp: sample_block_def)
qed

text \<open>
  A disk is selected for a new partition whenever there is a usable one, the selected disk is
  usable, and the error is that there is no disk exactly when none is usable.
\<close>

theorem select_disk_usable:
  "(\<exists>i. select_disk h uid st = Ok i \<and> i < length (local_disks st) \<and> usable (local_disks st ! i)) \<or>
   (select_disk h uid st = Err NO_AVAILABLE_LOCAL_DISK \<and> list_all (\<lambda>d. \<not> usable d) (local_disks st))"
proof -
  let ?c = "filter (\<lambda>i. usable (local_disks st ! i)) [0..<length (local_disks st)]"
  show ?thesis
  proof (cases "?c = []")
    case True
    then show ?thesis
      by (auto simp: select_disk_def Let_def list_all_length filter_empty_conv)
  next
    case False
    then have lt: "nat (h uid mod int (length ?c)) < length ?c" by (simp add: nat_less_iff)
    then have "?c ! nat (h uid mod int (length ?c)) \<in> set ?c" by (rule nth_mem)
    with lt False show ?thesis by (auto simp: select_disk_def Let_def)
  qed
qed

text \<open>
  Writes to a bad disk are refused with the right error and change nothing: a corrupted disk
  reports lost data, an unhealthy one reports that it is unhealthy, and a new partition with no
  usable disk reports that no disk is available.
\<close>

theorem localfile_write_refused:
  assumes "i < length (local_disks st)"
  defines "d \<equiv> local_disks st ! i"
  shows "(dm_get (partition_locks st) (data_path uid) = Some \<lparr>lock_disk = i, pointer = p\<rparr> \<longrightarrow>
      (is_corrupted d \<longrightarrow> data_insert c h uid bs st = (st, Err (PARTIAL_DATA_LOST (root d)))) \<and>
      (\<not> is_corrupted d \<and> \<not> is_healthy d \<longrightarrow> data_insert c h uid bs st = (st, Err (LOCAL_DISK_UNHEALTHY (root d))))) \<and>
    (dm_get (partition_locks st) (data_path uid) = None \<and> list_all (\<lambda>d. \<not> usable d) (local_disks st) \<longrightarrow>
      data_insert c h uid bs st = (st, Err NO_AVAILABLE_LOCAL_DISK))"
  by (auto simp: data_insert_def write_blocks_def d_def select_disk_def list_all_length filter_empty_conv Let_def)

definition bad_disk_store :: LocalFileStore where
  "bad_disk_store = \<lparr>local_disks = [mark_corrupted (new_disk ''/d'' (Fin 1) (Fin 0))],
     min_number_of_available_disks = 1,
     partition_locks = [(data_path (part ''a'' 0), \<lparr>lock_disk = 0, pointer = 0\<rparr>)]\<rparr>"

theorem localfile_write_refused_witness:
  "snd (data_insert be_codec partition_id (part ''a'' 0) [] bad_disk_store) = Err (PARTIAL_DATA_LOST ''/d'') \<and>
   snd (data_insert be_codec partition_id (part ''b'' 0) [] bad_disk_store) = Err NO_AVAILABLE_LOCAL_DISK"
proof -
  have "data_path (part ''b'' 0) \<noteq> data_path (part ''a'' 0)"
    by (simp add: data_path_def part_def)
  then show ?thesis
    using localfile_write_refused [of 0 bad_disk_store "part ''a'' 0" 0 be_codec partition_id "[]"]
      localfile_write_refused [of 0 bad_disk_store "part ''b'' 0" 0 be_codec partition_id "[]"]
    by (simp add: bad_disk_store_def mark_corrupted_def new_disk_def usable_def)
qed

text \<open>
  Purging an application whose id is not a prefix of another application's id removes its
  entries and files from every disk and nothing of the others, and reports the data it removed.
\<close>

theorem localfile_purge_exact:
  assumes "lf_ok c W st" and "quiet st" and "plain_name a" and "dm_ok (partition_locks st)"
    and "\<forall>uid :: PartitionedUId. W uid \<noteq> None \<and> app_id uid \<noteq> a \<longrightarrow> \<not> starts_with (app_id uid) a"
  shows "\<exists>st'. localfile_purge \<lparr>p_app_id = a, p_shuffle_id = None\<rparr> st =
      (st', Ok (i64 (weight pointer (filter (\<lambda>e. starts_with (fst e) a) (partition_locks st))))) \<and>
    lf_ok c (\<lambda>uid. if app_id uid = a then None else W uid) st'"
  using purge_app_quiet [OF assms(1-4)] assms(5) by blast

theorem localfile_purge_exact_witness:
  "\<exists>st'. localfile_purge \<lparr>p_app_id = ''b'', p_shuffle_id = None\<rparr> sample_localfile = (st', Ok 0) \<and>
     lf_ok be_codec (\<lambda>_. None) st'"
  using localfile_purge_exact [OF lf_ok_fresh(1) [OF sample_localfile_from] sample_localfile_quiet, of "''b''" be_codec]
  by (simp add: plain_name_def sample_localfile_def localfile_from_def sample_conf_def)

text \<open>
  The entries to drop are found by a plain string prefix.  Purging an application therefore
  also drops the entries of every other application whose id extends its id, although their
  files stay: their data then reads as empty.
\<close>

lemma purge_drops_extended_apps:
  assumes "localfile_purge \<lparr>p_app_id = a, p_shuffle_id = None\<rparr> st = (st', Ok n)"
    and "app_id uid = a @ x"
  shows "dm_get (partition_locks st') (data_path uid) = None \<and>
    localfile_get \<lparr>r_uid = uid, r_reading_options = FILE_OFFSET_AND_LEN off len, r_task_ids = f\<rparr> st' = (st', Ok [])"
proof -
  let ?ks = "map fst (filter (\<lambda>e. starts_with (fst e) a) (partition_locks st))"
  have "partition_locks st' = fst (dm_drain pointer ?ks (partition_locks st) 0)"
    using assms(1)
    by (auto simp: localfile_purge_def gen_relative_path_for_app_def Let_def case_prod_unfold split: outcome.splits)
  then have "partition_locks st' = filter (\<lambda>e. fst e \<notin> set ?ks) (partition_locks st)"
    by (simp add: dm_drain_map)
  moreover have "starts_with (data_path uid) a" by (simp add: data_path_def assms(2))
  ultimately have "dm_get (partition_locks st') (data_path uid) = None"
    by (fastforce simp: map_of_eq_None_iff)
  then show ?thesis by (simp add: localfile_get_def)
qed

definition two_apps :: LocalFileStore where
  "two_apps = fst (insert_all be_codec partition_id
     [(part ''app'' 0, [sample_block 1 3]), (part ''app2'' 0, [sample_block 2 2])] sample_localfile)"

lemma purge_drops_extended_apps_witness:
  "snd (localfile_get \<lparr>r_uid = part ''app2'' 0, r_reading_options = FILE_OFFSET_AND_LEN 0 2, r_task_ids = None\<rparr> two_apps) =
     Ok [2, 2] \<and>
   snd (localfile_get \<lparr>r_uid = part ''app2'' 0, r_reading_options = FILE_OFFSET_AND_LEN 0 2, r_task_ids = None\<rparr>
     (fst (localfile_purge \<lparr>p_app_id = ''app'', p_shuffle_id = None\<rparr> two_apps))) = Ok []"
proof -
  have "snd (localfile_purge \<lparr>p_app_id = ''app'', p_shuffle_id = None\<rparr> two_apps) = Ok 5"
    by code_simp
  then have "localfile_purge \<lparr>p_app_id = ''app'', p_shuffle_id = None\<rparr> two_apps =
      (fst (localfile_purge \<lparr>p_app_id = ''app'', p_shuffle_id = None\<rparr> two_apps), Ok 5)"
    by (simp add: prod_eq_iff)
  moreover have "app_id (part ''app2'' 0) = ''app'' @ ''2''" by (simp add: part_def)
  ultimately have "snd (localfile_get \<lparr>r_uid = part ''app2'' 0, r_reading_options = FILE_OFFSET_AND_LEN 0 2, r_task_ids = None\<rparr>
     (fst (localfile_purge \<lparr>p_app_id = ''app'', p_shuffle_id = None\<rparr> two_apps))) = Ok []"
    using purge_drops_extended_apps [of "''app''" two_apps _ 5 "part ''app2'' 0" "''2''" 0 2 None] by simp
  moreover have "snd (localfile_get \<lparr>r_uid = part ''app2'' 0, r_reading_options = FILE_OFFSET_AND_LEN 0 2, r_task_ids = None\<rparr> two_apps) =
     Ok [2, 2]"
    by code_simp
  ultimately show ?thesis by blast
qed

definition one_disk :: "io_event list \<Rightarrow> LocalFileStore" where
  "one_disk evs = \<lparr>local_disks = [(new_disk ''/d'' (Fin 1) (Fin 0))\<lparr>schedule := evs\<rparr>],
     min_number_of_available_disks = 1, partition_locks = []\<rparr>"

definition failed_index_write :: LocalFileStore where
  "failed_index_write =
     (let uid = part ''a'' 0;
          st1 = fst (data_insert be_codec partition_id uid [sample_block 1 1]
                  (one_disk [Io_ok, Io_ok, Io_ok, Io_ok, Io_err 0]));
          st2 = fst (data_insert be_codec partition_id uid [sample_block 2 1] st1)
      in fst (data_insert be_codec partition_id uid [sample_block 3 1] st2))"


end
