(* ===== verification/Indexed_Semaphore.thy ===== *)
theory Indexed_Semaphore
  imports Prelude
begin

text \<open>
  The semaphore that hands out an index with every permit: \<^verbatim>\<open>semaphore_with_index.rs\<close>.

  \<open>acquire\<close> takes a permit of the inner semaphore and then pops an index from a queue;
  dropping a permit pushes its index back and then, when the fields are dropped, returns the
  inner permit.  The two halves of each are separate critical sections, so other tasks may run
  in between: \<open>sem_step\<close> has one step for each half.
\<close>

record SemaphoreWithIndex =
  available :: nat \<comment> \<open>free permits of the inner semaphore\<close>
  permits :: nat
  index_ref :: "nat list"

definition new_semaphore :: "nat \<Rightarrow> SemaphoreWithIndex" where
  "new_semaphore n = \<lparr>available = n, permits = n, index_ref = [0..<n]\<rparr>"

text \<open>The pop of \<open>acquire\<close>: \<open>unwrap\<close> panics when the queue is empty.\<close>

definition pop_index :: "SemaphoreWithIndex \<Rightarrow> SemaphoreWithIndex \<times> (nat, unit) outcome" where
  "pop_index s = (case index_ref s of [] \<Rightarrow> (s, Panic) | i # is \<Rightarrow> (s\<lparr>index_ref := is\<rparr>, Ok i))"

definition push_index :: "nat \<Rightarrow> SemaphoreWithIndex \<Rightarrow> SemaphoreWithIndex" where
  "push_index i s = s\<lparr>index_ref := i # index_ref s\<rparr>"

definition take_permit :: "SemaphoreWithIndex \<Rightarrow> SemaphoreWithIndex" where
  "take_permit s = s\<lparr>available := available s - 1\<rparr>"

definition return_permit :: "SemaphoreWithIndex \<Rightarrow> SemaphoreWithIndex" where
  "return_permit s = s\<lparr>available := available s + 1\<rparr>"

text \<open>\<open>acquire\<close> and the drop, each without interruption.\<close>

definition acquire :: "SemaphoreWithIndex \<Rightarrow> SemaphoreWithIndex \<times> (nat, unit) outcome" where
  "acquire s = pop_index (take_permit s)"

definition drop_permit :: "nat \<Rightarrow> SemaphoreWithIndex \<Rightarrow> SemaphoreWithIndex" where
  "drop_permit i s = return_permit (push_index i s)"

section \<open>Interleavings\<close>

text \<open>
  The tasks: how many hold an inner permit but no index yet, the indices that are held, and how
  many have given their index back but not yet their permit.
\<close>

record sem_tasks =
  entering :: nat
  holding :: "nat list"
  leaving :: nat
  panicked :: bool

inductive sem_step :: "SemaphoreWithIndex \<times> sem_tasks \<Rightarrow> SemaphoreWithIndex \<times> sem_tasks \<Rightarrow> bool" where
  Take: "0 < available s \<Longrightarrow> sem_step (s, t) (take_permit s, t\<lparr>entering := entering t + 1\<rparr>)"
| Pop: "0 < entering t \<Longrightarrow> pop_index s = (s', Ok i) \<Longrightarrow>
    sem_step (s, t) (s', t\<lparr>entering := entering t - 1, holding := i # holding t\<rparr>)"
| Pop_panic: "0 < entering t \<Longrightarrow> pop_index s = (s', Panic) \<Longrightarrow>
    sem_step (s, t) (s', t\<lparr>entering := entering t - 1, panicked := True\<rparr>)"
| Push: "i \<in> set (holding t) \<Longrightarrow>
    sem_step (s, t) (push_index i s, t\<lparr>holding := remove1 i (holding t), leaving := leaving t + 1\<rparr>)"
| Return: "0 < leaving t \<Longrightarrow> sem_step (s, t) (return_permit s, t\<lparr>leaving := leaving t - 1\<rparr>)"

definition idle :: sem_tasks where
  "idle = \<lparr>entering = 0, holding = [], leaving = 0, panicked = False\<rparr>"

definition sem_inv :: "nat \<Rightarrow> SemaphoreWithIndex \<times> sem_tasks \<Rightarrow> bool" where
  "sem_inv n = (\<lambda>(s, t).
     available s + entering t + length (holding t) + leaving t = n \<and>
     mset (index_ref s) + mset (holding t) = mset [0..<n] \<and> \<not> panicked t)"

lemma sem_inv_new: "sem_inv n (new_semaphore n, idle)"
  by (simp add: sem_inv_def new_semaphore_def idle_def)

lemma sem_step_inv:
  assumes "sem_step x y" and "sem_inv n x"
  shows "sem_inv n y"
  using assms
proof (induction rule: sem_step.induct)
  case (Pop t s s' i)
  then show ?case by (auto simp: sem_inv_def pop_index_def split: list.splits)
next
  case (Pop_panic t s s')
  then have none: "index_ref s = []" by (simp add: pop_index_def split: list.splits)
  have "mset (index_ref s) + mset (holding t) = mset [0..<n]" using Pop_panic by (simp add: sem_inv_def)
  from arg_cong [OF this, of size] have "length (holding t) = n" by (simp add: none)
  with Pop_panic show ?case by (simp add: sem_inv_def)
next
  case (Push i t s)
  then have eq: "mset (holding t) = mset (i # remove1 i (holding t))" by simp
  have 1: "length (holding t) = Suc (length (remove1 i (holding t)))"
    using arg_cong [OF eq, of size] by (simp del: mset_remove1)
  have 2: "mset (index_ref s) + mset (holding t) = mset (i # index_ref s) + mset (remove1 i (holding t))"
    by (simp add: eq del: mset_remove1)
  show ?case
    using Push(2) 1 2 unfolding sem_inv_def push_index_def by (simp del: mset_remove1 mset.simps)
qed (auto simp: sem_inv_def take_permit_def return_permit_def)

lemma sem_reachable_inv:
  "sem_step\<^sup>*\<^sup>* (new_semaphore n, idle) x \<Longrightarrow> sem_inv n x"
  by (induction rule: rtranclp_induct) (auto simp: sem_inv_new intro: sem_step_inv)

section \<open>Properties\<close>

text \<open>
  C32. However the tasks interleave, taking an index never panics, the indices held at the same
  time are different and below the number of permits, and no more permits are out than exist.
\<close>

theorem semaphore_indices_distinct:
  assumes "sem_step\<^sup>*\<^sup>* (new_semaphore n, idle) (s, t)"
  shows "\<not> panicked t \<and> distinct (holding t) \<and> list_all (\<lambda>i. i < n) (holding t) \<and>
    entering t + length (holding t) \<le> n \<and> (0 < entering t \<longrightarrow> index_ref s \<noteq> [])"
proof -
  have inv: "sem_inv n (s, t)" using assms by (rule sem_reachable_inv)
  then have m: "mset (index_ref s @ holding t) = mset [0..<n]" by (simp add: sem_inv_def)
  then have "distinct (index_ref s @ holding t)"
    by (metis distinct_upt mset_eq_imp_distinct_iff)
  moreover have "set (index_ref s @ holding t) = {0..<n}" using mset_eq_setD [OF m] by simp
  moreover have "length (index_ref s) + length (holding t) = n"
    using arg_cong [OF m, of size] by simp
  ultimately show ?thesis using inv by (auto simp: sem_inv_def list_all_iff)
qed

theorem semaphore_indices_distinct_witness:
  "let s2 = fst (pop_index (take_permit (take_permit (new_semaphore 2))));
       s3 = fst (pop_index s2)
   in sem_step\<^sup>*\<^sup>* (new_semaphore 2, idle) (s3, idle\<lparr>holding := [1, 0]\<rparr>) \<and> distinct [1, 0 :: nat] \<and>
      \<not> panicked (idle\<lparr>holding := [1, 0]\<rparr>)"
proof -
  let ?a = "take_permit (new_semaphore 2)" and ?b = "take_permit (take_permit (new_semaphore 2))"
  let ?c = "fst (pop_index ?b)" let ?d = "fst (pop_index ?c)"
  have "sem_step (new_semaphore 2, idle) (?a, idle\<lparr>entering := 1\<rparr>)"
    using sem_step.Take [of "new_semaphore 2" idle] by (simp add: new_semaphore_def idle_def)
  moreover have "sem_step (?a, idle\<lparr>entering := 1\<rparr>) (?b, idle\<lparr>entering := 2\<rparr>)"
    using sem_step.Take [of ?a "idle\<lparr>entering := 1\<rparr>"]
    by (simp add: new_semaphore_def idle_def take_permit_def numeral_2_eq_2)
  moreover have "sem_step (?b, idle\<lparr>entering := 2\<rparr>) (?c, idle\<lparr>entering := 1, holding := [0]\<rparr>)"
    using sem_step.Pop [of "idle\<lparr>entering := 2\<rparr>" ?b ?c 0]
    by (simp add: new_semaphore_def idle_def take_permit_def pop_index_def numeral_2_eq_2)
  moreover have "sem_step (?c, idle\<lparr>entering := 1, holding := [0]\<rparr>) (?d, idle\<lparr>holding := [1, 0]\<rparr>)"
    using sem_step.Pop [of "idle\<lparr>entering := 1, holding := [0]\<rparr>" ?c ?d 1]
    by (simp add: new_semaphore_def idle_def take_permit_def pop_index_def numeral_2_eq_2)
  ultimately have "sem_step\<^sup>*\<^sup>* (new_semaphore 2, idle) (?d, idle\<lparr>holding := [1, 0]\<rparr>)"
    by (meson converse_rtranclp_into_rtranclp rtranclp.rtrancl_refl)
  then show ?thesis
    using semaphore_indices_distinct [of 2 ?d "idle\<lparr>holding := [1, 0]\<rparr>"] by (simp add: Let_def)
qed

end
