(* ===== verification/Hdfs.thy ===== *)
theory Hdfs
  imports Localfile Indexed_Semaphore
begin

text \<open>
  The remote store: \<^verbatim>\<open>store/hdfs.rs\<close>.  The HDFS clients are other projects' code behind the trait
  \<open>HdfsDelegator\<close> (\<^verbatim>\<open>store/hadoop/mod.rs\<close>), so the file system and its operations are arguments:
  a record of operations on an unknown state.  The locale \<open>hdfs_delegator\<close> says what the store
  relies on; \<open>mem_hdfs\<close> is a file system in memory that satisfies it.

  A partition is written by up to \<open>partition_write_concurrency\<close> tasks at once, each to its own
  files, told apart by the index of its permit.  After a failed write the task moves on to new
  files with the next retry number.
\<close>

section \<open>State\<close>

record ('c, 'f) HdfsDelegator =
  hd_touch :: "'c \<Rightarrow> string \<Rightarrow> 'f \<Rightarrow> 'f \<times> (unit, anyhow) outcome"
  hd_append :: "'c \<Rightarrow> string \<Rightarrow> BytesWrapper \<Rightarrow> 'f \<Rightarrow> 'f \<times> (unit, worker_error) outcome"
  hd_create_dir :: "'c \<Rightarrow> string \<Rightarrow> 'f \<Rightarrow> 'f \<times> (unit, anyhow) outcome"
  hd_delete_dir :: "'c \<Rightarrow> string \<Rightarrow> 'f \<Rightarrow> 'f \<times> (unit, anyhow) outcome"
  hd_connect :: "string \<Rightarrow> (string, string) dmap \<Rightarrow> ('c, anyhow) outcome"

record RemoteStorageConfig =
  remote_root :: string
  remote_configs :: "(string, string) dmap"

record WritingHandler =
  is_file_created :: bool
  data_len :: int
  retry_time :: nat

definition default_handler :: WritingHandler where
  "default_handler = \<lparr>is_file_created = True, data_len = 0, retry_time = 0\<rparr>"

definition reset_offset :: "int \<Rightarrow> WritingHandler \<Rightarrow> WritingHandler" where
  "reset_offset n m = m\<lparr>data_len := n\<rparr>"

definition inc_retry_time :: "WritingHandler \<Rightarrow> WritingHandler" where
  "inc_retry_time m = m\<lparr>retry_time := retry_time m + 1\<rparr>"

record ('c, 'f) HdfsStore =
  app_remote_clients :: "(string, 'c) dmap"
  partition_file_locks :: "(string, SemaphoreWithIndex) dmap"
  partition_cached_meta :: "(string, WritingHandler) dmap"
  partition_write_concurrency :: nat
  health :: bool
  remote :: 'f

definition hdfs_from :: "nat \<Rightarrow> 'f \<Rightarrow> ('c, 'f) HdfsStore" where
  "hdfs_from concurrency fs = \<lparr>app_remote_clients = [], partition_file_locks = [], partition_cached_meta = [],
     partition_write_concurrency = concurrency, health = True, remote = fs\<rparr>"

section \<open>Paths\<close>

definition get_app_dir :: "string \<Rightarrow> string" where
  "get_app_dir a = a @ ''/''"

definition get_shuffle_dir :: "string \<Rightarrow> int \<Rightarrow> string" where
  "get_shuffle_dir a s = a @ ''/'' @ show_int s @ ''/''"

definition partition_dir :: "PartitionedUId \<Rightarrow> string" where
  "partition_dir uid = app_id uid @ ''/'' @ show_int (shuffle_id uid) @ ''/'' @
     show_int (partition_id uid) @ ''-'' @ show_int (partition_id uid) @ ''/''"

definition file_path_prefix :: "string \<Rightarrow> PartitionedUId \<Rightarrow> string" where
  "file_path_prefix worker_id uid = partition_dir uid @ worker_id"

definition with_index :: "string \<Rightarrow> nat \<Rightarrow> string" where
  "with_index p i = p @ ''_'' @ show_nat i"

definition data_file :: "string \<Rightarrow> nat \<Rightarrow> string" where
  "data_file p r = p @ ''_'' @ show_nat r @ ''.data''"

definition index_file :: "string \<Rightarrow> nat \<Rightarrow> string" where
  "index_file p r = p @ ''_'' @ show_nat r @ ''.index''"

section \<open>Operations\<close>

definition remote_call ::
    "('f \<Rightarrow> 'f \<times> ('a, 'e) outcome) \<Rightarrow> ('e \<Rightarrow> worker_error) \<Rightarrow> ('c, 'f) HdfsStore \<Rightarrow> ('c, 'f) HdfsStore \<times> ('a, worker_error) outcome" where
  "remote_call f conv st = (let (r, x) = f (remote st) in (st\<lparr>remote := r\<rparr>, map_err conv x))"

text \<open>The offset and the retry number to write with; the files are set up on the first write.\<close>

definition open_files ::
    "('c, 'f) HdfsDelegator \<Rightarrow> 'c \<Rightarrow> string \<Rightarrow> string \<Rightarrow> ('c, 'f) HdfsStore \<Rightarrow>
     ('c, 'f) HdfsStore \<times> (int \<times> nat, worker_error) outcome" where
  "open_files ops cl dir p st =
     (case dm_get (partition_cached_meta st) p of
        Some m \<Rightarrow> (st, Ok (data_len m, retry_time m))
      | None \<Rightarrow>
          run_then (remote_call (hd_create_dir ops cl dir) Other st) (\<lambda>_ st.
          run_then (remote_call (hd_touch ops cl (data_file p 0)) Other st) (\<lambda>_ st.
          run_then (remote_call (hd_touch ops cl (index_file p 0)) Other st) (\<lambda>_ st.
            (st\<lparr>partition_cached_meta := dm_insert p default_handler (partition_cached_meta st)\<rparr>, Ok (0, 0))))))"

definition write_data_and_index ::
    "('c, 'f) HdfsDelegator \<Rightarrow> 'c \<Rightarrow> string \<Rightarrow> BytesWrapper \<Rightarrow> string \<Rightarrow> BytesWrapper \<Rightarrow> ('c, 'f) HdfsStore \<Rightarrow>
     ('c, 'f) HdfsStore \<times> (unit, worker_error) outcome" where
  "write_data_and_index ops cl dpath dbytes ipath ibytes st =
     run_then (remote_call (hd_append ops cl dpath dbytes) (\<lambda>e. e) st) (\<lambda>_ st.
       remote_call (hd_append ops cl ipath ibytes) (\<lambda>e. e) st)"

text \<open>What a failed write does: out of memory takes the store out of service, and the next files are set up.\<close>

definition after_failure ::
    "('c, 'f) HdfsDelegator \<Rightarrow> 'c \<Rightarrow> string \<Rightarrow> worker_error \<Rightarrow> ('c, 'f) HdfsStore \<Rightarrow>
     ('c, 'f) HdfsStore \<times> (unit, worker_error) outcome" where
  "after_failure ops cl p e st =
     (let st1 = (case e of OUT_OF_MEMORY _ \<Rightarrow> st\<lparr>health := False\<rparr> | _ \<Rightarrow> st)
      in case dm_get (partition_cached_meta st1) p of
           None \<Rightarrow> (st1, Err APP_HAS_BEEN_PURGED)
         | Some m \<Rightarrow>
             let m' = inc_retry_time (reset_offset 0 m);
                 st2 = st1\<lparr>partition_cached_meta := dm_insert p m' (partition_cached_meta st1)\<rparr>
             in run_then (remote_call (hd_touch ops cl (data_file p (retry_time m'))) Other st2) (\<lambda>_ st.
                run_then (remote_call (hd_touch ops cl (index_file p (retry_time m'))) Other st) (\<lambda>_ st.
                  (st, Err (Other (Any_worker e))))))"

text \<open>The part of \<open>data_insert\<close> that runs with the permit of index \<open>i\<close>.\<close>

definition write_with_permit ::
    "codec \<Rightarrow> ('c, 'f) HdfsDelegator \<Rightarrow> string \<Rightarrow> PartitionedUId \<Rightarrow> Block list \<Rightarrow> nat \<Rightarrow> ('c, 'f) HdfsStore \<Rightarrow>
     ('c, 'f) HdfsStore \<times> (unit, worker_error) outcome" where
  "write_with_permit c ops worker_id uid blocks i st =
     (let p = with_index (file_path_prefix worker_id uid) i
      in case dm_get (app_remote_clients st) (app_id uid) of
           None \<Rightarrow> (st, Err APP_HAS_BEEN_PURGED)
         | Some cl \<Rightarrow>
             run_then (open_files ops cl (partition_dir uid) p st) (\<lambda>(next_offset, retry) st.
               let fmt = generate_shuffle_file_format c blocks next_offset
               in case write_data_and_index ops cl (data_file p retry) (fmt_data fmt)
                         (index_file p retry) (fmt_index fmt) st of
                    (st, Err e) \<Rightarrow> after_failure ops cl p e st
                  | (st, Panic) \<Rightarrow> (st, Panic)
                  | (st, Ok _) \<Rightarrow>
                      (case dm_get (partition_cached_meta st) p of
                         None \<Rightarrow> (st, Err APP_HAS_BEEN_PURGED)
                       | Some m \<Rightarrow>
                           (st\<lparr>partition_cached_meta :=
                                dm_insert p (reset_offset (fmt_offset fmt) m) (partition_cached_meta st)\<rparr>, Ok ()))))"

text \<open>
  One uninterrupted call.  It creates the partition's semaphore if there is none, takes a permit
  and gives it back at the end, whatever happens in between.  The limiter of line 154 is not held:
  \<open>let _ =\<close> drops the permit at once.  With a concurrency of zero the code would wait for a permit
  for ever; the model has \<open>Panic\<close> there.
\<close>

definition hdfs_data_insert ::
    "codec \<Rightarrow> ('c, 'f) HdfsDelegator \<Rightarrow> string \<Rightarrow> PartitionedUId \<Rightarrow> Block list \<Rightarrow> ('c, 'f) HdfsStore \<Rightarrow>
     ('c, 'f) HdfsStore \<times> (unit, worker_error) outcome" where
  "hdfs_data_insert c ops worker_id uid blocks st =
     (if \<not> health st then (st, Err HDFS_UNHEALTHY)
      else
        let path = file_path_prefix worker_id uid;
            sem = (case dm_get (partition_file_locks st) path of
                     Some s \<Rightarrow> s | None \<Rightarrow> new_semaphore (partition_write_concurrency st))
        in case acquire sem of
             (sem1, Ok i) \<Rightarrow>
               let st1 = st\<lparr>partition_file_locks := dm_insert path sem1 (partition_file_locks st)\<rparr>;
                   (st2, r) = write_with_permit c ops worker_id uid blocks i st1
               in (st2\<lparr>partition_file_locks := dm_insert path (drop_permit i sem1) (partition_file_locks st2)\<rparr>, r)
           | (sem1, _) \<Rightarrow> (st\<lparr>partition_file_locks := dm_insert path sem1 (partition_file_locks st)\<rparr>, Panic))"

definition hdfs_insert ::
    "codec \<Rightarrow> ('c, 'f) HdfsDelegator \<Rightarrow> string \<Rightarrow> WritingViewContext \<Rightarrow> ('c, 'f) HdfsStore \<Rightarrow>
     ('c, 'f) HdfsStore \<times> (unit, worker_error) outcome" where
  "hdfs_insert c ops worker_id ctx st = hdfs_data_insert c ops worker_id (w_uid ctx) (w_data_blocks ctx) st"

definition hdfs_spill_insert ::
    "codec \<Rightarrow> ('c, 'f) HdfsDelegator \<Rightarrow> string \<Rightarrow> SpillWritingViewContext \<Rightarrow> ('c, 'f) HdfsStore \<Rightarrow>
     ('c, 'f) HdfsStore \<times> (unit, worker_error) outcome" where
  "hdfs_spill_insert c ops worker_id ctx st =
     hdfs_data_insert c ops worker_id (spill_uid ctx) (sort_key task_attempt_id (concat (spill_data_blocks ctx))) st"

definition hdfs_get :: "ReadingViewContext \<Rightarrow> ('c, 'f) HdfsStore \<Rightarrow> (bytes, worker_error) outcome" where
  "hdfs_get ctx st = Err NOT_READ_HDFS_DATA_FROM_SERVER"

definition hdfs_get_index :: "PartitionedUId \<Rightarrow> ('c, 'f) HdfsStore \<Rightarrow> (LocalDataIndex, worker_error) outcome" where
  "hdfs_get_index uid st = Err NOT_READ_HDFS_DATA_FROM_SERVER"

definition hdfs_is_healthy :: "('c, 'f) HdfsStore \<Rightarrow> bool" where
  "hdfs_is_healthy st = health st"

definition hdfs_register_app ::
    "('c, 'f) HdfsDelegator \<Rightarrow> string \<Rightarrow> RemoteStorageConfig option \<Rightarrow> ('c, 'f) HdfsStore \<Rightarrow>
     ('c, 'f) HdfsStore \<times> (unit, anyhow) outcome" where
  "hdfs_register_app ops app remote_storage_conf_option st =
     (case remote_storage_conf_option of
        None \<Rightarrow> (st, Err (Any_message ''The remote config must be populated by app registry action!''))
      | Some r \<Rightarrow>
          (case hd_connect ops (remote_root r) (remote_configs r) of
             Ok cl \<Rightarrow>
               (st\<lparr>app_remote_clients :=
                    (case dm_get (app_remote_clients st) app of
                       Some _ \<Rightarrow> app_remote_clients st
                     | None \<Rightarrow> dm_insert app cl (app_remote_clients st))\<rparr>, Ok ())
           | Err e \<Rightarrow> (st, Err e)
           | Panic \<Rightarrow> (st, Panic)))"

text \<open>The two nested loops of \<open>purge\<close>: per deleted key, the cached entries of all its indices.\<close>

definition meta_keys :: "nat \<Rightarrow> string list \<Rightarrow> string list" where
  "meta_keys n ks = concat (map (\<lambda>k. map (with_index k) [0..<n]) ks)"

definition hdfs_purge ::
    "('c, 'f) HdfsDelegator \<Rightarrow> PurgeDataContext \<Rightarrow> ('c, 'f) HdfsStore \<Rightarrow> ('c, 'f) HdfsStore \<times> (int, anyhow) outcome" where
  "hdfs_purge ops ctx st =
     (let a = p_app_id ctx; fs_option = dm_get (app_remote_clients st) a;
          st1 = (if p_shuffle_id ctx = None then st\<lparr>app_remote_clients := dm_remove a (app_remote_clients st)\<rparr> else st)
      in case fs_option of
           None \<Rightarrow> (st1, Ok 0)
         | Some cl \<Rightarrow>
             let dir = (case p_shuffle_id ctx of Some s \<Rightarrow> get_shuffle_dir a s | None \<Rightarrow> get_app_dir a);
                 keys_to_delete = map fst (filter (\<lambda>e. starts_with (fst e) dir) (partition_file_locks st1));
                 locks = fst (dm_drain (\<lambda>_. 0) keys_to_delete (partition_file_locks st1) 0);
                 (metas, removed_size) = dm_drain data_len (meta_keys (partition_write_concurrency st1) keys_to_delete)
                    (partition_cached_meta st1) 0;
                 st2 = st1\<lparr>partition_file_locks := locks, partition_cached_meta := metas\<rparr>
             in if keys_to_delete = [] then (st2, Ok removed_size)
                else let (r, x) = hd_delete_dir ops cl dir (remote st2)
                     in (st2\<lparr>remote := r\<rparr>, and_then x (\<lambda>_. Ok removed_size)))"

section \<open>What the store relies on\<close>

text \<open>
  \<open>content cl f p\<close> is the file at \<open>p\<close> as the client \<open>cl\<close> sees it.  An operation touches no other file
  than its own, \<open>touch\<close> writes nothing, and an append that reports success has appended.  A failed
  append may have done anything to its file.
\<close>

definition file_bytes :: "bytes option \<Rightarrow> bytes" where
  "file_bytes f = (case f of None \<Rightarrow> [] | Some bs \<Rightarrow> bs)"

text \<open>The handler of a prefix; a prefix that has none yet starts with the default one.\<close>

definition handler_of :: "('c, 'f) HdfsStore \<Rightarrow> string \<Rightarrow> WritingHandler" where
  "handler_of st p = (case dm_get (partition_cached_meta st) p of None \<Rightarrow> default_handler | Some m \<Rightarrow> m)"

text \<open>
  The files of one permit's prefix hold exactly the blocks \<open>bs\<close>: the current data and index files
  agree with each other and with the cached length, and no later file has been written.
\<close>

definition task_files ::
    "codec \<Rightarrow> ('c \<Rightarrow> 'f \<Rightarrow> string \<Rightarrow> bytes option) \<Rightarrow> 'c \<Rightarrow> string \<Rightarrow> Block list \<Rightarrow> ('c, 'f) HdfsStore \<Rightarrow> bool" where
  "task_files c content cl p bs st \<longleftrightarrow>
     (let m = handler_of st p;
          read = \<lambda>q. file_bytes (content cl (remote st) q)
      in (dm_get (partition_cached_meta st) p = None \<longrightarrow> bs = []) \<and>
         list_all block_ok bs \<and> data_len m = int (length (payload bs)) \<and>
         read (data_file p (retry_time m)) = payload bs \<and>
         read (index_file p (retry_time m)) = index_bytes c 0 bs \<and>
         (\<forall>r > retry_time m. read (data_file p r) = [] \<and> read (index_file p r) = []))"

lemmas task_files_unfold = task_files_def [unfolded Let_def handler_of_def]

lemma underscore_split:
  assumes "p @ CHR ''_'' # d = p' @ CHR ''_'' # d'" and "list_all is_digit d" and "list_all is_digit d'"
  shows "p = p' \<and> d = d'"
proof -
  have "\<not> is_digit CHR ''_''" by (simp add: is_digit_def)
  with assms(2,3) have no: "CHR ''_'' \<notin> set (rev d)" "CHR ''_'' \<notin> set (rev d')" by (auto simp: list_all_iff)
  have "rev d @ CHR ''_'' # rev p = rev d' @ CHR ''_'' # rev p'"
    using arg_cong [OF assms(1), of rev] by simp
  from arg_cong [OF this, of "\<lambda>s. hd (split_on (CHR ''_'') s)"] have "d = d'"
    unfolding split_on_append [OF no(1)] split_on_append [OF no(2)] by simp
  with assms(1) show ?thesis by simp
qed

lemma with_index_inject [simp]: "with_index p i = with_index p' j \<longleftrightarrow> p = p' \<and> i = j"
  using underscore_split [of p "show_nat i" p' "show_nat j"] show_nat_digits
  by (auto simp: with_index_def)

lemma file_inject [simp]:
  "data_file p r = data_file p' r' \<longleftrightarrow> p = p' \<and> r = r'"
  "index_file p r = index_file p' r' \<longleftrightarrow> p = p' \<and> r = r'"
  "data_file p r \<noteq> index_file p' r'" "index_file p r \<noteq> data_file p' r'"
proof -
  have eq: "data_file p r = with_index p r @ ''.data''" "index_file p r = with_index p r @ ''.index''" for p r
    by (simp_all add: data_file_def index_file_def with_index_def)
  show "data_file p r = data_file p' r' \<longleftrightarrow> p = p' \<and> r = r'" "index_file p r = index_file p' r' \<longleftrightarrow> p = p' \<and> r = r'"
    by (simp_all add: eq)
  have "last (data_file p r) \<noteq> last (index_file p' r')" for p r p' r' by (simp add: eq)
  then show "data_file p r \<noteq> index_file p' r'" "index_file p r \<noteq> data_file p' r'" by metis+
qed

text \<open>What no operation on the files of \<open>p\<close> changes.\<close>

definition same_but ::
    "('c \<Rightarrow> 'f \<Rightarrow> string \<Rightarrow> bytes option) \<Rightarrow> 'c \<Rightarrow> string \<Rightarrow> ('c, 'f) HdfsStore \<Rightarrow> ('c, 'f) HdfsStore \<Rightarrow> bool" where
  "same_but content cl p st st' \<longleftrightarrow>
     app_remote_clients st' = app_remote_clients st \<and> partition_file_locks st' = partition_file_locks st \<and>
     partition_write_concurrency st' = partition_write_concurrency st \<and>
     (\<forall>q. q \<noteq> p \<longrightarrow> dm_get (partition_cached_meta st') q = dm_get (partition_cached_meta st) q \<and>
        (\<forall>r. content cl (remote st') (data_file q r) = content cl (remote st) (data_file q r) \<and>
             content cl (remote st') (index_file q r) = content cl (remote st) (index_file q r)))"

lemma same_but_refl [simp]: "same_but content cl p st st"
  by (simp add: same_but_def)

lemma same_but_trans: "same_but content cl p a b \<Longrightarrow> same_but content cl p b d \<Longrightarrow> same_but content cl p a d"
  by (simp add: same_but_def)

lemma task_files_frame:
  "same_but content cl p st st' \<Longrightarrow> q \<noteq> p \<Longrightarrow> task_files c content cl q bs st' = task_files c content cl q bs st"
  by (simp add: same_but_def task_files_unfold)

locale hdfs_delegator =
  fixes ops :: "('c, 'f) HdfsDelegator" and content :: "'c \<Rightarrow> 'f \<Rightarrow> string \<Rightarrow> bytes option"
  assumes touch_frame: "hd_touch ops cl p f = (f', r) \<Longrightarrow> q \<noteq> p \<Longrightarrow> content cl f' q = content cl f q"
    and touch_empty: "hd_touch ops cl p f = (f', r) \<Longrightarrow> file_bytes (content cl f p) = [] \<Longrightarrow>
      file_bytes (content cl f' p) = []"
    and append_frame: "hd_append ops cl p w f = (f', e) \<Longrightarrow> q \<noteq> p \<Longrightarrow> content cl f' q = content cl f q"
    and append_ok: "hd_append ops cl p w f = (f', Ok ()) \<Longrightarrow>
      content cl f' p = Some (file_bytes (content cl f p) @ wrapper_freeze w)"
    and append_returns: "hd_append ops cl p w f \<noteq> (f', Panic)"
    and create_dir_frame: "hd_create_dir ops cl d f = (f', r) \<Longrightarrow> content cl f' q = content cl f q"
begin

text \<open>An operation on the remote side only: the local maps stay, and the files of \<open>p\<close> as described.\<close>

lemma remote_touch:
  assumes "remote_call (hd_touch ops cl q) conv st = (st', r)"
  shows "partition_cached_meta st' = partition_cached_meta st"
    and "\<And>x. x \<noteq> q \<Longrightarrow> content cl (remote st') x = content cl (remote st) x"
    and "file_bytes (content cl (remote st) q) = [] \<Longrightarrow> file_bytes (content cl (remote st') q) = []"
    and "q = data_file p k \<or> q = index_file p k \<Longrightarrow> same_but content cl p st st'"
proof -
  obtain f x where x: "hd_touch ops cl q (remote st) = (f, x)" by fastforce
  with assms have st': "st' = st\<lparr>remote := f\<rparr>" by (auto simp: remote_call_def)
  show "partition_cached_meta st' = partition_cached_meta st" by (simp add: st')
  show "content cl (remote st') y = content cl (remote st) y" if "y \<noteq> q" for y
    using touch_frame [OF x that] by (simp add: st')
  show "file_bytes (content cl (remote st') q) = []" if "file_bytes (content cl (remote st) q) = []"
    using touch_empty [OF x that] by (simp add: st')
  show "same_but content cl p st st'" if "q = data_file p k \<or> q = index_file p k"
    using that by (elim disjE) (simp_all add: same_but_def st' touch_frame [OF x])
qed

lemma remote_append:
  assumes "remote_call (hd_append ops cl q w) (\<lambda>e. e) st = (st', r)"
  shows "partition_cached_meta st' = partition_cached_meta st" and "health st' = health st"
    and "\<And>x. x \<noteq> q \<Longrightarrow> content cl (remote st') x = content cl (remote st) x"
    and "r = Ok () \<Longrightarrow> content cl (remote st') q = Some (file_bytes (content cl (remote st) q) @ wrapper_freeze w)"
    and "q = data_file p k \<or> q = index_file p k \<Longrightarrow> same_but content cl p st st'"
proof -
  obtain f x where x: "hd_append ops cl q w (remote st) = (f, x)" by fastforce
  with assms have st': "st' = st\<lparr>remote := f\<rparr>" and r: "r = map_err (\<lambda>e. e) x" by (auto simp: remote_call_def)
  show "partition_cached_meta st' = partition_cached_meta st" "health st' = health st" by (simp_all add: st')
  show "content cl (remote st') y = content cl (remote st) y" if "y \<noteq> q" for y
    using append_frame [OF x that] by (simp add: st')
  show "content cl (remote st') q = Some (file_bytes (content cl (remote st) q) @ wrapper_freeze w)" if "r = Ok ()"
  proof -
    have "x = Ok ()" using r that by (cases x) auto
    then show ?thesis using append_ok x by (simp add: st')
  qed
  show "same_but content cl p st st'" if "q = data_file p k \<or> q = index_file p k"
    using that by (elim disjE) (simp_all add: same_but_def st' append_frame [OF x])
qed

lemma remote_create_dir:
  assumes "remote_call (hd_create_dir ops cl d) conv st = (st', r)"
  shows "partition_cached_meta st' = partition_cached_meta st"
    and "content cl (remote st') x = content cl (remote st) x" and "same_but content cl p st st'"
proof -
  obtain f y where y: "hd_create_dir ops cl d (remote st) = (f, y)" by fastforce
  with assms have st': "st' = st\<lparr>remote := f\<rparr>" by (auto simp: remote_call_def)
  show "partition_cached_meta st' = partition_cached_meta st" by (simp add: st')
  show "content cl (remote st') x = content cl (remote st) x" "same_but content cl p st st'"
    by (simp_all add: st' same_but_def create_dir_frame [OF y])
qed

lemma touch_task_files:
  assumes "remote_call (hd_touch ops cl q) conv st = (st', r)" and "task_files c content cl p [] st"
  shows "task_files c content cl p [] st'"
proof -
  note t = remote_touch(1-3) [OF assms(1)]
  have e: "file_bytes (content cl (remote st') x) = []" if "file_bytes (content cl (remote st) x) = []" for x
    using t(2,3) that by (cases "x = q") simp_all
  show ?thesis
    using assms(2) unfolding task_files_unfold t(1) payload_simps index_bytes_simps by (blast intro: e)
qed

lemma open_files_ok:
  assumes "open_files ops cl dir p st = (st', r)" and "task_files c content cl p bs st"
  shows "same_but content cl p st st' \<and> task_files c content cl p bs st' \<and> health st' = health st \<and>
    (\<forall>off k. r = Ok (off, k) \<longrightarrow>
       (\<exists>m. dm_get (partition_cached_meta st') p = Some m \<and> off = data_len m \<and> k = retry_time m))"
proof (cases "dm_get (partition_cached_meta st) p")
  case (Some m)
  then show ?thesis using assms by (auto simp: open_files_def)
next
  case None
  then have bs: "bs = []" using assms(2) by (simp add: task_files_unfold)
  obtain s1 r1 where 1: "remote_call (hd_create_dir ops cl dir) Other st = (s1, r1)" by fastforce
  obtain s2 r2 where 2: "remote_call (hd_touch ops cl (data_file p 0)) Other s1 = (s2, r2)" by fastforce
  obtain s3 r3 where 3: "remote_call (hd_touch ops cl (index_file p 0)) Other s2 = (s3, r3)" by fastforce
  have h: "health s1 = health st" "health s2 = health s1" "health s3 = health s2"
    using 1 2 3 by (auto simp: remote_call_def split: prod.splits)
  have same: "same_but content cl p st s1" "same_but content cl p s1 s2" "same_but content cl p s2 s3"
    using remote_create_dir(3) [OF 1] remote_touch(4) [OF 2, of p 0] remote_touch(4) [OF 3, of p 0] by simp_all
  have "task_files c content cl p [] s1"
    using assms(2) by (simp add: bs task_files_unfold remote_create_dir(1,2) [OF 1])
  note tf = this touch_task_files [OF 2 this] touch_task_files [OF 3 touch_task_files [OF 2 this]]
  have none: "dm_get (partition_cached_meta s3) p = None"
    using None remote_create_dir(1) [OF 1] remote_touch(1) [OF 2] remote_touch(1) [OF 3] by simp
  let ?s4 = "s3\<lparr>partition_cached_meta := dm_insert p default_handler (partition_cached_meta s3)\<rparr>"
  have s4: "same_but content cl p s3 ?s4" "task_files c content cl p [] ?s4"
    using tf(3) none by (simp_all add: same_but_def task_files_unfold dm_simps)
  consider "\<not> is_ok r1" "st' = s1" "\<not> is_ok r" | "\<not> is_ok r2" "st' = s2" "\<not> is_ok r"
    | "\<not> is_ok r3" "st' = s3" "\<not> is_ok r" | "st' = ?s4" "r = Ok (0, 0)"
    using assms(1) by (cases r1; cases r2; cases r3) (auto simp: open_files_def None 1 2 3)
  then show ?thesis
    using same s4 tf h by cases (auto simp: bs dm_simps default_handler_def intro: same_but_trans)
qed

lemma write_data_and_index_ok:
  assumes "write_data_and_index ops cl (data_file p k) dw (index_file p k) iw st = (st', r)"
  shows "same_but content cl p st st' \<and> health st' = health st \<and>
    partition_cached_meta st' = partition_cached_meta st \<and>
    (\<forall>j. j \<noteq> k \<longrightarrow> content cl (remote st') (data_file p j) = content cl (remote st) (data_file p j) \<and>
        content cl (remote st') (index_file p j) = content cl (remote st) (index_file p j)) \<and>
    (r = Ok () \<longrightarrow>
       content cl (remote st') (data_file p k) =
         Some (file_bytes (content cl (remote st) (data_file p k)) @ wrapper_freeze dw) \<and>
       content cl (remote st') (index_file p k) =
         Some (file_bytes (content cl (remote st) (index_file p k)) @ wrapper_freeze iw))"
proof -
  obtain s1 r1 where 1: "remote_call (hd_append ops cl (data_file p k) dw) (\<lambda>e. e) st = (s1, r1)" by fastforce
  obtain s2 r2 where 2: "remote_call (hd_append ops cl (index_file p k) iw) (\<lambda>e. e) s1 = (s2, r2)" by fastforce
  note a = remote_append(1-4) [OF 1] and b = remote_append(1-4) [OF 2]
  have same: "same_but content cl p st s1" "same_but content cl p s1 s2"
    using remote_append(5) [OF 1, of p k] remote_append(5) [OF 2, of p k] by simp_all
  consider "st' = s1" "r \<noteq> Ok ()" | "st' = s2" "r1 = Ok ()" "r = r2"
    using assms by (cases r1) (auto simp: write_data_and_index_def 1 2)
  then show ?thesis
  proof cases
    case 1
    then show ?thesis using same(1) by (simp add: a(1-3))
  next
    case 2
    then show ?thesis using same_but_trans [OF same] a(4) b(4) by (simp add: a(1-3) b(1-3))
  qed
qed

lemma after_failure_ok:
  assumes "after_failure ops cl p e st = (st', r)" and "dm_get (partition_cached_meta st) p = Some m"
    and "\<forall>j > retry_time m. file_bytes (content cl (remote st) (data_file p j)) = [] \<and>
          file_bytes (content cl (remote st) (index_file p j)) = []"
  shows "same_but content cl p st st' \<and> task_files c content cl p [] st' \<and> \<not> is_ok r \<and>
    health st' = (health st \<and> \<not> (\<exists>x. e = OUT_OF_MEMORY x))"
proof -
  define k where "k = retry_time m + 1"
  define s0 where "s0 = (case e of OUT_OF_MEMORY _ \<Rightarrow> st\<lparr>health := False\<rparr> | _ \<Rightarrow> st)
    \<lparr>partition_cached_meta := dm_insert p (inc_retry_time (reset_offset 0 m)) (partition_cached_meta st)\<rparr>"
  obtain s1 r1 where 1: "remote_call (hd_touch ops cl (data_file p k)) Other s0 = (s1, r1)" by fastforce
  obtain s2 r2 where 2: "remote_call (hd_touch ops cl (index_file p k)) Other s1 = (s2, r2)" by fastforce
  have s0: "same_but content cl p st s0" "task_files c content cl p [] s0"
    "health s0 = (health st \<and> \<not> (\<exists>x. e = OUT_OF_MEMORY x))"
    using assms(3) by (auto simp: same_but_def task_files_unfold dm_simps s0_def inc_retry_time_def reset_offset_def
        split: worker_error.splits)
  have same: "same_but content cl p s0 s1" "same_but content cl p s1 s2"
    using remote_touch(4) [OF 1, of p k] remote_touch(4) [OF 2, of p k] by simp_all
  have h: "health s1 = health s0" "health s2 = health s1"
    using 1 2 by (auto simp: remote_call_def split: prod.splits)
  note tf = touch_task_files [OF 1 s0(2)] touch_task_files [OF 2 touch_task_files [OF 1 s0(2)]]
  have run: "after_failure ops cl p e st =
      run_then (s1, r1) (\<lambda>_ st. run_then (remote_call (hd_touch ops cl (index_file p k)) Other st)
        (\<lambda>_ st. (st, Err (Other (Any_worker e)))))"
    using assms(2) 1 by (cases e) (simp_all add: after_failure_def Let_def s0_def k_def inc_retry_time_def reset_offset_def)
  have "st' = s1 \<and> \<not> is_ok r \<or> st' = s2 \<and> \<not> is_ok r"
    using assms(1) unfolding run by (cases r1; cases r2) (auto simp: 2)
  then show ?thesis
    using s0 same tf h by (auto intro: same_but_trans)
qed

lemma write_returns: "write_data_and_index ops cl d dw i iw st \<noteq> (st', Panic)"
proof -
  have "remote_call (hd_append ops cl q w) (\<lambda>e. e) s \<noteq> (s', Panic)" for q w s s'
    using append_returns [of cl q w "remote s"]
    by (cases "hd_append ops cl q w (remote s)"; cases "snd (hd_append ops cl q w (remote s))")
      (auto simp: remote_call_def)
  then show ?thesis
    unfolding write_data_and_index_def
    by (cases "remote_call (hd_append ops cl d dw) (\<lambda>e. e) st"; cases "snd (remote_call (hd_append ops cl d dw) (\<lambda>e. e) st)")
      auto
qed

lemma task_files_written:
  assumes tf: "task_files c content cl p old st" and m: "dm_get (partition_cached_meta st) p = Some m"
    and bs: "list_all block_ok bs" "int (length (payload (old @ bs))) < 2 ^ 63"
    and fmt: "fmt = generate_shuffle_file_format c bs (data_len m)"
    and w: "write_data_and_index ops cl (data_file p (retry_time m)) (fmt_data fmt)
       (index_file p (retry_time m)) (fmt_index fmt) st = (st', Ok ())"
  shows "task_files c content cl p (old @ bs)
    (st'\<lparr>partition_cached_meta := dm_insert p (reset_offset (fmt_offset fmt) m) (partition_cached_meta st')\<rparr>)"
proof -
  have old: "list_all block_ok old" "data_len m = int (length (payload old))"
    using tf m by (simp_all add: task_files_unfold)
  note f = write_format [OF old(1) bs, of c, folded old(2), folded fmt]
  show ?thesis
    using write_data_and_index_ok [OF w] tf m bs(1) old f
    by (simp add: task_files_unfold dm_simps reset_offset_def file_bytes_def)
qed

lemma write_with_permit_ok:
  assumes "write_with_permit c ops w uid bs i st = (st', r)"
    and "dm_get (app_remote_clients st) (app_id uid) = Some cl"
    and "task_files c content cl (with_index (file_path_prefix w uid) i) old st"
    and "list_all block_ok bs" and "int (length (payload (old @ bs))) < 2 ^ 63"
  shows "same_but content cl (with_index (file_path_prefix w uid) i) st st' \<and>
    (if r = Ok () then task_files c content cl (with_index (file_path_prefix w uid) i) (old @ bs) st'
     else task_files c content cl (with_index (file_path_prefix w uid) i) old st' \<or>
          task_files c content cl (with_index (file_path_prefix w uid) i) [] st')"
proof -
  let ?p = "with_index (file_path_prefix w uid) i"
  obtain s1 r1 where 1: "open_files ops cl (partition_dir uid) ?p st = (s1, r1)" by fastforce
  note o = open_files_ok [OF 1 assms(3)]
  show ?thesis
  proof (cases "\<exists>off k. r1 = Ok (off, k)")
    case False
    then have "st' = s1 \<and> r \<noteq> Ok ()"
      using assms(1,2) 1 by (cases r1) (auto simp: write_with_permit_def)
    with o show ?thesis by simp
  next
    case True
    then obtain m where r1: "r1 = Ok (data_len m, retry_time m)" and m: "dm_get (partition_cached_meta s1) ?p = Some m"
      using o by auto
    define fmt where "fmt = generate_shuffle_file_format c bs (data_len m)"
    obtain s2 r2 where 2: "write_data_and_index ops cl (data_file ?p (retry_time m)) (fmt_data fmt)
       (index_file ?p (retry_time m)) (fmt_index fmt) s1 = (s2, r2)" by fastforce
    note wd = write_data_and_index_ok [OF 2]
    have st1: "same_but content cl ?p st s2" using o wd by (auto intro: same_but_trans)
    have m2: "dm_get (partition_cached_meta s2) ?p = Some m" using m wd by simp
    show ?thesis
    proof (cases r2)
      case (Err e)
      then have run: "after_failure ops cl ?p e s2 = (st', r)"
        using assms(1,2) 1 2 by (simp add: write_with_permit_def r1 fmt_def Let_def)
      have "\<forall>j > retry_time m. file_bytes (content cl (remote s2) (data_file ?p j)) = [] \<and>
          file_bytes (content cl (remote s2) (index_file ?p j)) = []"
        using o wd m by (auto simp: task_files_unfold)
      from after_failure_ok [OF run m2 this, of c] show ?thesis
        using same_but_trans [OF st1] by auto
    next
      case (Ok u)
      let ?s3 = "s2\<lparr>partition_cached_meta := dm_insert ?p (reset_offset (fmt_offset fmt) m) (partition_cached_meta s2)\<rparr>"
      have "st' = ?s3" "r = Ok ()"
        using assms(1,2) 1 2 m2 Ok by (simp_all add: write_with_permit_def r1 fmt_def Let_def)
      moreover have "same_but content cl ?p s2 ?s3" by (simp add: same_but_def dm_simps)
      ultimately show ?thesis
        using task_files_written [OF _ m assms(4,5) fmt_def, of cl s2] o 2 Ok same_but_trans [OF st1] by simp
    qed (use 2 write_returns in blast)
  qed
qed

end

section \<open>A file system in memory\<close>

text \<open>
  Files by path, and what becomes of the next appends: \<open>None\<close> is success, \<open>Some e\<close> leaves half of the
  bytes behind and fails with \<open>e\<close>; once the list is used up every append succeeds.
\<close>

record mem_hdfs =
  mem_files :: "(string, bytes) dmap"
  mem_faults :: "worker_error option list"

definition mem_touch :: "unit \<Rightarrow> string \<Rightarrow> mem_hdfs \<Rightarrow> mem_hdfs \<times> (unit, anyhow) outcome" where
  "mem_touch cl p f =
     (case dm_get (mem_files f) p of
        None \<Rightarrow> (f\<lparr>mem_files := dm_insert p [] (mem_files f)\<rparr>, Ok ())
      | Some _ \<Rightarrow> (f, Err (Any_message ''file exists'')))"

definition mem_append :: "unit \<Rightarrow> string \<Rightarrow> BytesWrapper \<Rightarrow> mem_hdfs \<Rightarrow> mem_hdfs \<times> (unit, worker_error) outcome" where
  "mem_append cl p w f =
     (case dm_get (mem_files f) p of
        None \<Rightarrow> (f, Err (HDFS_IO_ERROR p (Any_message ''no such file'')))
      | Some old \<Rightarrow>
          (case mem_faults f of
             Some e # fs \<Rightarrow>
               (f\<lparr>mem_files := dm_insert p (old @ take (length (wrapper_freeze w) div 2) (wrapper_freeze w)) (mem_files f),
                  mem_faults := fs\<rparr>, Err e)
           | fs \<Rightarrow> (f\<lparr>mem_files := dm_insert p (old @ wrapper_freeze w) (mem_files f), mem_faults := tl fs\<rparr>, Ok ())))"

definition mem_delete_dir :: "unit \<Rightarrow> string \<Rightarrow> mem_hdfs \<Rightarrow> mem_hdfs \<times> (unit, anyhow) outcome" where
  "mem_delete_dir cl d f = (f\<lparr>mem_files := filter (\<lambda>e. \<not> starts_with (fst e) d) (mem_files f)\<rparr>, Ok ())"

definition mem_ops :: "(unit, mem_hdfs) HdfsDelegator" where
  "mem_ops = \<lparr>hd_touch = mem_touch, hd_append = mem_append, hd_create_dir = (\<lambda>cl d f. (f, Ok ())),
     hd_delete_dir = mem_delete_dir, hd_connect = (\<lambda>r conf. Ok ())\<rparr>"

definition mem_content :: "unit \<Rightarrow> mem_hdfs \<Rightarrow> string \<Rightarrow> bytes option" where
  "mem_content cl f p = dm_get (mem_files f) p"

interpretation mem: hdfs_delegator mem_ops mem_content
proof
  fix cl p f f' q and r :: "(unit, anyhow) outcome"
  assume "hd_touch mem_ops cl p f = (f', r)"
  then have t: "mem_touch cl p f = (f', r)" by (simp add: mem_ops_def)
  show "mem_content cl f' q = mem_content cl f q" if "q \<noteq> p"
    using t that by (auto simp: mem_touch_def mem_content_def dm_simps split: option.splits)
  show "file_bytes (mem_content cl f' p) = []" if "file_bytes (mem_content cl f p) = []"
    using t that by (auto simp: mem_touch_def mem_content_def file_bytes_def dm_simps split: option.splits)
next
  fix cl p w f f' q and e :: "(unit, worker_error) outcome"
  show "mem_content cl f' q = mem_content cl f q" if "hd_append mem_ops cl p w f = (f', e)" "q \<noteq> p"
    using that by (auto simp: mem_ops_def mem_append_def mem_content_def dm_simps split: option.splits list.splits)
  show "mem_content cl f' p = Some (file_bytes (mem_content cl f p) @ wrapper_freeze w)"
    if "hd_append mem_ops cl p w f = (f', Ok ())"
    using that
    by (auto simp: mem_ops_def mem_append_def mem_content_def file_bytes_def dm_simps split: option.splits list.splits)
  show "hd_append mem_ops cl p w f \<noteq> (f', Panic)"
    by (auto simp: mem_ops_def mem_append_def split: option.splits list.splits)
next
  show "mem_content cl f' q = mem_content cl f q" if "hd_create_dir mem_ops cl d f = (f', r)" for cl d f f' r q
    using that by (simp add: mem_ops_def)
qed

definition sample_uid :: PartitionedUId where
  "sample_uid = \<lparr>app_id = ''app'', shuffle_id = 1, partition_id = 2\<rparr>"

definition sample_hdfs :: "worker_error option list \<Rightarrow> (unit, mem_hdfs) HdfsStore" where
  "sample_hdfs faults = (hdfs_from 2 \<lparr>mem_files = [], mem_faults = faults\<rparr>)\<lparr>app_remote_clients := [(''app'', ())]\<rparr>"

lemma task_files_sample: "task_files c mem_content () p [] (sample_hdfs faults)"
  by (simp add: task_files_unfold sample_hdfs_def hdfs_from_def default_handler_def mem_content_def file_bytes_def)

lemma remote_call_health [simp]: "health (fst (remote_call g conv st)) = health st"
  by (simp add: remote_call_def split: prod.splits)

lemma after_failure_oom: "\<not> health (fst (after_failure ops cl p (OUT_OF_MEMORY x) st))"
proof (cases "dm_get (partition_cached_meta st) p")
  case (Some m)
  then show ?thesis
    unfolding after_failure_def Let_def
    by simp (intro run_then_keeps [where P = "\<lambda>s. \<not> health s"]; simp)
qed (simp add: after_failure_def)

section \<open>Properties\<close>



text \<open>
  A store that has run out of memory stays out of service: the write that meets the error marks it unhealthy,
  and every later insert is refused with \<open>HDFS_UNHEALTHY\<close> and changes nothing, so that the caller
  can pick another store.
\<close>

theorem hdfs_oom_takes_out_of_service:
  assumes "dm_get (app_remote_clients st) (app_id uid) = Some cl"
    and "p = with_index (file_path_prefix w uid) i" and "dm_get (partition_cached_meta st) p = Some m"
    and "hd_append ops cl (data_file p (retry_time m))
      (fmt_data (generate_shuffle_file_format c bs (data_len m))) (remote st) = (f, Err (OUT_OF_MEMORY x))"
  shows "let st' = fst (write_with_permit c ops w uid bs i st)
    in \<not> hdfs_is_healthy st' \<and> hdfs_data_insert c ops w' uid' bs' st' = (st', Err HDFS_UNHEALTHY)"
proof -
  have "\<not> health (fst (write_with_permit c ops w uid bs i st))"
    using assms after_failure_oom
    by (simp add: write_with_permit_def open_files_def write_data_and_index_def remote_call_def Let_def)
  then show ?thesis
    by (simp add: Let_def hdfs_is_healthy_def hdfs_data_insert_def)
qed

theorem hdfs_oom_takes_out_of_service_witness:
  "let st0 = fst (write_with_permit be_codec mem_ops ''w'' sample_uid [sample_block 1 3] 0
          (sample_hdfs [None, None, Some (OUT_OF_MEMORY Any_io)]));
       st' = fst (write_with_permit be_codec mem_ops ''w'' sample_uid [sample_block 2 2] 0 st0)
   in hdfs_is_healthy st0 \<and>
      hdfs_data_insert be_codec mem_ops ''w'' sample_uid [sample_block 2 2] st' = (st', Err HDFS_UNHEALTHY)"
proof -
  let ?st0 = "fst (write_with_permit be_codec mem_ops ''w'' sample_uid [sample_block 1 3] 0
          (sample_hdfs [None, None, Some (OUT_OF_MEMORY Any_io)]))"
  let ?p = "with_index (file_path_prefix ''w'' sample_uid) 0"
  let ?m = "\<lparr>is_file_created = True, data_len = 3, retry_time = 0\<rparr>"
  let ?a = "hd_append mem_ops () (data_file ?p (retry_time ?m))
      (fmt_data (generate_shuffle_file_format be_codec [sample_block 2 2] (data_len ?m))) (remote ?st0)"
  have ev: "dm_get (app_remote_clients ?st0) (app_id sample_uid) = Some ()"
    "dm_get (partition_cached_meta ?st0) ?p = Some ?m" "snd ?a = Err (OUT_OF_MEMORY Any_io)" "hdfs_is_healthy ?st0"
    by code_simp+
  have a: "?a = (fst ?a, Err (OUT_OF_MEMORY Any_io))" using ev(3) by (simp add: prod_eq_iff)
  show ?thesis
    using hdfs_oom_takes_out_of_service [OF ev(1) refl ev(2) a, of "''w''" sample_uid "[sample_block 2 2]"] ev(4)
    by (simp add: Let_def)
qed

lemma slash_prefix:
  assumes "CHR ''/'' \<notin> set a" and "CHR ''/'' \<notin> set b" and "starts_with (b @ CHR ''/'' # s) (a @ ''/'')"
  shows "a = b"
proof -
  obtain t where "b @ CHR ''/'' # s = a @ CHR ''/'' # t"
    using assms(3) by (auto simp: starts_with_split)
  from arg_cong [OF this, of "\<lambda>x. hd (split_on (CHR ''/'') x)"] show ?thesis
    unfolding split_on_append [OF assms(1)] split_on_append [OF assms(2)] by simp
qed

text \<open>
  Purging an application forgets everything of it and nothing else: its client, its locks and the cached handlers
  of its partitions are gone, inserts for it are refused from then on, the bytes reported are those of the dropped
  handlers, and the lock and the handlers of any partition of another application are as before.
\<close>

lemma hdfs_purge_app_exact:
  fixes ops :: "('c, 'f) HdfsDelegator"
  assumes "dm_get (app_remote_clients st) a = Some cl" and "dm_ok (partition_file_locks st)"
    and "dm_ok (partition_cached_meta st)" and "CHR ''/'' \<notin> set a"
  defines "st' \<equiv> fst (hdfs_purge ops \<lparr>p_app_id = a, p_shuffle_id = None\<rparr> st)"
    and "n \<equiv> partition_write_concurrency st"
  shows "dm_get (app_remote_clients st') a = None \<and>
    (\<forall>w uid bs i. app_id uid = a \<longrightarrow> snd (write_with_permit c ops w uid bs i st') = Err APP_HAS_BEEN_PURGED) \<and>
    (\<forall>w uid. app_id uid = a \<longrightarrow> dm_get (partition_file_locks st') (file_path_prefix w uid) = None) \<and>
    (\<forall>w uid i. app_id uid = a \<and> i < n \<and> dm_get (partition_file_locks st) (file_path_prefix w uid) \<noteq> None \<longrightarrow>
       dm_get (partition_cached_meta st') (with_index (file_path_prefix w uid) i) = None) \<and>
    (\<forall>w uid i. app_id uid \<noteq> a \<and> CHR ''/'' \<notin> set (app_id uid) \<longrightarrow>
       dm_get (partition_file_locks st') (file_path_prefix w uid) = dm_get (partition_file_locks st) (file_path_prefix w uid) \<and>
       dm_get (partition_cached_meta st') (with_index (file_path_prefix w uid) i) =
         dm_get (partition_cached_meta st) (with_index (file_path_prefix w uid) i)) \<and>
    (\<forall>x. snd (hdfs_purge ops \<lparr>p_app_id = a, p_shuffle_id = None\<rparr> st) = Ok x \<longrightarrow>
       i64 x = i64 (weight data_len (partition_cached_meta st) - weight data_len (partition_cached_meta st')))"
proof -
  define ks where "ks = map fst (filter (\<lambda>e. starts_with (fst e) (get_app_dir a)) (partition_file_locks st))"
  define md where "md = dm_drain data_len (meta_keys n ks) (partition_cached_meta st) 0"
  have st': "app_remote_clients st' = dm_remove a (app_remote_clients st)"
    "partition_file_locks st' = filter (\<lambda>e. fst e \<notin> set ks) (partition_file_locks st)"
    "partition_cached_meta st' = filter (\<lambda>e. fst e \<notin> set (meta_keys n ks)) (partition_cached_meta st)"
    "partition_cached_meta st' = fst md"
    using assms(1)
    by (auto simp: st'_def hdfs_purge_def Let_def ks_def n_def md_def split_beta dm_drain_map filter_empty_conv
        intro!: filter_True [symmetric])
  have size: "x = snd md" if "snd (hdfs_purge ops \<lparr>p_app_id = a, p_shuffle_id = None\<rparr> st) = Ok x" for x
    using that assms(1)
    by (auto simp: hdfs_purge_def Let_def ks_def n_def md_def split_beta and_then_eq_Ok split: if_splits)
  have prefix: "file_path_prefix w uid = app_id uid @ CHR ''/'' # drop (Suc (length (app_id uid))) (file_path_prefix w uid)" for w uid
    by (simp add: file_path_prefix_def partition_dir_def)
  have own: "starts_with (file_path_prefix w uid) (get_app_dir a)" if "app_id uid = a" for w uid
    using that by (simp add: file_path_prefix_def partition_dir_def get_app_dir_def starts_with_def)
  have other: "file_path_prefix w uid \<notin> set ks" if "app_id uid \<noteq> a" "CHR ''/'' \<notin> set (app_id uid)" for w uid
  proof
    assume "file_path_prefix w uid \<in> set ks"
    then have "starts_with (file_path_prefix w uid) (a @ ''/'')" by (auto simp: ks_def get_app_dir_def)
    with slash_prefix [OF assms(4) that(2)] prefix [of w uid] that(1) show False by metis
  qed
  have keys: "with_index (file_path_prefix w uid) i \<in> set (meta_keys n ks) \<longleftrightarrow> file_path_prefix w uid \<in> set ks \<and> i < n" for w uid i
    by (force simp: meta_keys_def)
  have "dm_get (partition_file_locks st') (file_path_prefix w uid) = None" if "app_id uid = a" for w uid
    using own [OF that, of w]
    by (auto simp: st'(2) dm_get_filter_out ks_def image_iff map_of_eq_None_iff)
  moreover have "file_path_prefix w uid \<in> set ks"
    if "app_id uid = a" "dm_get (partition_file_locks st) (file_path_prefix w uid) \<noteq> None" for w uid
    using own [OF that(1), of w] that(2) by (force simp: ks_def dest: map_of_SomeD)
  moreover have "\<forall>x. snd (hdfs_purge ops \<lparr>p_app_id = a, p_shuffle_id = None\<rparr> st) = Ok x \<longrightarrow>
      i64 x = i64 (weight data_len (partition_cached_meta st) - weight data_len (partition_cached_meta st'))"
    using dm_drain_sum [OF assms(3), of data_len "meta_keys n ks" 0] by (auto dest!: size simp: st'(4) md_def)
  ultimately show ?thesis
    using other by (simp add: st'(1) st'(2,3) dm_get_filter_out keys write_with_permit_def Let_def delete_conv')
qed

lemma hdfs_purge_app_exact_witness:
  "let st = fst (hdfs_data_insert be_codec mem_ops ''w'' sample_uid [sample_block 1 3] (sample_hdfs []));
       uid = \<lparr>app_id = ''app2'', shuffle_id = 1, partition_id = 2\<rparr>;
       st1 = st\<lparr>app_remote_clients := [(''app'', ()), (''app2'', ())]\<rparr>;
       st2 = fst (hdfs_data_insert be_codec mem_ops ''w'' uid [sample_block 2 2] st1);
       st' = fst (hdfs_purge mem_ops \<lparr>p_app_id = ''app'', p_shuffle_id = None\<rparr> st2)
   in snd (write_with_permit be_codec mem_ops ''w'' sample_uid [sample_block 1 3] 0 st') = Err APP_HAS_BEEN_PURGED \<and>
      dm_get (partition_cached_meta st') (with_index (file_path_prefix ''w'' uid) 0) =
        Some \<lparr>is_file_created = True, data_len = 2, retry_time = 0\<rparr> \<and>
      snd (hdfs_purge mem_ops \<lparr>p_app_id = ''app'', p_shuffle_id = None\<rparr> st2) = Ok 3"
proof -
  let ?st = "fst (hdfs_data_insert be_codec mem_ops ''w'' sample_uid [sample_block 1 3] (sample_hdfs []))"
  let ?uid = "\<lparr>app_id = ''app2'', shuffle_id = 1, partition_id = 2\<rparr>"
  let ?st2 = "fst (hdfs_data_insert be_codec mem_ops ''w'' ?uid [sample_block 2 2]
    (?st\<lparr>app_remote_clients := [(''app'', ()), (''app2'', ())]\<rparr>))"
  have ev: "dm_get (app_remote_clients ?st2) ''app'' = Some ()" "dm_ok (partition_file_locks ?st2)"
      "dm_ok (partition_cached_meta ?st2)" "CHR ''/'' \<notin> set ''app''"
      "dm_get (partition_cached_meta ?st2) (with_index (file_path_prefix ''w'' ?uid) 0) =
        Some \<lparr>is_file_created = True, data_len = 2, retry_time = 0\<rparr>"
      "snd (hdfs_purge mem_ops \<lparr>p_app_id = ''app'', p_shuffle_id = None\<rparr> ?st2) = Ok 3"
      "app_id sample_uid = ''app'' \<and> app_id ?uid \<noteq> ''app'' \<and> CHR ''/'' \<notin> set (app_id ?uid)"
    by code_simp+
  note p = hdfs_purge_app_exact [OF ev(1-4), of mem_ops be_codec]
  from p have "snd (write_with_permit be_codec mem_ops ''w'' sample_uid [sample_block 1 3] 0
      (fst (hdfs_purge mem_ops \<lparr>p_app_id = ''app'', p_shuffle_id = None\<rparr> ?st2))) = Err APP_HAS_BEEN_PURGED"
    using ev(7) by blast
  moreover from p ev(7) have "dm_get (partition_cached_meta (fst (hdfs_purge mem_ops \<lparr>p_app_id = ''app'', p_shuffle_id = None\<rparr> ?st2)))
      (with_index (file_path_prefix ''w'' ?uid) 0) = dm_get (partition_cached_meta ?st2) (with_index (file_path_prefix ''w'' ?uid) 0)"
    by blast
  ultimately show ?thesis using ev(5,6) by (simp add: Let_def)
qed

end
