(* ===== verification/App_Meta.thy ===== *)
theory App_Meta
  imports Worker_Types Hdfs
begin

text \<open>
  What the server keeps about an application apart from its data: \<open>App\<close> and \<open>PartitionedMeta\<close> of
  \<^verbatim>\<open>app.rs\<close>, with the operations that do not call the store (those that do are in \<open>App_Manager\<close>).

  The bitmap of reported blocks is a \<open>croaring::Treemap\<close>, code of another project: its operations are
  arguments, and the locale \<open>treemap\<close> says that it is a set of 64-bit numbers.  The clock is an argument.
\<close>

section \<open>Bitmaps\<close>

record 't Treemap =
  tm_default :: 't
  tm_add :: "int \<Rightarrow> 't \<Rightarrow> 't"
  tm_contains :: "'t \<Rightarrow> int \<Rightarrow> bool"
  tm_iter :: "'t \<Rightarrow> int list"
  tm_serialize :: "'t \<Rightarrow> (bytes, anyhow) outcome"
  tm_deserialize :: "bytes \<Rightarrow> ('t, anyhow) outcome"

section \<open>State\<close>

datatype DataDistribution = NORMAL | LOCAL_ORDER

record AppConfigOptions =
  data_distribution :: DataDistribution
  max_concurrency_per_partition_to_write :: int
  remote_storage_config_option :: "RemoteStorageConfig option"

definition default_app_options :: AppConfigOptions where
  "default_app_options = \<lparr>data_distribution = LOCAL_ORDER, max_concurrency_per_partition_to_write = 20,
     remote_storage_config_option = None\<rparr>"

record 't PartitionedMeta =
  blocks_bitmap :: 't
  pm_total_size :: int
  pm_is_huge_partition :: bool

record 't App =
  a_app_id :: string
  app_config_options :: AppConfigOptions
  latest_heartbeat_time :: int
  bitmap_of_blocks :: "(int \<times> int, 't PartitionedMeta) dmap"
  huge_partition_marked_threshold :: "int option"
  huge_partition_memory_max_available_size :: "int option"
  total_received_data_size :: int
  total_resident_data_size :: int
  huge_partition_number :: int
  registry_timestamp :: int

section \<open>Partitions\<close>

definition new_meta :: "'t Treemap \<Rightarrow> 't PartitionedMeta" where
  "new_meta tm = \<lparr>blocks_bitmap = tm_default tm, pm_total_size = 0, pm_is_huge_partition = False\<rparr>"

definition get_size :: "'t PartitionedMeta \<Rightarrow> int" where
  "get_size m = pm_total_size m"

definition inc_size :: "int \<Rightarrow> 't PartitionedMeta \<Rightarrow> 't PartitionedMeta" where
  "inc_size data_size m = m\<lparr>pm_total_size := u64 (pm_total_size m + u64 data_size)\<rparr>"

definition meta_get_block_ids :: "'t Treemap \<Rightarrow> 't PartitionedMeta \<Rightarrow> (bytes, anyhow) outcome" where
  "meta_get_block_ids tm m = tm_serialize tm (blocks_bitmap m)"

definition meta_report_block_ids :: "'t Treemap \<Rightarrow> int list \<Rightarrow> 't PartitionedMeta \<Rightarrow> 't PartitionedMeta" where
  "meta_report_block_ids tm ids m = m\<lparr>blocks_bitmap := fold (\<lambda>i t. tm_add tm (u64 i) t) ids (blocks_bitmap m)\<rparr>"

definition mark_as_huge_partition :: "'t PartitionedMeta \<Rightarrow> 't PartitionedMeta" where
  "mark_as_huge_partition m = m\<lparr>pm_is_huge_partition := True\<rparr>"

section \<open>Operations\<close>

definition partition_number :: "'t App \<Rightarrow> int" where
  "partition_number a = int (length (bitmap_of_blocks a))"

definition app_heartbeat :: "int \<Rightarrow> 't App \<Rightarrow> 't App" where
  "app_heartbeat now a = a\<lparr>latest_heartbeat_time := now\<rparr>"

definition register_shuffle :: "int \<Rightarrow> int \<Rightarrow> 't App \<Rightarrow> 't App" where
  "register_shuffle now s a = app_heartbeat now a"

definition meta_key :: "PartitionedUId \<Rightarrow> int \<times> int" where
  "meta_key uid = (shuffle_id uid, partition_id uid)"

text \<open>The entry is created if there is none; a meta is shared by reference, so its updates are written back.\<close>

definition get_partition_meta :: "'t Treemap \<Rightarrow> PartitionedUId \<Rightarrow> 't App \<Rightarrow> 't App \<times> 't PartitionedMeta" where
  "get_partition_meta tm uid a =
     (case dm_get (bitmap_of_blocks a) (meta_key uid) of
        Some m \<Rightarrow> (a, m)
      | None \<Rightarrow> (a\<lparr>bitmap_of_blocks := dm_insert (meta_key uid) (new_meta tm) (bitmap_of_blocks a)\<rparr>, new_meta tm))"

definition put_meta :: "PartitionedUId \<Rightarrow> 't PartitionedMeta \<Rightarrow> 't App \<Rightarrow> 't App" where
  "put_meta uid m a = a\<lparr>bitmap_of_blocks := dm_insert (meta_key uid) m (bitmap_of_blocks a)\<rparr>"

definition add_huge_partition_metric :: "'t App \<Rightarrow> 't App" where
  "add_huge_partition_metric a = a\<lparr>huge_partition_number := u64 (huge_partition_number a + 1)\<rparr>"

definition is_huge_partition :: "'t Treemap \<Rightarrow> PartitionedUId \<Rightarrow> 't App \<Rightarrow> 't App \<times> bool" where
  "is_huge_partition tm uid a =
     (case (huge_partition_marked_threshold a, huge_partition_memory_max_available_size a) of
        (Some huge_partition_threshold, Some _) \<Rightarrow>
          let (a, m) = get_partition_meta tm uid a
          in if pm_is_huge_partition m then (a, True)
             else if get_size m > huge_partition_threshold
                  then (add_huge_partition_metric (put_meta uid (mark_as_huge_partition m) a), True)
                  else (a, False)
      | _ \<Rightarrow> (a, False))"

definition inc_partition_size :: "'t Treemap \<Rightarrow> PartitionedUId \<Rightarrow> int \<Rightarrow> 't App \<Rightarrow> 't App" where
  "inc_partition_size tm uid sz a =
     (let (a, m) = get_partition_meta tm uid a in put_meta uid (inc_size (i32 sz) m) a)"

definition get_block_ids :: "'t Treemap \<Rightarrow> PartitionedUId \<Rightarrow> 't App \<Rightarrow> 't App \<times> (bytes, anyhow) outcome" where
  "get_block_ids tm uid a =
     (let (a, m) = get_partition_meta tm uid a in (a, meta_get_block_ids tm m))"

definition get_block_ids_bitmap :: "'t Treemap \<Rightarrow> PartitionedUId \<Rightarrow> 't App \<Rightarrow> 't App \<times> 't" where
  "get_block_ids_bitmap tm uid a =
     (let (a, m) = get_partition_meta tm uid a in (a, blocks_bitmap m))"

definition report_block_ids :: "'t Treemap \<Rightarrow> int \<Rightarrow> PartitionedUId \<Rightarrow> int list \<Rightarrow> 't App \<Rightarrow> 't App" where
  "report_block_ids tm now uid ids a =
     (let (a, m) = get_partition_meta tm uid (app_heartbeat now a)
      in put_meta uid (meta_report_block_ids tm ids m) a)"

section \<open>Bitmaps are sets\<close>

locale treemap =
  fixes tm :: "'t Treemap"
  assumes default_contains: "\<not> tm_contains tm (tm_default tm) i"
    and add_contains: "tm_contains tm (tm_add tm i t) j \<longleftrightarrow> i = j \<or> tm_contains tm t j"
    and iter_contains: "j \<in> set (tm_iter tm t) \<longleftrightarrow> tm_contains tm t j"
begin

lemma fold_add_contains:
  "tm_contains tm (fold (\<lambda>i t. tm_add tm (u64 i) t) ids t) j \<longleftrightarrow> j \<in> u64 ` set ids \<or> tm_contains tm t j"
  by (induction ids arbitrary: t) (auto simp: add_contains)

lemma fold_union_contains:
  "tm_contains tm (fold (tm_add tm) ids t) j \<longleftrightarrow> j \<in> set ids \<or> tm_contains tm t j"
  by (induction ids arbitrary: t) (auto simp: add_contains)

end

text \<open>A bitmap as the list of its members, eight bytes each when serialized.\<close>

definition list_treemap :: "int list Treemap" where
  "list_treemap = \<lparr>tm_default = [], tm_add = (\<lambda>i t. if i \<in> set t then t else i # t), tm_contains = (\<lambda>t i. i \<in> set t),
     tm_iter = (\<lambda>t. t), tm_serialize = (\<lambda>t. Ok (concat (map (put_i64 be_codec) t))),
     tm_deserialize = (\<lambda>bs. if 8 dvd length bs
       then Ok (map (\<lambda>k. u64 (take_i64 be_codec (take 8 (drop (8 * k) bs)))) [0..<length bs div 8])
       else Err (Any_message ''bitmap''))\<rparr>"

interpretation list_tm: treemap list_treemap
  by unfold_locales (auto simp: list_treemap_def)

section \<open>Invariant\<close>

definition huge_count :: "'t App \<Rightarrow> int" where
  "huge_count a = weight (\<lambda>m. if pm_is_huge_partition m then 1 else 0) (bitmap_of_blocks a)"

definition app_inv :: "'t App \<Rightarrow> bool" where
  "app_inv a \<longleftrightarrow> dm_ok (bitmap_of_blocks a) \<and> huge_partition_number a = u64 (huge_count a)"

definition meta_of :: "'t Treemap \<Rightarrow> PartitionedUId \<Rightarrow> 't App \<Rightarrow> 't PartitionedMeta" where
  "meta_of tm uid a = (case dm_get (bitmap_of_blocks a) (meta_key uid) of Some m \<Rightarrow> m | None \<Rightarrow> new_meta tm)"

lemma get_partition_metaE:
  obtains a' where "get_partition_meta tm uid a = (a', meta_of tm uid a)" and "\<And>v. meta_of tm v a' = meta_of tm v a"
    and "app_inv a \<Longrightarrow> app_inv a'"
    and "huge_partition_marked_threshold a' = huge_partition_marked_threshold a"
    and "huge_partition_memory_max_available_size a' = huge_partition_memory_max_available_size a"
proof (rule that)
  let ?a = "fst (get_partition_meta tm uid a)"
  show "get_partition_meta tm uid a = (?a, meta_of tm uid a)"
    by (simp add: get_partition_meta_def meta_of_def split: option.splits)
  show "meta_of tm v ?a = meta_of tm v a" for v
    by (auto simp: get_partition_meta_def meta_of_def dm_simps split: option.splits)
  show "app_inv ?a" if "app_inv a"
    using that by (auto simp: get_partition_meta_def app_inv_def huge_count_def dm.weight_put new_meta_def split: option.splits)
qed (simp_all add: get_partition_meta_def split: option.splits)

lemma meta_of_put: "meta_of tm v (put_meta uid m a) = (if meta_key v = meta_key uid then m else meta_of tm v a)"
  by (simp add: meta_of_def put_meta_def dm_simps)

lemma huge_count_put:
  "dm_ok (bitmap_of_blocks a) \<Longrightarrow> huge_count (put_meta uid m a) =
     huge_count a - (if pm_is_huge_partition (meta_of tm uid a) then 1 else 0) + (if pm_is_huge_partition m then 1 else 0)"
  by (auto simp: huge_count_def put_meta_def dm.weight_put meta_of_def new_meta_def split: option.splits)

lemma app_inv_put:
  "app_inv a \<Longrightarrow> pm_is_huge_partition m = pm_is_huge_partition (meta_of tm uid a) \<Longrightarrow> app_inv (put_meta uid m a)"
  using huge_count_put [of a uid m tm] by (auto simp: app_inv_def put_meta_def)

lemma app_inv_mark:
  assumes "app_inv a" and "\<not> pm_is_huge_partition (meta_of tm uid a)"
  shows "app_inv (add_huge_partition_metric (put_meta uid (mark_as_huge_partition m) a))"
  using huge_count_put [of a uid "mark_as_huge_partition m" tm] assms
  by (auto simp: app_inv_def put_meta_def mark_as_huge_partition_def add_huge_partition_metric_def huge_count_def)

lemma is_huge_partition_spec:
  assumes "huge_partition_marked_threshold a = Some t" and "huge_partition_memory_max_available_size a = Some mx"
  shows "snd (is_huge_partition tm uid a) \<longleftrightarrow> pm_is_huge_partition (meta_of tm uid a) \<or> t < pm_total_size (meta_of tm uid a)"
    and "meta_of tm v (fst (is_huge_partition tm uid a)) = (let m = meta_of tm v a in
       if meta_key v = meta_key uid \<and> snd (is_huge_partition tm uid a) then m\<lparr>pm_is_huge_partition := True\<rparr> else m)"
    and "app_inv a \<Longrightarrow> app_inv (fst (is_huge_partition tm uid a))"
proof -
  obtain a' where a': "get_partition_meta tm uid a = (a', meta_of tm uid a)" "\<And>v. meta_of tm v a' = meta_of tm v a"
      "app_inv a \<Longrightarrow> app_inv a'"
    by (rule get_partition_metaE [of tm uid a]; blast)
  have same: "meta_of tm v a = meta_of tm uid a" if "meta_key v = meta_key uid"
    using that by (simp add: meta_of_def)
  show "snd (is_huge_partition tm uid a) \<longleftrightarrow> pm_is_huge_partition (meta_of tm uid a) \<or> t < pm_total_size (meta_of tm uid a)"
    using assms by (simp add: is_huge_partition_def a'(1) get_size_def)
  show "meta_of tm v (fst (is_huge_partition tm uid a)) = (let m = meta_of tm v a in
       if meta_key v = meta_key uid \<and> snd (is_huge_partition tm uid a) then m\<lparr>pm_is_huge_partition := True\<rparr> else m)"
    using assms a' same
    by (auto simp: is_huge_partition_def get_size_def Let_def add_huge_partition_metric_def mark_as_huge_partition_def
        meta_of_put [unfolded put_meta_def] put_meta_def meta_of_def dm_simps)
  show "app_inv (fst (is_huge_partition tm uid a))" if "app_inv a"
    using assms a' that app_inv_mark [of a' tm uid "meta_of tm uid a"] by (simp add: is_huge_partition_def get_size_def)
qed

lemma huge_count_is_huge:
  assumes "app_inv a" and "huge_partition_marked_threshold a = Some t" and "huge_partition_memory_max_available_size a = Some mx"
    and "\<not> pm_is_huge_partition (meta_of tm uid a)"
  shows "huge_count (fst (is_huge_partition tm uid a)) =
    huge_count a + (if t < pm_total_size (meta_of tm uid a) then 1 else 0)"
proof -
  obtain b where b: "get_partition_meta tm uid a = (b, meta_of tm uid a)" "\<And>v. meta_of tm v b = meta_of tm v a"
      "app_inv a \<Longrightarrow> app_inv b"
    by (rule get_partition_metaE [of tm uid a]; blast)
  have c: "huge_count b = huge_count a"
    using b(1) assms(1,4) by (auto simp: get_partition_meta_def huge_count_def app_inv_def dm.weight_put new_meta_def split: option.splits)
  have "huge_count (put_meta uid (mark_as_huge_partition (meta_of tm uid a)) b) = huge_count b + 1"
    using huge_count_put [of b uid "mark_as_huge_partition (meta_of tm uid a)" tm] b assms(1,4)
    by (simp add: app_inv_def mark_as_huge_partition_def)
  then show ?thesis
    using assms b c by (auto simp: is_huge_partition_def get_size_def add_huge_partition_metric_def huge_count_def)
qed

lemma inc_partition_size_spec:
  "meta_of tm v (inc_partition_size tm uid sz a) =
     (if meta_key v = meta_key uid then inc_size (i32 sz) (meta_of tm uid a) else meta_of tm v a)"
  "app_inv a \<Longrightarrow> app_inv (inc_partition_size tm uid sz a)"
  "huge_partition_marked_threshold (inc_partition_size tm uid sz a) = huge_partition_marked_threshold a"
  "huge_partition_memory_max_available_size (inc_partition_size tm uid sz a) = huge_partition_memory_max_available_size a"
proof -
  obtain a' where a': "get_partition_meta tm uid a = (a', meta_of tm uid a)" "\<And>v. meta_of tm v a' = meta_of tm v a"
      "app_inv a \<Longrightarrow> app_inv a'" "huge_partition_marked_threshold a' = huge_partition_marked_threshold a"
      "huge_partition_memory_max_available_size a' = huge_partition_memory_max_available_size a"
    by (rule get_partition_metaE [of tm uid a]; blast)
  show "meta_of tm v (inc_partition_size tm uid sz a) =
     (if meta_key v = meta_key uid then inc_size (i32 sz) (meta_of tm uid a) else meta_of tm v a)"
    by (simp add: inc_partition_size_def a' meta_of_put)
  show "app_inv a \<Longrightarrow> app_inv (inc_partition_size tm uid sz a)"
    using app_inv_put [of a' _ tm uid] by (simp add: inc_partition_size_def a' inc_size_def)
  show "huge_partition_marked_threshold (inc_partition_size tm uid sz a) = huge_partition_marked_threshold a"
    "huge_partition_memory_max_available_size (inc_partition_size tm uid sz a) = huge_partition_memory_max_available_size a"
    by (simp_all add: inc_partition_size_def a' put_meta_def)
qed

section \<open>Properties\<close>

definition received :: "'t Treemap \<Rightarrow> PartitionedUId \<Rightarrow> int list \<Rightarrow> 't App \<Rightarrow> 't App" where
  "received tm uid szs a = fold (inc_partition_size tm uid) szs a"

lemma received_spec:
  assumes "list_all (\<lambda>sz. 0 \<le> sz \<and> sz < 2 ^ 31) szs" and "0 \<le> pm_total_size (meta_of tm uid a)"
    and "pm_total_size (meta_of tm uid a) + sum_list szs < 2 ^ 64" and "app_inv a"
  shows "pm_total_size (meta_of tm uid (received tm uid szs a)) = pm_total_size (meta_of tm uid a) + sum_list szs \<and>
    pm_is_huge_partition (meta_of tm uid (received tm uid szs a)) = pm_is_huge_partition (meta_of tm uid a) \<and>
    app_inv (received tm uid szs a) \<and>
    huge_partition_marked_threshold (received tm uid szs a) = huge_partition_marked_threshold a \<and>
    huge_partition_memory_max_available_size (received tm uid szs a) = huge_partition_memory_max_available_size a"
  using assms
proof (induction szs arbitrary: a)
  case (Cons z szs)
  have rest: "0 \<le> sum_list szs" using Cons.prems(1) by (intro sum_list_nonneg) (auto simp: list_all_iff)
  let ?a = "inc_partition_size tm uid z a"
  have z: "pm_total_size (meta_of tm uid ?a) = pm_total_size (meta_of tm uid a) + z"
    "pm_is_huge_partition (meta_of tm uid ?a) = pm_is_huge_partition (meta_of tm uid a)"
    using Cons.prems rest by (simp_all add: inc_partition_size_spec inc_size_def i32_id u64_id)
  have "app_inv ?a" using Cons.prems(4) by (rule inc_partition_size_spec)
  with Cons.IH [of ?a] Cons.prems z show ?case
    by (simp add: received_def inc_partition_size_spec)
qed (simp add: received_def)


definition sample_app :: "int list App" where
  "sample_app = \<lparr>a_app_id = ''app'', app_config_options = default_app_options, latest_heartbeat_time = 0,
     bitmap_of_blocks = [], huge_partition_marked_threshold = Some 10, huge_partition_memory_max_available_size = Some 5,
     total_received_data_size = 0, total_resident_data_size = 0, huge_partition_number = 0, registry_timestamp = 0\<rparr>"


text \<open>
  The bitmap of a partition holds exactly the blocks that have been reported for it, reading it changes nothing, and
  reports for one partition leave the others alone.
\<close>

theorem reported_blocks_exact:
  fixes a :: "'t App"
  assumes "treemap tm" and "a' = report_block_ids tm now uid ids a"
  shows "(tm_contains tm (snd (get_block_ids_bitmap tm uid a')) j \<longleftrightarrow>
      j \<in> u64 ` set ids \<or> tm_contains tm (snd (get_block_ids_bitmap tm uid a)) j) \<and>
    snd (get_block_ids tm uid a') = tm_serialize tm (snd (get_block_ids_bitmap tm uid a')) \<and>
    (meta_key v \<noteq> meta_key uid \<longrightarrow> snd (get_block_ids_bitmap tm v a') = snd (get_block_ids_bitmap tm v a)) \<and>
    (\<forall>w. meta_of tm w (fst (get_block_ids tm uid a')) = meta_of tm w a')"
proof -
  have bitmap: "snd (get_block_ids_bitmap tm w b) = blocks_bitmap (meta_of tm w b)"
      "snd (get_block_ids tm w b) = tm_serialize tm (blocks_bitmap (meta_of tm w b))"
      "meta_of tm x (fst (get_block_ids tm w b)) = meta_of tm x b" for w x and b :: "'t App"
    by (rule get_partition_metaE [of tm w b]; simp add: get_block_ids_bitmap_def get_block_ids_def meta_get_block_ids_def)+
  obtain b where b: "get_partition_meta tm uid (app_heartbeat now a) = (b, meta_of tm uid (app_heartbeat now a))"
      "\<And>v. meta_of tm v b = meta_of tm v (app_heartbeat now a)"
    by (rule get_partition_metaE [of tm uid "app_heartbeat now a"]; blast)
  have hb: "meta_of tm w (app_heartbeat now a) = meta_of tm w a" for w
    by (simp add: meta_of_def app_heartbeat_def)
  have a': "meta_of tm w a' = (if meta_key w = meta_key uid then meta_report_block_ids tm ids (meta_of tm uid a) else meta_of tm w a)" for w
    by (simp add: assms(2) report_block_ids_def b hb meta_of_put)
  show ?thesis
    by (simp add: bitmap a' meta_report_block_ids_def treemap.fold_add_contains [OF assms(1)])
qed

theorem reported_blocks_exact_witness:
  "let a' = report_block_ids list_treemap 7 sample_uid [3, -1] sample_app
   in tm_contains list_treemap (snd (get_block_ids_bitmap list_treemap sample_uid a')) 18446744073709551615 \<and>
      \<not> tm_contains list_treemap (snd (get_block_ids_bitmap list_treemap sample_uid a')) 4"
  using reported_blocks_exact [OF list_tm.treemap_axioms refl, where now = 7 and uid = sample_uid and ids = "[3, -1]"
      and a = sample_app and j = 18446744073709551615]
    reported_blocks_exact [OF list_tm.treemap_axioms refl, where now = 7 and uid = sample_uid and ids = "[3, -1]"
      and a = sample_app and j = 4]
  by (simp add: u64_def) (simp add: get_block_ids_bitmap_def get_partition_meta_def sample_app_def new_meta_def list_treemap_def)

end
