(* ===== verification/Event_Bus.thy ===== *)
theory Event_Bus
  imports Prelude
begin

text \<open>
  The event bus: \<^verbatim>\<open>event_bus.rs\<close>.  Events wait in an unbounded channel; a loop takes them out in order, waits
  for a permit of its semaphore and spawns a task that runs the subscriber, gives the permit back and
  calls the hook with the result.  An event that has left the channel but has no permit yet still counts as
  waiting.  The subscriber and the hook belong to the client, which says what finishing an event does.
\<close>

record 'm EventBus =
  queue :: "'m list"
  running :: "'m list"
  concurrency_num :: nat

definition new_event_bus :: "nat \<Rightarrow> 'm EventBus" where
  "new_event_bus n = \<lparr>queue = [], running = [], concurrency_num = n\<rparr>"

text \<open>The channel is unbounded and never closed, so sending succeeds; \<open>sync_publish\<close> does the same.\<close>

definition publish :: "'m \<Rightarrow> 'm EventBus \<Rightarrow> 'm EventBus" where
  "publish m b = b\<lparr>queue := queue b @ [m]\<rparr>"

definition receive :: "'m EventBus \<Rightarrow> 'm EventBus option" where
  "receive b = (case queue b of
     [] \<Rightarrow> None
   | m # ms \<Rightarrow> if length (running b) < concurrency_num b
               then Some (b\<lparr>queue := ms, running := running b @ [m]\<rparr>) else None)"

definition complete :: "nat \<Rightarrow> 'm EventBus \<Rightarrow> 'm EventBus" where
  "complete i b = b\<lparr>running := take i (running b) @ drop (Suc i) (running b)\<rparr>"

definition events :: "'m EventBus \<Rightarrow> 'm list" where
  "events b = queue b @ running b"

lemma events_new [simp]: "events (new_event_bus n) = []"
  by (simp add: events_def new_event_bus_def)

lemma events_publish: "mset (events (publish m b)) = add_mset m (mset (events b))"
  by (simp add: events_def publish_def)

lemma events_receive: "receive b = Some b' \<Longrightarrow> mset (events b') = mset (events b)"
  by (auto simp: events_def receive_def split: list.splits if_splits)

lemma mset_nth_split: "i < length xs \<Longrightarrow> mset xs = add_mset (xs ! i) (mset (take i xs @ drop (Suc i) xs))"
  by (metis Cons_nth_drop_Suc append_take_drop_id mset.simps(2) mset_append union_mset_add_mset_right)

lemma events_complete:
  "i < length (running b) \<Longrightarrow> mset (events b) = add_mset (running b ! i) (mset (events (complete i b)))"
  using mset_nth_split [of i "running b"] by (simp add: events_def complete_def)

lemma concurrency_num_ops [simp]:
  "concurrency_num (publish m b) = concurrency_num b" "concurrency_num (complete i b) = concurrency_num b"
  by (simp_all add: publish_def complete_def)

lemma concurrency_num_receive: "receive b = Some b' \<Longrightarrow> concurrency_num b' = concurrency_num b"
  by (auto simp: receive_def split: list.splits if_splits)

text \<open>Never more tasks than permits, and the bus is never stuck while events wait and a permit exists.\<close>

definition bus_ok :: "'m EventBus \<Rightarrow> bool" where
  "bus_ok b \<longleftrightarrow> length (running b) \<le> concurrency_num b"

lemma bus_ok_ops:
  "bus_ok (new_event_bus n)" "bus_ok b \<Longrightarrow> bus_ok (publish m b)" "bus_ok b \<Longrightarrow> bus_ok (complete i b)"
  "receive b = Some b' \<Longrightarrow> bus_ok b'"
  by (auto simp: bus_ok_def new_event_bus_def publish_def complete_def receive_def min_def split: list.splits if_splits)

lemma bus_progress:
  assumes "events b \<noteq> []" and "0 < concurrency_num b"
  shows "running b \<noteq> [] \<or> receive b \<noteq> None"
  using assms by (auto simp: events_def receive_def split: list.splits)

end
