(* ===== verification/Hybrid.thy ===== *)
theory Hybrid
  imports Memory_Store Hdfs App_Meta Readable_Size Event_Bus
begin

text \<open>
  The hybrid store and the spill pipeline: \<^verbatim>\<open>store/hybrid.rs\<close>, \<^verbatim>\<open>store/spill\<close>.

  Blocks are written to the memory store.  When a buffer or the whole store holds too much, the staged blocks of a
  buffer become a flight and a message about it is published on the parent bus.  The select handler chooses the
  storage type and the hook passes the message on to the bus of that type, where the flush handler writes the blocks
  to the persistent store and then releases the memory; a failed flush goes back to the parent bus.

  The table of applications is shared by the application manager and the store; here the store holds it.
  What the server gets from elsewhere is in \<open>Env\<close>: the byte encoding, the hash, the HDFS client, the bitmap
  and the id of the server.
\<close>

section \<open>State\<close>

record ('t, 'c, 'f) Env =
  e_codec :: codec
  e_hash :: "PartitionedUId \<Rightarrow> int"
  e_ops :: "('c, 'f) HdfsDelegator"
  e_worker_id :: string
  e_treemap :: "'t Treemap"

datatype ('c, 'f) PersistentStore = LocalStore LocalFileStore | RemoteStore "('c, 'f) HdfsStore"

record SpillMessage =
  msg_ctx :: SpillWritingViewContext
  msg_size :: int
  retry_cnt :: int
  msg_flight_id :: int
  candidate_store_type :: "StorageType option"

record HybridStoreConfig =
  memory_spill_high_watermark :: flt
  memory_spill_low_watermark :: flt
  memory_single_buffer_max_spill_size :: "string option"
  conf_memory_spill_to_cold_threshold_size :: "string option"
  memory_spill_to_localfile_concurrency :: "int option"
  memory_spill_to_hdfs_concurrency :: "int option"
  conf_huge_partition_memory_spill_to_hdfs_threshold_size :: string

record ('t, 'c, 'f) HybridStore =
  hot_store :: MemoryStore
  warm_store :: "('c, 'f) PersistentStore option"
  cold_store :: "('c, 'f) PersistentStore option"
  hybrid_config :: HybridStoreConfig
  memory_spill_event_num :: int
  in_flight_bytes_size :: int
  memory_spill_partition_max_threshold :: "int option"
  memory_spill_to_cold_threshold_size :: "int option"
  huge_partition_memory_spill_to_hdfs_threshold_size :: int
  parent_bus :: "SpillMessage EventBus"
  localfile_bus :: "SpillMessage EventBus"
  hdfs_bus :: "SpillMessage EventBus"
  app_manager :: "(string, 't App) dmap option" \<comment> \<open>\<open>None\<close> until it is set\<close>

datatype ResponseData = Local_data bytes | Mem_data PartitionedMemoryData

section \<open>The persistent stores behind their trait\<close>

fun ps_spill_insert ::
    "('t, 'c, 'f) Env \<Rightarrow> SpillWritingViewContext \<Rightarrow> ('c, 'f) PersistentStore \<Rightarrow>
     ('c, 'f) PersistentStore \<times> (unit, worker_error) outcome" where
  "ps_spill_insert env ctx (LocalStore st) =
     map_prod LocalStore id (localfile_spill_insert (e_codec env) (e_hash env) ctx st)"
| "ps_spill_insert env ctx (RemoteStore st) =
     map_prod RemoteStore id (hdfs_spill_insert (e_codec env) (e_ops env) (e_worker_id env) ctx st)"

fun ps_is_healthy :: "('c, 'f) PersistentStore \<Rightarrow> bool" where
  "ps_is_healthy (LocalStore st) = healthy_check st"
| "ps_is_healthy (RemoteStore st) = hdfs_is_healthy st"

fun ps_name :: "('c, 'f) PersistentStore \<Rightarrow> StorageType" where
  "ps_name (LocalStore st) = LOCALFILE"
| "ps_name (RemoteStore st) = HDFS"

fun ps_get :: "ReadingViewContext \<Rightarrow> ('c, 'f) PersistentStore \<Rightarrow> ('c, 'f) PersistentStore \<times> (bytes, worker_error) outcome" where
  "ps_get ctx (LocalStore st) = map_prod LocalStore id (localfile_get ctx st)"
| "ps_get ctx (RemoteStore st) = (RemoteStore st, hdfs_get ctx st)"

fun ps_get_index ::
    "PartitionedUId \<Rightarrow> ('c, 'f) PersistentStore \<Rightarrow> ('c, 'f) PersistentStore \<times> (LocalDataIndex, worker_error) outcome" where
  "ps_get_index uid (LocalStore st) = map_prod LocalStore id (localfile_get_index uid st)"
| "ps_get_index uid (RemoteStore st) = (RemoteStore st, hdfs_get_index uid st)"

fun ps_purge ::
    "('t, 'c, 'f) Env \<Rightarrow> PurgeDataContext \<Rightarrow> ('c, 'f) PersistentStore \<Rightarrow> ('c, 'f) PersistentStore \<times> (int, anyhow) outcome" where
  "ps_purge env ctx (LocalStore st) = map_prod LocalStore id (localfile_purge ctx st)"
| "ps_purge env ctx (RemoteStore st) = map_prod RemoteStore id (hdfs_purge (e_ops env) ctx st)"

fun ps_register_app ::
    "('t, 'c, 'f) Env \<Rightarrow> string \<Rightarrow> AppConfigOptions \<Rightarrow> ('c, 'f) PersistentStore \<Rightarrow>
     ('c, 'f) PersistentStore \<times> (unit, anyhow) outcome" where
  "ps_register_app env app opts (LocalStore st) = (LocalStore st, Ok ())"
| "ps_register_app env app opts (RemoteStore st) =
     map_prod RemoteStore id (hdfs_register_app (e_ops env) app (remote_storage_config_option opts) st)"

section \<open>Spill events\<close>

definition start_spill_event :: "int \<Rightarrow> ('t, 'c, 'f) HybridStore \<Rightarrow> ('t, 'c, 'f) HybridStore" where
  "start_spill_event bytes_size st =
     st\<lparr>memory_spill_event_num := u64 (memory_spill_event_num st + 1),
        in_flight_bytes_size := u64 (in_flight_bytes_size st + bytes_size)\<rparr>"

definition finish_spill_event :: "int \<Rightarrow> ('t, 'c, 'f) HybridStore \<Rightarrow> ('t, 'c, 'f) HybridStore" where
  "finish_spill_event bytes_size st =
     st\<lparr>memory_spill_event_num := u64 (memory_spill_event_num st - 1),
        in_flight_bytes_size := u64 (in_flight_bytes_size st - bytes_size)\<rparr>"

definition is_memory_only :: "('t, 'c, 'f) HybridStore \<Rightarrow> bool" where
  "is_memory_only st \<longleftrightarrow> cold_store st = None \<and> warm_store st = None"

definition with_app_manager :: "(string, 't App) dmap \<Rightarrow> ('t, 'c, 'f) HybridStore \<Rightarrow> ('t, 'c, 'f) HybridStore" where
  "with_app_manager apps st = (case app_manager st of None \<Rightarrow> st\<lparr>app_manager := Some apps\<rparr> | Some _ \<Rightarrow> st)"

text \<open>\<open>SpillWritingViewContext::is_valid\<close>: the closure asks the table of applications when it is called.\<close>

definition is_valid :: "SpillMessage \<Rightarrow> ('t, 'c, 'f) HybridStore \<Rightarrow> bool" where
  "is_valid msg st \<longleftrightarrow>
     (case app_manager st of None \<Rightarrow> True | Some apps \<Rightarrow> dm_contains apps (app_id (spill_uid (msg_ctx msg))))"

definition publish_spill_event :: "SpillMessage \<Rightarrow> ('t, 'c, 'f) HybridStore \<Rightarrow> ('t, 'c, 'f) HybridStore" where
  "publish_spill_event msg st = start_spill_event (u64 (msg_size msg)) (st\<lparr>parent_bus := publish msg (parent_bus st)\<rparr>)"

definition release_memory_buffer ::
    "int \<Rightarrow> SpillMessage \<Rightarrow> ('t, 'c, 'f) HybridStore \<Rightarrow> ('t, 'c, 'f) HybridStore \<times> (unit, anyhow) outcome" where
  "release_memory_buffer data_size msg st =
     (let (m, r) = clear_spilled_buffer (spill_uid (msg_ctx msg)) (msg_flight_id msg) (u64 data_size) (hot_store st)
      in (st\<lparr>hot_store := m\<rparr>, r))"

section \<open>Selecting and flushing\<close>

definition empty_warm :: worker_error where
  "empty_warm = Other (Any_message ''empty warm store. It should not happen'')"

text \<open>
  Which of the two stores a message is for.  A candidate that is the warm store because there is no cold one counts as
  warm: \<open>cold\<close> is then the same object.
\<close>

datatype tier = Warm | Cold

definition tier_store :: "tier \<Rightarrow> ('t, 'c, 'f) HybridStore \<Rightarrow> ('c, 'f) PersistentStore option" where
  "tier_store t st = (case t of Warm \<Rightarrow> warm_store st | Cold \<Rightarrow> (case cold_store st of None \<Rightarrow> warm_store st | Some s \<Rightarrow> Some s))"

definition put_tier :: "tier \<Rightarrow> ('c, 'f) PersistentStore \<Rightarrow> ('t, 'c, 'f) HybridStore \<Rightarrow> ('t, 'c, 'f) HybridStore" where
  "put_tier t s st =
     (if t = Cold \<and> cold_store st \<noteq> None then st\<lparr>cold_store := Some s\<rparr> else st\<lparr>warm_store := Some s\<rparr>)"

definition flush_storage_for_buffer ::
    "('t, 'c, 'f) Env \<Rightarrow> SpillMessage \<Rightarrow> ('t, 'c, 'f) HybridStore \<Rightarrow> ('t, 'c, 'f) HybridStore \<times> (unit, worker_error) outcome" where
  "flush_storage_for_buffer env msg st =
     (if \<not> is_valid msg st then (st, Err APP_IS_NOT_FOUND)
      else if retry_cnt msg \<ge> 3 then (st, Err (SPILL_EVENT_EXCEED_RETRY_MAX_LIMIT (app_id (spill_uid (msg_ctx msg)))))
      else case candidate_store_type msg of
             None \<Rightarrow> (st, Err NO_CANDIDATE_STORE)
           | Some stype \<Rightarrow>
               if warm_store st = None then (st, Err empty_warm)
               else
                 let t = (case stype of LOCALFILE \<Rightarrow> Warm | HDFS \<Rightarrow> Cold | _ \<Rightarrow> Warm);
                     (s, r) = ps_spill_insert env (msg_ctx msg) (the (tier_store t st))
                 in (put_tier t s st, r))"

text \<open>The table of applications changes when a partition is found to be huge.\<close>

definition select_storage_for_buffer ::
    "('t, 'c, 'f) Env \<Rightarrow> SpillMessage \<Rightarrow> ('t, 'c, 'f) HybridStore \<Rightarrow>
     ('t, 'c, 'f) HybridStore \<times> (StorageType, worker_error) outcome" where
  "select_storage_for_buffer env msg st =
     (let uid = spill_uid (msg_ctx msg); spill_size = u64 (msg_size msg)
      in if \<not> is_valid msg st then (st, Err APP_IS_NOT_FOUND)
         else case warm_store st of
           None \<Rightarrow> (st, Err empty_warm)
         | Some warm \<Rightarrow>
             let cold = (if ps_is_healthy (the (tier_store Cold st)) then the (tier_store Cold st) else warm);
                 candidate = (if ps_is_healthy warm
                              then if (case memory_spill_to_cold_threshold_size st of Some x \<Rightarrow> x | None \<Rightarrow> 2 ^ 64 - 1) < spill_size
                                   then cold else warm
                              else warm)
             in run_then
                  (case app_manager st of
                     None \<Rightarrow> (st, Ok candidate)
                   | Some apps \<Rightarrow>
                       (case dm_get apps (app_id uid) of
                          None \<Rightarrow> (st, Err APP_IS_NOT_FOUND)
                        | Some app \<Rightarrow>
                            let (app', huge) = is_huge_partition (e_treemap env) uid app
                            in (st\<lparr>app_manager := Some (dm_insert (app_id uid) app' apps)\<rparr>,
                                Ok (if huge \<and> spill_size > huge_partition_memory_spill_to_hdfs_threshold_size st
                                    then cold else candidate))))
                  (\<lambda>candidate st. (st, Ok (ps_name (if retry_cnt msg \<ge> 1 then cold else candidate)))))"

section \<open>Handlers\<close>

definition handle_spill_failure_whatever_error ::
    "SpillMessage \<Rightarrow> ('t, 'c, 'f) HybridStore \<Rightarrow> ('t, 'c, 'f) HybridStore" where
  "handle_spill_failure_whatever_error msg st =
     finish_spill_event (u64 (msg_size msg))
       (if \<not> is_valid msg st then st else fst (release_memory_buffer (msg_size msg) msg st))"

text \<open>The result says whether the event could be retried.\<close>

definition fatal_error :: "worker_error \<Rightarrow> bool" where
  "fatal_error e = (case e of
     SPILL_EVENT_EXCEED_RETRY_MAX_LIMIT _ \<Rightarrow> True | PARTIAL_DATA_LOST _ \<Rightarrow> True | LOCAL_DISK_UNHEALTHY _ \<Rightarrow> True
   | APP_HAS_BEEN_PURGED \<Rightarrow> True | APP_IS_NOT_FOUND \<Rightarrow> True | _ \<Rightarrow> False)"

definition handle_spill_failure ::
    "worker_error \<Rightarrow> SpillMessage \<Rightarrow> ('t, 'c, 'f) HybridStore \<Rightarrow> ('t, 'c, 'f) HybridStore \<times> bool" where
  "handle_spill_failure e msg st =
     (if fatal_error e then (handle_spill_failure_whatever_error msg st, False) else (st, True))"

definition handle_spill_success :: "SpillMessage \<Rightarrow> ('t, 'c, 'f) HybridStore \<Rightarrow> ('t, 'c, 'f) HybridStore" where
  "handle_spill_success msg st =
     finish_spill_event (u64 (msg_size msg)) (fst (release_memory_buffer (msg_size msg) msg st))"

text \<open>
  The handlers return the message as they leave it, and \<open>on_event\<close>'s result.  A panic in a handler ends its task
  before the permit is given back and the hook is called; \<open>None\<close> stands for that.
\<close>

definition select_on_event ::
    "('t, 'c, 'f) Env \<Rightarrow> SpillMessage \<Rightarrow> ('t, 'c, 'f) HybridStore \<Rightarrow> ('t, 'c, 'f) HybridStore \<times> SpillMessage \<times> bool option" where
  "select_on_event env msg st =
     (case select_storage_for_buffer env msg st of
        (st, Ok stype) \<Rightarrow> (st, msg\<lparr>candidate_store_type := Some stype\<rparr>, Some True)
      | (st, Err e) \<Rightarrow> (handle_spill_failure_whatever_error msg st, msg, Some False)
      | (st, Panic) \<Rightarrow> (st, msg, None))"

definition inc_retry_counter :: "SpillMessage \<Rightarrow> SpillMessage" where
  "inc_retry_counter msg = msg\<lparr>retry_cnt := u32 (retry_cnt msg + 1)\<rparr>"

definition flush_on_event ::
    "('t, 'c, 'f) Env \<Rightarrow> SpillMessage \<Rightarrow> ('t, 'c, 'f) HybridStore \<Rightarrow> ('t, 'c, 'f) HybridStore \<times> SpillMessage \<times> bool option" where
  "flush_on_event env msg st =
     (case flush_storage_for_buffer env msg st of
        (st, Ok _) \<Rightarrow> (handle_spill_success msg st, msg, Some True)
      | (st, Err e) \<Rightarrow>
          let msg' = inc_retry_counter msg; (st, could_be_retried) = handle_spill_failure e msg' st
          in (st, msg', Some (\<not> could_be_retried))
      | (st, Panic) \<Rightarrow> (st, msg, None))"

text \<open>The hooks of the parent and of the two children.\<close>

definition parent_hook :: "SpillMessage \<Rightarrow> bool \<Rightarrow> ('t, 'c, 'f) HybridStore \<Rightarrow> ('t, 'c, 'f) HybridStore" where
  "parent_hook msg is_succeed st =
     (if \<not> is_succeed then st
      else case candidate_store_type msg of
             Some LOCALFILE \<Rightarrow> st\<lparr>localfile_bus := publish msg (localfile_bus st)\<rparr>
           | Some HDFS \<Rightarrow> st\<lparr>hdfs_bus := publish msg (hdfs_bus st)\<rparr>
           | _ \<Rightarrow> st)"

definition child_hook :: "SpillMessage \<Rightarrow> bool \<Rightarrow> ('t, 'c, 'f) HybridStore \<Rightarrow> ('t, 'c, 'f) HybridStore" where
  "child_hook msg is_succeed st = (if is_succeed then st else st\<lparr>parent_bus := publish msg (parent_bus st)\<rparr>)"

section \<open>Spilling buffers\<close>

definition buffer_spill_impl ::
    "PartitionedUId \<Rightarrow> BufferInternal \<Rightarrow> ('t, 'c, 'f) HybridStore \<Rightarrow> ('t, 'c, 'f) HybridStore \<times> int" where
  "buffer_spill_impl uid b st =
     (let (b', res) = spill b;
          msg = \<lparr>msg_ctx = \<lparr>spill_uid = uid, spill_data_blocks = spilled_blocks res\<rparr>, msg_size = i64 (flight_len res),
                 retry_cnt = 0, msg_flight_id = flight_id res, candidate_store_type = None\<rparr>
      in (publish_spill_event msg (st\<lparr>hot_store := put_buffer uid b' (hot_store st)\<rparr>), flight_len res))"

definition single_buffer_spill ::
    "PartitionedUId \<Rightarrow> ('t, 'c, 'f) HybridStore \<Rightarrow> ('t, 'c, 'f) HybridStore \<times> (int, anyhow) outcome" where
  "single_buffer_spill uid st =
     (case get_buffer uid (hot_store st) of
        Ok b \<Rightarrow> map_prod id Ok (buffer_spill_impl uid b st)
      | Err e \<Rightarrow> (st, Err e)
      | Panic \<Rightarrow> (st, Panic))"

definition get_memory_used_ratio :: "('t, 'c, 'f) HybridStore \<Rightarrow> flt" where
  "get_memory_used_ratio st =
     (let s = memory_snapshot (hot_store st)
      in flt_div f32_bits (flt_of_int f32_bits (i64 (snap_used s - i64 (in_flight_bytes_size st))))
           (flt_of_int f32_bits (i64 (snap_capacity s - snap_allocated s))))"

text \<open>The candidates are all looked up before the first is spilled; each is the shared buffer, so its present state counts.\<close>

fun spill_candidates ::
    "(PartitionedUId, BufferInternal) dmap \<Rightarrow> ('t, 'c, 'f) HybridStore \<Rightarrow> ('t, 'c, 'f) HybridStore" where
  "spill_candidates [] st = st"
| "spill_candidates ((uid, b) # cs) st = spill_candidates cs (fst (buffer_spill_impl uid b st))"

definition watermark_spill ::
    "(PartitionedUId, BufferInternal) dmap \<Rightarrow> ('t, 'c, 'f) HybridStore \<Rightarrow> ('t, 'c, 'f) HybridStore \<times> (unit, anyhow) outcome" where
  "watermark_spill view st =
     (let expected_mem_used = flt_to_i64 (flt_mul f32_bits (flt_of_int f32_bits (memory_capacity (hot_store st)))
            (memory_spill_low_watermark (hybrid_config st)))
      in case lookup_spill_buffers view expected_mem_used (hot_store st) of
           Ok buffers \<Rightarrow> (spill_candidates buffers st, Ok ())
         | Err e \<Rightarrow> (st, Err e)
         | Panic \<Rightarrow> (st, Panic))"

section \<open>The store interface\<close>

text \<open>\<open>try_lock\<close> fails while another insert is choosing buffers; \<open>lock_free\<close> says that it succeeds.\<close>

definition hybrid_insert ::
    "bool \<Rightarrow> WritingViewContext \<Rightarrow> ('t, 'c, 'f) HybridStore \<Rightarrow> ('t, 'c, 'f) HybridStore \<times> (unit, worker_error) outcome" where
  "hybrid_insert lock_free ctx st =
     (let uid = w_uid ctx; (m, insert_result) = memory_insert ctx (hot_store st); st = st\<lparr>hot_store := m\<rparr>
      in if is_memory_only st \<or> \<not> lock_free then (st, insert_result)
         else
           run_then
             (case memory_spill_partition_max_threshold st of
                None \<Rightarrow> (st, Ok ())
              | Some threshold \<Rightarrow>
                  run_then (st, from_anyhow (get_buffer_staging_size uid (hot_store st))) (\<lambda>sz st.
                    (if sz > threshold then fst (single_buffer_spill uid st) else st, Ok ())))
             (\<lambda>_ st.
                (if flt_less (memory_spill_high_watermark (hybrid_config st)) (get_memory_used_ratio st)
                 then fst (watermark_spill (state (hot_store st)) st) else st, insert_result)))"

definition hybrid_get ::
    "(int \<times> batch) list \<Rightarrow> ReadingViewContext \<Rightarrow> ('t, 'c, 'f) HybridStore \<Rightarrow>
     ('t, 'c, 'f) HybridStore \<times> (ResponseData, worker_error) outcome" where
  "hybrid_get it ctx st =
     (case r_reading_options ctx of
        MEMORY_LAST_BLOCK_ID_AND_MAX_SIZE _ _ \<Rightarrow> (st, and_then (memory_get it ctx (hot_store st)) (\<lambda>d. Ok (Mem_data d)))
      | _ \<Rightarrow>
          (case warm_store st of
             None \<Rightarrow> (st, Panic)
           | Some w \<Rightarrow> let (w', r) = ps_get ctx w in (st\<lparr>warm_store := Some w'\<rparr>, and_then r (\<lambda>d. Ok (Local_data d)))))"

definition hybrid_get_index ::
    "PartitionedUId \<Rightarrow> ('t, 'c, 'f) HybridStore \<Rightarrow> ('t, 'c, 'f) HybridStore \<times> (LocalDataIndex, worker_error) outcome" where
  "hybrid_get_index uid st =
     (case warm_store st of
        None \<Rightarrow> (st, Panic)
      | Some w \<Rightarrow> let (w', r) = ps_get_index uid w in (st\<lparr>warm_store := Some w'\<rparr>, r))"

definition hybrid_purge ::
    "('t, 'c, 'f) Env \<Rightarrow> PurgeDataContext \<Rightarrow> ('t, 'c, 'f) HybridStore \<Rightarrow> ('t, 'c, 'f) HybridStore \<times> (int, anyhow) outcome" where
  "hybrid_purge env ctx st =
     run_then
       (let (m, r) = memory_purge (state (hot_store st)) ctx (hot_store st) in (st\<lparr>hot_store := m\<rparr>, r)) (\<lambda>hot st.
     run_then
       (case warm_store st of None \<Rightarrow> (st, Ok 0)
        | Some w \<Rightarrow> let (w', r) = ps_purge env ctx w in (st\<lparr>warm_store := Some w'\<rparr>, r)) (\<lambda>warm st.
     run_then
       (case cold_store st of None \<Rightarrow> (st, Ok 0)
        | Some c \<Rightarrow> let (c', r) = ps_purge env ctx c in (st\<lparr>cold_store := Some c'\<rparr>, r)) (\<lambda>cold st.
     (st, Ok (i64 (i64 (i64 hot + warm) + cold))))))"

definition hybrid_is_healthy :: "('t, 'c, 'f) HybridStore \<Rightarrow> bool" where
  "hybrid_is_healthy st \<longleftrightarrow>
     memory_is_healthy (hot_store st) \<and>
     (case warm_store st of None \<Rightarrow> True | Some s \<Rightarrow> ps_is_healthy s) \<and>
     (case cold_store st of None \<Rightarrow> True | Some s \<Rightarrow> ps_is_healthy s)"

definition hybrid_require_buffer ::
    "int \<Rightarrow> RequireBufferContext \<Rightarrow> ('t, 'c, 'f) HybridStore \<Rightarrow>
     ('t, 'c, 'f) HybridStore \<times> (RequireBufferResponse, worker_error) outcome" where
  "hybrid_require_buffer now ctx st =
     (let (m, r) = memory_require_buffer now ctx (hot_store st) in (st\<lparr>hot_store := m\<rparr>, r))"

definition hybrid_release_ticket ::
    "int \<Rightarrow> ('t, 'c, 'f) HybridStore \<Rightarrow> ('t, 'c, 'f) HybridStore \<times> (int, worker_error) outcome" where
  "hybrid_release_ticket tid st = (let (m, r) = memory_release_ticket tid (hot_store st) in (st\<lparr>hot_store := m\<rparr>, r))"

definition hybrid_register_app ::
    "('t, 'c, 'f) Env \<Rightarrow> string \<Rightarrow> AppConfigOptions \<Rightarrow> ('t, 'c, 'f) HybridStore \<Rightarrow>
     ('t, 'c, 'f) HybridStore \<times> (unit, anyhow) outcome" where
  "hybrid_register_app env app opts st =
     run_then
       (case warm_store st of None \<Rightarrow> (st, Ok ())
        | Some w \<Rightarrow> let (w', r) = ps_register_app env app opts w in (st\<lparr>warm_store := Some w'\<rparr>, r)) (\<lambda>_ st.
     (case cold_store st of None \<Rightarrow> (st, Ok ())
        | Some c \<Rightarrow> let (c', r) = ps_register_app env app opts c in (st\<lparr>cold_store := Some c'\<rparr>, r)))"

definition move_allocated_to_used_from_hot_store :: "int \<Rightarrow> ('t, 'c, 'f) HybridStore \<Rightarrow> ('t, 'c, 'f) HybridStore" where
  "move_allocated_to_used_from_hot_store sz st = st\<lparr>hot_store := memory_move_allocated_to_used sz (hot_store st)\<rparr>"

definition release_allocated_from_hot_store :: "int \<Rightarrow> ('t, 'c, 'f) HybridStore \<Rightarrow> ('t, 'c, 'f) HybridStore" where
  "release_allocated_from_hot_store sz st = st\<lparr>hot_store := memory_dec_allocated sz (hot_store st)\<rparr>"

definition get_memory_buffer_size :: "PartitionedUId \<Rightarrow> ('t, 'c, 'f) HybridStore \<Rightarrow> (int, anyhow) outcome" where
  "get_memory_buffer_size uid st = get_buffer_size uid (hot_store st)"

section \<open>Construction\<close>

record AppConfig =
  app_heartbeat_timeout_min :: int
  conf_huge_partition_marked_threshold :: "string option"
  huge_partition_memory_limit_percent :: "flt option"

record Config =
  conf_hybrid_store :: HybridStoreConfig
  conf_memory_store :: "MemoryStoreConfig option"
  conf_localfile_store :: "LocalfileStoreConfig option"
  conf_hdfs_store :: "nat option" \<comment> \<open>\<open>partition_write_max_concurrency\<close>\<close>
  store_type :: StorageType
  app_config :: AppConfig

text \<open>\<open>ReadableSize::from_str(v).unwrap().as_bytes()\<close>.\<close>

definition parse_size :: "string \<Rightarrow> (int, unit) outcome" where
  "parse_size s = (case from_str s of Ok n \<Rightarrow> Ok n | _ \<Rightarrow> Panic)"

definition parse_size_option :: "string option \<Rightarrow> (int option, unit) outcome" where
  "parse_size_option v = (case v of None \<Rightarrow> Ok None | Some s \<Rightarrow> and_then (parse_size s) (\<lambda>n. Ok (Some n)))"

definition unwrap :: "'a option \<Rightarrow> ('a, unit) outcome" where
  "unwrap v = (case v of None \<Rightarrow> Panic | Some x \<Rightarrow> Ok x)"

text \<open>
  \<open>HierarchyEventBus::new\<close> takes the number of threads of a runtime where no concurrency is configured.
  \<open>threads\<close> are those of the two write runtimes; \<open>cleanup\<close> says which data directories can be emptied and \<open>fs\<close> is the
  remote file system.
\<close>

definition new_child_bus :: "int option \<Rightarrow> nat \<Rightarrow> SpillMessage EventBus" where
  "new_child_bus conf threads = new_event_bus (case conf of Some v \<Rightarrow> nat (u64 v) | None \<Rightarrow> threads)"

definition hybrid_from ::
    "nat \<times> nat \<Rightarrow> (string \<Rightarrow> bool) \<Rightarrow> 'f \<Rightarrow> Config \<Rightarrow> (('t, 'c, 'f) HybridStore, unit) outcome" where
  "hybrid_from threads cleanup fs conf =
     (let h = conf_hybrid_store conf;
          local_bus = new_child_bus (memory_spill_to_localfile_concurrency h) (fst threads);
          remote_bus = new_child_bus (memory_spill_to_hdfs_concurrency h) (snd threads)
      in if \<not> contains_memory (store_type conf) then Panic
         else
           and_then (if contains_localfile (store_type conf)
                     then and_then (unwrap (conf_localfile_store conf)) (\<lambda>lc.
                            and_then (map_err (\<lambda>_. ()) (localfile_from lc cleanup)) (\<lambda>l. Ok [LocalStore l]))
                     else Ok []) (\<lambda>locals.
           and_then (if contains_hdfs (store_type conf)
                     then and_then (unwrap (conf_hdfs_store conf)) (\<lambda>n. Ok [RemoteStore (hdfs_from n fs)])
                     else Ok []) (\<lambda>remotes.
           and_then (parse_size_option (conf_memory_spill_to_cold_threshold_size h)) (\<lambda>cold_threshold.
           and_then (parse_size_option (memory_single_buffer_max_spill_size h)) (\<lambda>buffer_threshold.
           and_then (parse_size (conf_huge_partition_memory_spill_to_hdfs_threshold_size h)) (\<lambda>huge_threshold.
           and_then (and_then (unwrap (conf_memory_store conf)) memory_store_from) (\<lambda>hot.
           let stores = locals @ remotes
           in Ok \<lparr>hot_store = hot,
                  warm_store = (case stores of [] \<Rightarrow> None | s # _ \<Rightarrow> Some s),
                  cold_store = (case stores of _ # s # _ \<Rightarrow> Some s | _ \<Rightarrow> None),
                  hybrid_config = h, memory_spill_event_num = 0, in_flight_bytes_size = 0,
                  memory_spill_partition_max_threshold = buffer_threshold,
                  memory_spill_to_cold_threshold_size = cold_threshold,
                  huge_partition_memory_spill_to_hdfs_threshold_size = huge_threshold,
                  parent_bus = new_event_bus (concurrency_num local_bus + concurrency_num remote_bus),
                  localfile_bus = local_bus, hdfs_bus = remote_bus, app_manager = None\<rparr>)))))))"

end
