(* ===== verification/Spill_Pipeline.thy ===== *)
theory Spill_Pipeline
  imports Hybrid
begin

text \<open>
  The life of spill events (\<^verbatim>\<open>event_bus.rs\<close>, \<^verbatim>\<open>store/spill/hierarchy_event_bus.rs\<close> and the two handlers): the tasks of the three
  buses as a step relation over the hybrid store.  A step takes an event out of a channel or runs a handler with its
  hook.  An event whose handler panics is lost: its task ends without the hook; the second component collects them.
\<close>

section \<open>Steps\<close>

type_synonym ('t, 'c, 'f) pipeline = "('t, 'c, 'f) HybridStore \<times> SpillMessage list"

inductive bus_step :: "('t, 'c, 'f) Env \<Rightarrow> ('t, 'c, 'f) pipeline \<Rightarrow> ('t, 'c, 'f) pipeline \<Rightarrow> bool" for env where
  Parent_receive: "receive (parent_bus st) = Some b \<Longrightarrow> bus_step env (st, lost) (st\<lparr>parent_bus := b\<rparr>, lost)"
| Local_receive: "receive (localfile_bus st) = Some b \<Longrightarrow> bus_step env (st, lost) (st\<lparr>localfile_bus := b\<rparr>, lost)"
| Remote_receive: "receive (hdfs_bus st) = Some b \<Longrightarrow> bus_step env (st, lost) (st\<lparr>hdfs_bus := b\<rparr>, lost)"
| Parent_handle: "i < length (running (parent_bus st)) \<Longrightarrow>
    select_on_event env (running (parent_bus st) ! i) (st\<lparr>parent_bus := complete i (parent_bus st)\<rparr>) = (st', msg, Some ok) \<Longrightarrow>
    bus_step env (st, lost) (parent_hook msg ok st', lost)"
| Local_handle: "i < length (running (localfile_bus st)) \<Longrightarrow>
    flush_on_event env (running (localfile_bus st) ! i) (st\<lparr>localfile_bus := complete i (localfile_bus st)\<rparr>) = (st', msg, Some ok) \<Longrightarrow>
    bus_step env (st, lost) (child_hook msg ok st', lost)"
| Remote_handle: "i < length (running (hdfs_bus st)) \<Longrightarrow>
    flush_on_event env (running (hdfs_bus st) ! i) (st\<lparr>hdfs_bus := complete i (hdfs_bus st)\<rparr>) = (st', msg, Some ok) \<Longrightarrow>
    bus_step env (st, lost) (child_hook msg ok st', lost)"
| Local_panic: "i < length (running (localfile_bus st)) \<Longrightarrow>
    flush_on_event env (running (localfile_bus st) ! i) (st\<lparr>localfile_bus := complete i (localfile_bus st)\<rparr>) = (st', msg, None) \<Longrightarrow>
    bus_step env (st, lost) (st', running (localfile_bus st) ! i # lost)"
| Remote_panic: "i < length (running (hdfs_bus st)) \<Longrightarrow>
    flush_on_event env (running (hdfs_bus st) ! i) (st\<lparr>hdfs_bus := complete i (hdfs_bus st)\<rparr>) = (st', msg, None) \<Longrightarrow>
    bus_step env (st, lost) (st', running (hdfs_bus st) ! i # lost)"

section \<open>What the handlers leave alone\<close>

definition pending :: "('t, 'c, 'f) HybridStore \<Rightarrow> SpillMessage multiset" where
  "pending st = mset (events (parent_bus st)) + mset (events (localfile_bus st)) + mset (events (hdfs_bus st))"

definition same_buses :: "('t, 'c, 'f) HybridStore \<Rightarrow> ('t, 'c, 'f) HybridStore \<Rightarrow> bool" where
  "same_buses st st' \<longleftrightarrow> parent_bus st' = parent_bus st \<and> localfile_bus st' = localfile_bus st \<and> hdfs_bus st' = hdfs_bus st"

definition same_counts :: "('t, 'c, 'f) HybridStore \<Rightarrow> ('t, 'c, 'f) HybridStore \<Rightarrow> bool" where
  "same_counts st st' \<longleftrightarrow>
     memory_spill_event_num st' = memory_spill_event_num st \<and> in_flight_bytes_size st' = in_flight_bytes_size st"

lemma release_memory_buffer_same:
  "same_buses st (fst (release_memory_buffer sz msg st)) \<and> same_counts st (fst (release_memory_buffer sz msg st))"
  by (simp add: release_memory_buffer_def same_buses_def same_counts_def split: prod.splits)

text \<open>A handler either finishes its event or leaves the counters as they are.\<close>

definition finished :: "SpillMessage \<Rightarrow> ('t, 'c, 'f) HybridStore \<Rightarrow> ('t, 'c, 'f) HybridStore \<Rightarrow> bool" where
  "finished msg st st' \<longleftrightarrow>
     memory_spill_event_num st' = u64 (memory_spill_event_num st - 1) \<and>
     in_flight_bytes_size st' = u64 (in_flight_bytes_size st - u64 (msg_size msg))"

lemma whatever_error_finished:
  "same_buses st (handle_spill_failure_whatever_error msg st) \<and> finished msg st (handle_spill_failure_whatever_error msg st)"
  using release_memory_buffer_same [of st "msg_size msg" msg]
  by (auto simp: handle_spill_failure_whatever_error_def finish_spill_event_def same_buses_def same_counts_def finished_def)

lemma success_finished:
  "same_buses st (handle_spill_success msg st) \<and> finished msg st (handle_spill_success msg st)"
  using release_memory_buffer_same [of st "msg_size msg" msg]
  by (auto simp: handle_spill_success_def finish_spill_event_def same_buses_def same_counts_def finished_def)

lemma select_same:
  assumes "select_storage_for_buffer env msg st = (st', r)"
  shows "same_buses st st' \<and> same_counts st st' \<and> r \<noteq> Panic \<and> (\<forall>t. r = Ok t \<longrightarrow> t = LOCALFILE \<or> t = HDFS)"
proof -
  have name: "ps_name s = LOCALFILE \<or> ps_name s = HDFS" for s :: "('x, 'y) PersistentStore"
    by (cases s) auto
  show ?thesis
    using assms name
    by (auto simp: select_storage_for_buffer_def Let_def same_buses_def same_counts_def
        split: if_splits option.splits prod.splits)
qed

lemma flush_same:
  assumes "flush_storage_for_buffer env msg st = (st', r)"
  shows "same_buses st st' \<and> same_counts st st' \<and> app_manager st' = app_manager st"
  using assms
  by (auto simp: flush_storage_for_buffer_def put_tier_def Let_def same_buses_def same_counts_def
      split: if_splits option.splits prod.splits)

lemma flush_gives_up:
  assumes "flush_storage_for_buffer env msg st = (st', Err e)" and "retry_cnt msg \<ge> 3"
  shows "fatal_error e"
  using assms by (auto simp: flush_storage_for_buffer_def fatal_error_def split: if_splits)

lemma select_on_event_spec:
  assumes "select_on_event env msg st = (st', msg', res)"
  obtains t where "res = Some True" "msg' = msg\<lparr>candidate_store_type := Some t\<rparr>" "t = LOCALFILE \<or> t = HDFS"
      "same_buses st st'" "same_counts st st'"
  | "res = Some False" "msg' = msg" "same_buses st st'" "finished msg st st'"
proof -
  obtain s r where s: "select_storage_for_buffer env msg st = (s, r)" by fastforce
  note same = select_same [OF s]
  show thesis
  proof (cases r)
    case (Ok t)
    then show thesis using assms same s that(1) [of t] by (simp add: select_on_event_def)
  next
    case (Err e)
    then have "st' = handle_spill_failure_whatever_error msg s" "msg' = msg" "res = Some False"
      using assms s by (auto simp: select_on_event_def)
    then show thesis
      using that(2) same whatever_error_finished [of s msg]
      by (auto simp: same_buses_def same_counts_def finished_def)
  qed (use same in simp)
qed

lemma flush_on_event_spec:
  assumes "flush_on_event env msg st = (st', msg', res)" and "0 \<le> retry_cnt msg" and "retry_cnt msg \<le> 3"
  obtains "res = Some True" "same_buses st st'" "finished msg st st'"
  | "res = Some False" "msg' = msg\<lparr>retry_cnt := retry_cnt msg + 1\<rparr>" "retry_cnt msg < 3" "same_buses st st'" "same_counts st st'"
  | "res = None" "same_buses st st'" "same_counts st st'"
proof -
  obtain s r where s: "flush_storage_for_buffer env msg st = (s, r)" by fastforce
  note same = flush_same [OF s]
  show thesis
  proof (cases r)
    case (Ok u)
    then show thesis
      using assms(1) s same that(1) success_finished [of s msg]
      by (auto simp: flush_on_event_def same_buses_def same_counts_def finished_def)
  next
    case (Err e)
    show thesis
    proof (cases "fatal_error e")
      case True
      with Err assms(1) s have "res = Some True" "st' = handle_spill_failure_whatever_error (inc_retry_counter msg) s"
        by (auto simp: flush_on_event_def handle_spill_failure_def Let_def)
      then show thesis
        using same that(1) whatever_error_finished [of s "inc_retry_counter msg"]
        by (auto simp: same_buses_def same_counts_def finished_def inc_retry_counter_def)
    next
      case False
      with flush_gives_up [of env msg st s e] Err s have "retry_cnt msg < 3" by force
      moreover from False Err assms(1) s have "res = Some False" "st' = s" "msg' = inc_retry_counter msg"
        by (auto simp: flush_on_event_def handle_spill_failure_def Let_def)
      ultimately show thesis
        using same that(2) assms(2) by (auto simp: inc_retry_counter_def u32_def)
    qed
  next
    case Panic
    then show thesis using assms(1) s same that(3) by (simp add: flush_on_event_def)
  qed
qed

section \<open>Invariant\<close>

definition total_bytes :: "SpillMessage multiset \<Rightarrow> int" where
  "total_bytes M = (\<Sum>m\<in>#M. u64 (msg_size m))"

lemma total_bytes_simps [simp]:
  "total_bytes {#} = 0" "total_bytes (add_mset m M) = u64 (msg_size m) + total_bytes M" "total_bytes (M + N) = total_bytes M + total_bytes N"
  by (simp_all add: total_bytes_def)

definition counts_ok :: "SpillMessage multiset \<Rightarrow> ('t, 'c, 'f) HybridStore \<Rightarrow> bool" where
  "counts_ok M st \<longleftrightarrow> memory_spill_event_num st = u64 (int (size M)) \<and> in_flight_bytes_size st = u64 (total_bytes M)"

definition pipeline_inv :: "('t, 'c, 'f) pipeline \<Rightarrow> bool" where
  "pipeline_inv p \<longleftrightarrow> counts_ok (pending (fst p) + mset (snd p)) (fst p) \<and>
     (\<forall>m \<in># pending (fst p). 0 \<le> retry_cnt m \<and> retry_cnt m \<le> 3)"

lemma counts_ok_same: "same_counts st st' \<Longrightarrow> total_bytes M' = total_bytes M \<Longrightarrow> size M' = size M \<Longrightarrow> counts_ok M st \<Longrightarrow> counts_ok M' st'"
  by (simp add: counts_ok_def same_counts_def)

lemma counts_ok_finished:
  assumes "finished msg st st'" and "counts_ok (add_mset m M) st" and "msg_size m = msg_size msg"
  shows "counts_ok M st'"
  using assms by (simp add: counts_ok_def finished_def)

lemma pipeline_inv_same:
  "pipeline_inv (st, lost) \<Longrightarrow> same_buses st st' \<Longrightarrow> same_counts st st' \<Longrightarrow> pipeline_inv (st', lost)"
  by (auto simp: pipeline_inv_def counts_ok_def same_counts_def same_buses_def pending_def)

text \<open>Removing an event from the running ones of a bus.\<close>

lemma pending_complete:
  "i < length (running (parent_bus st)) \<Longrightarrow>
     pending st = add_mset (running (parent_bus st) ! i) (pending (st\<lparr>parent_bus := complete i (parent_bus st)\<rparr>))"
  "i < length (running (localfile_bus st)) \<Longrightarrow>
     pending st = add_mset (running (localfile_bus st) ! i) (pending (st\<lparr>localfile_bus := complete i (localfile_bus st)\<rparr>))"
  "i < length (running (hdfs_bus st)) \<Longrightarrow>
     pending st = add_mset (running (hdfs_bus st) ! i) (pending (st\<lparr>hdfs_bus := complete i (hdfs_bus st)\<rparr>))"
  by (simp_all add: pending_def events_complete)

lemma pending_same: "same_buses st st' \<Longrightarrow> pending st' = pending st"
  by (simp add: same_buses_def pending_def)

lemma child_handle_inv:
  assumes old: "pending st = add_mset m (pending st0)" and same: "same_counts st st0"
    and inv: "pipeline_inv (st, lost)" and run: "flush_on_event env m st0 = (st', msg, res)"
  shows "pipeline_inv (case res of Some ok \<Rightarrow> (child_hook msg ok st', lost) | None \<Rightarrow> (st', m # lost))"
proof -
  have r: "0 \<le> retry_cnt m" "retry_cnt m \<le> 3" "\<forall>x \<in># pending st0. 0 \<le> retry_cnt x \<and> retry_cnt x \<le> 3"
    using inv old by (auto simp: pipeline_inv_def)
  have c0: "counts_ok (add_mset m (pending st0 + mset lost)) st0"
    using inv old same by (simp add: pipeline_inv_def counts_ok_def same_counts_def)
  from run r(1,2) show ?thesis
  proof (cases rule: flush_on_event_spec)
    case 1
    then show ?thesis
      using counts_ok_finished [OF 1(3) c0] r(3) pending_same [OF 1(2)] by (simp add: pipeline_inv_def child_hook_def)
  next
    case 2
    have "pending (child_hook msg False st') = add_mset msg (pending st0)"
      using 2(4) by (simp add: child_hook_def pending_def events_publish same_buses_def)
    moreover have "counts_ok (add_mset msg (pending st0 + mset lost)) (child_hook msg False st')"
      using c0 2 by (simp add: counts_ok_def same_counts_def child_hook_def)
    ultimately show ?thesis using 2 r by (auto simp: pipeline_inv_def)
  next
    case 3
    then show ?thesis using c0 r(3) pending_same [OF 3(2)] by (simp add: pipeline_inv_def counts_ok_def same_counts_def)
  qed
qed

lemma parent_handle_inv:
  assumes old: "pending st = add_mset m (pending st0)" and same: "same_counts st st0"
    and inv: "pipeline_inv (st, lost)" and run: "select_on_event env m st0 = (st', msg, Some ok)"
  shows "pipeline_inv (parent_hook msg ok st', lost)"
proof -
  have r: "0 \<le> retry_cnt m" "retry_cnt m \<le> 3" "\<forall>x \<in># pending st0. 0 \<le> retry_cnt x \<and> retry_cnt x \<le> 3"
    using inv old by (auto simp: pipeline_inv_def)
  have c0: "counts_ok (add_mset m (pending st0 + mset lost)) st0"
    using inv old same by (simp add: pipeline_inv_def counts_ok_def same_counts_def)
  from run show ?thesis
  proof (cases rule: select_on_event_spec)
    case (1 t)
    have "pending (parent_hook msg True st') = add_mset msg (pending st0)"
      using 1 by (auto simp: parent_hook_def pending_def events_publish same_buses_def)
    moreover have "counts_ok (add_mset msg (pending st0 + mset lost)) (parent_hook msg True st')"
      using c0 1 by (auto simp: counts_ok_def same_counts_def parent_hook_def)
    ultimately show ?thesis using 1 r by (auto simp: pipeline_inv_def)
  next
    case 2
    then show ?thesis
      using counts_ok_finished [OF 2(4) c0] r(3) pending_same [OF 2(3)] by (simp add: pipeline_inv_def parent_hook_def)
  qed
qed

lemma bus_step_inv:
  assumes "bus_step env p p'" and "pipeline_inv p"
  shows "pipeline_inv p'"
  using assms
proof (induction rule: bus_step.induct)
  case (Parent_receive st b lost)
  then show ?case using events_receive [of "parent_bus st" b] by (simp add: pipeline_inv_def counts_ok_def pending_def)
next
  case (Local_receive st b lost)
  then show ?case using events_receive [of "localfile_bus st" b] by (simp add: pipeline_inv_def counts_ok_def pending_def)
next
  case (Remote_receive st b lost)
  then show ?case using events_receive [of "hdfs_bus st" b] by (simp add: pipeline_inv_def counts_ok_def pending_def)
next
  case (Parent_handle i st st' msg ok lost)
  show ?case
    by (rule parent_handle_inv [OF pending_complete(1) [OF Parent_handle(1)] _ Parent_handle(3,2)]) (simp add: same_counts_def)
next
  case (Local_handle i st st' msg ok lost)
  from child_handle_inv [OF pending_complete(2) [OF Local_handle(1)] _ Local_handle(3,2)]
  show ?case by (simp add: same_counts_def)
next
  case (Remote_handle i st st' msg ok lost)
  from child_handle_inv [OF pending_complete(3) [OF Remote_handle(1)] _ Remote_handle(3,2)]
  show ?case by (simp add: same_counts_def)
next
  case (Local_panic i st st' msg lost)
  from child_handle_inv [OF pending_complete(2) [OF Local_panic(1)] _ Local_panic(3,2)]
  show ?case by (simp add: same_counts_def)
next
  case (Remote_panic i st st' msg lost)
  from child_handle_inv [OF pending_complete(3) [OF Remote_panic(1)] _ Remote_panic(3,2)]
  show ?case by (simp add: same_counts_def)
qed

section \<open>Progress\<close>

text \<open>How many steps an event can still take: four for each flush that may follow, and those of the present round.\<close>

definition steps_left :: "nat \<Rightarrow> SpillMessage \<Rightarrow> nat" where
  "steps_left k m = 4 * nat (3 - retry_cnt m) + k"

definition bus_work :: "nat \<Rightarrow> SpillMessage EventBus \<Rightarrow> nat" where
  "bus_work k b = (\<Sum>m\<in>#mset (queue b). steps_left (Suc k) m) + (\<Sum>m\<in>#mset (running b). steps_left k m)"

definition work :: "('t, 'c, 'f) HybridStore \<Rightarrow> nat" where
  "work st = bus_work 3 (parent_bus st) + bus_work 1 (localfile_bus st) + bus_work 1 (hdfs_bus st)"

lemma bus_work_receive: "receive b = Some b' \<Longrightarrow> bus_work k b = Suc (bus_work k b')"
  by (auto simp: receive_def bus_work_def steps_left_def split: list.splits if_splits)

lemma bus_work_publish: "bus_work k (publish m b) = bus_work k b + steps_left (Suc k) m"
  by (simp add: publish_def bus_work_def)

lemma bus_work_complete:
  "i < length (running b) \<Longrightarrow> bus_work k b = bus_work k (complete i b) + steps_left k (running b ! i)"
  using mset_nth_split [of i "running b"] by (simp add: complete_def bus_work_def)

lemma work_complete:
  "i < length (running (parent_bus st)) \<Longrightarrow>
     work st = work (st\<lparr>parent_bus := complete i (parent_bus st)\<rparr>) + steps_left 3 (running (parent_bus st) ! i)"
  "i < length (running (localfile_bus st)) \<Longrightarrow>
     work st = work (st\<lparr>localfile_bus := complete i (localfile_bus st)\<rparr>) + steps_left 1 (running (localfile_bus st) ! i)"
  "i < length (running (hdfs_bus st)) \<Longrightarrow>
     work st = work (st\<lparr>hdfs_bus := complete i (hdfs_bus st)\<rparr>) + steps_left 1 (running (hdfs_bus st) ! i)"
  by (simp_all add: work_def bus_work_complete)

lemma work_same: "same_buses st st' \<Longrightarrow> work st' = work st"
  by (simp add: same_buses_def work_def)

lemma running_retry:
  assumes "pipeline_inv (st, lost)"
  shows "i < length (running (parent_bus st)) \<Longrightarrow> 0 \<le> retry_cnt (running (parent_bus st) ! i) \<and> retry_cnt (running (parent_bus st) ! i) \<le> 3"
    and "i < length (running (localfile_bus st)) \<Longrightarrow> 0 \<le> retry_cnt (running (localfile_bus st) ! i) \<and> retry_cnt (running (localfile_bus st) ! i) \<le> 3"
    and "i < length (running (hdfs_bus st)) \<Longrightarrow> 0 \<le> retry_cnt (running (hdfs_bus st) ! i) \<and> retry_cnt (running (hdfs_bus st) ! i) \<le> 3"
  using assms by (auto simp: pipeline_inv_def pending_def events_def)

text \<open>The buses, with how many tasks each may run.\<close>

definition buses_live :: "('t, 'c, 'f) HybridStore \<Rightarrow> bool" where
  "buses_live st \<longleftrightarrow> 0 < concurrency_num (parent_bus st) \<and> 0 < concurrency_num (localfile_bus st) \<and> 0 < concurrency_num (hdfs_bus st)"

lemma child_handle_work:
  assumes "flush_on_event env m st0 = (st', msg, res)" and "0 \<le> retry_cnt m \<and> retry_cnt m \<le> 3"
  shows "work (case res of Some ok \<Rightarrow> child_hook msg ok st' | None \<Rightarrow> st') < work st0 + steps_left 1 m \<and>
    (buses_live st0 \<longrightarrow> buses_live (case res of Some ok \<Rightarrow> child_hook msg ok st' | None \<Rightarrow> st'))"
  using assms(1) conjunct1 [OF assms(2)] conjunct2 [OF assms(2)]
proof (cases rule: flush_on_event_spec)
  case 1
  then show ?thesis using work_same [OF 1(2)] by (simp add: child_hook_def steps_left_def buses_live_def same_buses_def)
next
  case 2
  have "work (child_hook msg False st') = work st0 + steps_left 4 msg"
    using 2(4) by (simp add: child_hook_def work_def bus_work_publish same_buses_def)
  then show ?thesis using 2 by (simp add: steps_left_def buses_live_def child_hook_def same_buses_def)
next
  case 3
  then show ?thesis using work_same [OF 3(2)] by (simp add: steps_left_def buses_live_def same_buses_def)
qed

lemma parent_handle_work:
  assumes "select_on_event env m st0 = (st', msg, Some ok)"
  shows "work (parent_hook msg ok st') < work st0 + steps_left 3 m \<and> (buses_live st0 \<longrightarrow> buses_live (parent_hook msg ok st'))"
  using assms
proof (cases rule: select_on_event_spec)
  case (1 t)
  then show ?thesis
    by (auto simp: parent_hook_def work_def bus_work_publish same_buses_def steps_left_def buses_live_def)
next
  case 2
  then show ?thesis using work_same [OF 2(3)] by (simp add: parent_hook_def steps_left_def buses_live_def same_buses_def)
qed

lemma bus_step_work:
  assumes "bus_step env p p'" and "pipeline_inv p"
  shows "work (fst p') < work (fst p) \<and> (buses_live (fst p) \<longrightarrow> buses_live (fst p'))"
  using assms
proof (induction rule: bus_step.induct)
  case (Parent_receive st b lost)
  then show ?case
    using bus_work_receive [OF Parent_receive(1), of 3] concurrency_num_receive [OF Parent_receive(1)]
    by (auto simp: work_def buses_live_def)
next
  case (Local_receive st b lost)
  then show ?case
    using bus_work_receive [OF Local_receive(1), of 1] concurrency_num_receive [OF Local_receive(1)]
    by (auto simp: work_def buses_live_def)
next
  case (Remote_receive st b lost)
  then show ?case
    using bus_work_receive [OF Remote_receive(1), of 1] concurrency_num_receive [OF Remote_receive(1)]
    by (auto simp: work_def buses_live_def)
next
  case (Parent_handle i st st' msg ok lost)
  from parent_handle_work [OF Parent_handle(2)] show ?case
    unfolding fst_conv work_complete(1) [OF Parent_handle(1)] by (simp add: buses_live_def)
next
  case (Local_handle i st st' msg ok lost)
  from child_handle_work [OF Local_handle(2) running_retry(2) [OF Local_handle(3,1)]] show ?case
    unfolding fst_conv work_complete(2) [OF Local_handle(1)] by (simp add: buses_live_def)
next
  case (Remote_handle i st st' msg ok lost)
  from child_handle_work [OF Remote_handle(2) running_retry(3) [OF Remote_handle(3,1)]] show ?case
    unfolding fst_conv work_complete(3) [OF Remote_handle(1)] by (simp add: buses_live_def)
next
  case (Local_panic i st st' msg lost)
  from child_handle_work [OF Local_panic(2) running_retry(2) [OF Local_panic(3,1)]] show ?case
    unfolding fst_conv work_complete(2) [OF Local_panic(1)] by (simp add: buses_live_def)
next
  case (Remote_panic i st st' msg lost)
  from child_handle_work [OF Remote_panic(2) running_retry(3) [OF Remote_panic(3,1)]] show ?case
    unfolding fst_conv work_complete(3) [OF Remote_panic(1)] by (simp add: buses_live_def)
qed

lemma bus_step_progress:
  assumes "pipeline_inv (st, lost)" and "buses_live st" and "pending st \<noteq> {#}"
  shows "\<exists>p'. bus_step env (st, lost) p'"
proof -
  have child: "\<exists>p'. bus_step env (st, lost) p'" if "running (localfile_bus st) \<noteq> [] \<or> running (hdfs_bus st) \<noteq> []"
  proof -
    from that consider "0 < length (running (localfile_bus st))" | "0 < length (running (hdfs_bus st))" by auto
    then show ?thesis
    proof cases
      case 1
      obtain st' msg res where r: "flush_on_event env (running (localfile_bus st) ! 0)
          (st\<lparr>localfile_bus := complete 0 (localfile_bus st)\<rparr>) = (st', msg, res)" by (rule prod_cases3)
      show ?thesis
        by (cases res) (use r bus_step.Local_panic [OF 1] bus_step.Local_handle [OF 1] in blast)+
    next
      case 2
      obtain st' msg res where r: "flush_on_event env (running (hdfs_bus st) ! 0)
          (st\<lparr>hdfs_bus := complete 0 (hdfs_bus st)\<rparr>) = (st', msg, res)" by (rule prod_cases3)
      show ?thesis
        by (cases res) (use r bus_step.Remote_panic [OF 2] bus_step.Remote_handle [OF 2] in blast)+
    qed
  qed
  have parent: "\<exists>p'. bus_step env (st, lost) p'" if run: "0 < length (running (parent_bus st))"
  proof -
    obtain st' msg res where r: "select_on_event env (running (parent_bus st) ! 0)
        (st\<lparr>parent_bus := complete 0 (parent_bus st)\<rparr>) = (st', msg, res)" by (rule prod_cases3)
    then obtain ok where "res = Some ok" by (rule select_on_event_spec) auto
    with r show ?thesis using bus_step.Parent_handle [OF run] by blast
  qed
  from assms(3) consider "events (parent_bus st) \<noteq> []" | "events (localfile_bus st) \<noteq> []" | "events (hdfs_bus st) \<noteq> []"
    by (auto simp: pending_def)
  then show ?thesis
  proof cases
    case 1
    with bus_progress assms(2) consider "running (parent_bus st) \<noteq> []" | b where "receive (parent_bus st) = Some b"
      unfolding buses_live_def by blast
    then show ?thesis using parent bus_step.Parent_receive by cases (simp, blast)
  next
    case 2
    with bus_progress assms(2) consider "running (localfile_bus st) \<noteq> []" | b where "receive (localfile_bus st) = Some b"
      unfolding buses_live_def by blast
    then show ?thesis using child bus_step.Local_receive by cases (simp, blast)
  next
    case 3
    with bus_progress assms(2) consider "running (hdfs_bus st) \<noteq> []" | b where "receive (hdfs_bus st) = Some b"
      unfolding buses_live_def by blast
    then show ?thesis using child bus_step.Remote_receive by cases (simp, blast)
  qed
qed

section \<open>The pipeline within the store\<close>

lemma u64_add_i64 [simp]: "u64 (i64 a + b) = u64 (a + b)" "u64 (b + i64 a) = u64 (b + a)"
  by (metis u64_add_left u64_i64, metis u64_add_right u64_i64)

lemma buffer_spill_impl_inv:
  assumes "pipeline_inv (st, lost)"
  shows "pipeline_inv (fst (buffer_spill_impl uid b st), lost)"
proof -
  obtain b' res where s: "spill b = (b', res)" by fastforce
  let ?msg = "\<lparr>msg_ctx = \<lparr>spill_uid = uid, spill_data_blocks = spilled_blocks res\<rparr>, msg_size = i64 (flight_len res),
    retry_cnt = 0, msg_flight_id = flight_id res, candidate_store_type = None\<rparr>"
  let ?st = "fst (buffer_spill_impl uid b st)"
  have "pending ?st = add_mset ?msg (pending st)"
    by (simp add: buffer_spill_impl_def s publish_spill_event_def start_spill_event_def pending_def events_publish)
  then show ?thesis
    using assms by (auto simp: pipeline_inv_def counts_ok_def buffer_spill_impl_def s publish_spill_event_def
        start_spill_event_def add.commute)
qed

lemma spill_candidates_inv: "pipeline_inv (st, lost) \<Longrightarrow> pipeline_inv (spill_candidates cs st, lost)"
  by (induction cs st rule: spill_candidates.induct) (simp_all add: buffer_spill_impl_inv)

lemma hot_store_inv: "pipeline_inv (st, lost) \<Longrightarrow> pipeline_inv (st\<lparr>hot_store := m\<rparr>, lost)"
  by (erule pipeline_inv_same) (simp_all add: same_buses_def same_counts_def)

lemma hybrid_insert_inv:
  assumes "pipeline_inv (st, lost)"
  shows "pipeline_inv (fst (hybrid_insert lock_free ctx st), lost)"
proof -
  let ?P = "\<lambda>st. pipeline_inv (st, lost)"
  have single: "?P (fst (single_buffer_spill uid st))" if "?P st" for uid st
    using that by (auto simp: single_buffer_spill_def buffer_spill_impl_inv split: outcome.splits)
  have mark: "?P (fst (watermark_spill view st))" if "?P st" for view st
    using that by (auto simp: watermark_spill_def Let_def spill_candidates_inv split: outcome.splits)
  obtain m r where m: "memory_insert ctx (hot_store st) = (m, r)" by fastforce
  have "?P (st\<lparr>hot_store := m\<rparr>)" using assms by (rule hot_store_inv)
  then show ?thesis
    unfolding hybrid_insert_def Let_def m prod.case
    by (auto simp: single mark split: option.splits intro!: run_then_keeps [where P = ?P])
qed

text \<open>Everything that happens to the store: the requests and the tasks of the buses, in any order.\<close>

inductive store_step :: "('t, 'c, 'f) Env \<Rightarrow> ('t, 'c, 'f) pipeline \<Rightarrow> ('t, 'c, 'f) pipeline \<Rightarrow> bool" for env where
  Bus: "bus_step env p p' \<Longrightarrow> store_step env p p'"
| Insert: "hybrid_insert lock_free ctx st = (st', r) \<Longrightarrow> store_step env (st, lost) (st', lost)"
| Get: "hybrid_get it rctx st = (st', r') \<Longrightarrow> store_step env (st, lost) (st', lost)"
| Get_index: "hybrid_get_index uid st = (st', r'') \<Longrightarrow> store_step env (st, lost) (st', lost)"
| Purge: "hybrid_purge env pctx st = (st', ra) \<Longrightarrow> store_step env (st, lost) (st', lost)"
| Require: "hybrid_require_buffer now qctx st = (st', rb) \<Longrightarrow> store_step env (st, lost) (st', lost)"
| Release: "hybrid_release_ticket tid st = (st', rc) \<Longrightarrow> store_step env (st, lost) (st', lost)"
| Settle: "store_step env (st, lost)
    (move_allocated_to_used_from_hot_store a (release_allocated_from_hot_store b st), lost)"
| Register: "hybrid_register_app env app opts st = (st', rd) \<Longrightarrow> store_step env (st, lost) (st', lost)"
| Applications: "store_step env (st, lost) (st\<lparr>app_manager := apps\<rparr>, lost)"

text \<open>The requests other than an insert neither publish nor finish an event.\<close>

lemma tier_updates_same [simp]:
  "same_buses st (s\<lparr>hot_store := m\<rparr>) = same_buses st s" "same_counts st (s\<lparr>hot_store := m\<rparr>) = same_counts st s"
  "same_buses st (s\<lparr>warm_store := w\<rparr>) = same_buses st s" "same_counts st (s\<lparr>warm_store := w\<rparr>) = same_counts st s"
  "same_buses st (s\<lparr>cold_store := w\<rparr>) = same_buses st s" "same_counts st (s\<lparr>cold_store := w\<rparr>) = same_counts st s"
  "same_buses st (s\<lparr>app_manager := a\<rparr>) = same_buses st s" "same_counts st (s\<lparr>app_manager := a\<rparr>) = same_counts st s"
  "same_buses st st" "same_counts st st"
  by (simp_all add: same_buses_def same_counts_def)

lemma requests_same:
  "same_buses st (fst (hybrid_purge env pctx st)) \<and> same_counts st (fst (hybrid_purge env pctx st))"
  "same_buses st (fst (hybrid_register_app env app opts st)) \<and> same_counts st (fst (hybrid_register_app env app opts st))"
  "same_buses st (fst (hybrid_get it rctx st)) \<and> same_counts st (fst (hybrid_get it rctx st))"
  "same_buses st (fst (hybrid_get_index uid st)) \<and> same_counts st (fst (hybrid_get_index uid st))"
  "same_buses st (fst (hybrid_require_buffer now qctx st)) \<and> same_counts st (fst (hybrid_require_buffer now qctx st))"
  "same_buses st (fst (hybrid_release_ticket tid st)) \<and> same_counts st (fst (hybrid_release_ticket tid st))"
proof -
  let ?P = "\<lambda>s. same_buses st s \<and> same_counts st s"
  show "?P (fst (hybrid_purge env pctx st))"
    unfolding hybrid_purge_def
    by (intro run_then_keeps [where P = ?P]) (auto split: prod.splits option.splits)
  show "?P (fst (hybrid_register_app env app opts st))"
    unfolding hybrid_register_app_def
    by (intro run_then_keeps [where P = ?P]) (auto split: prod.splits option.splits)
qed (auto simp: hybrid_get_def hybrid_get_index_def hybrid_require_buffer_def hybrid_release_ticket_def
    split: prod.splits option.splits ReadingOptions.splits)

lemma store_step_inv:
  assumes "store_step env p p'" and "pipeline_inv p"
  shows "pipeline_inv p'"
  using assms
proof (induction rule: store_step.induct)
  case (Bus p p')
  then show ?case by (blast intro: bus_step_inv)
next
  case (Insert lock_free ctx st st' r lost)
  then show ?case using hybrid_insert_inv [of st lost lock_free ctx] by simp
next
  case (Get it rctx st st' r' lost)
  then show ?case using requests_same(3) [of st it rctx] by (auto intro: pipeline_inv_same)
next
  case (Get_index uid st st' r'' lost)
  then show ?case using requests_same(4) [of st uid] by (auto intro: pipeline_inv_same)
next
  case (Purge pctx st st' ra lost)
  then show ?case using requests_same(1) [of st env pctx] by (auto intro: pipeline_inv_same)
next
  case (Require now qctx st st' rb lost)
  then show ?case using requests_same(5) [of st now qctx] by (auto intro: pipeline_inv_same)
next
  case (Release tid st st' rc lost)
  then show ?case using requests_same(6) [of st tid] by (auto intro: pipeline_inv_same)
next
  case (Register app opts st st' rd lost)
  then show ?case using requests_same(2) [of st env app opts] by (auto intro: pipeline_inv_same)
qed (auto simp: move_allocated_to_used_from_hot_store_def release_allocated_from_hot_store_def intro: pipeline_inv_same)

lemma hybrid_from_inv: "hybrid_from threads cleanup fs conf = Ok st \<Longrightarrow> pipeline_inv (st, [])"
  by (auto simp: hybrid_from_def Let_def and_then_eq_Ok pipeline_inv_def counts_ok_def pending_def new_child_bus_def
      split: if_splits)

section \<open>Properties\<close>


definition sample_hybrid_conf :: HybridStoreConfig where
  "sample_hybrid_conf = \<lparr>memory_spill_high_watermark = Fin (4 / 5), memory_spill_low_watermark = Fin (1 / 5),
     memory_single_buffer_max_spill_size = Some ''0KiB'', conf_memory_spill_to_cold_threshold_size = None,
     memory_spill_to_localfile_concurrency = Some 4, memory_spill_to_hdfs_concurrency = None,
     conf_huge_partition_memory_spill_to_hdfs_threshold_size = ''64KiB''\<rparr>"

definition sample_config :: Config where
  "sample_config = \<lparr>conf_hybrid_store = sample_hybrid_conf, conf_memory_store = Some (late_conf\<lparr>conf_capacity := ''1KiB''\<rparr>),
     conf_localfile_store = Some sample_conf, conf_hdfs_store = None, store_type = MEMORY_LOCALFILE,
     app_config = \<lparr>app_heartbeat_timeout_min = 5, conf_huge_partition_marked_threshold = None,
       huge_partition_memory_limit_percent = None\<rparr>\<rparr>"

definition sample_env :: "(int list, unit, mem_hdfs) Env" where
  "sample_env = \<lparr>e_codec = be_codec, e_hash = partition_id, e_ops = mem_ops, e_worker_id = ''w'', e_treemap = list_treemap\<rparr>"

definition sample_hot :: MemoryStore where
  "sample_hot = \<lparr>memory_capacity = 1024, state = [], budget = new_budget 1024,
     ticket_manager = new_ticket_manager 300 10, ticket_budget = Some (new_budget 1024)\<rparr>"

definition sample_hybrid :: "(int list, unit, mem_hdfs) HybridStore" where
  "sample_hybrid = \<lparr>hot_store = sample_hot, warm_store = Some (LocalStore sample_localfile), cold_store = None,
     hybrid_config = sample_hybrid_conf, memory_spill_event_num = 0, in_flight_bytes_size = 0,
     memory_spill_partition_max_threshold = Some 0, memory_spill_to_cold_threshold_size = None,
     huge_partition_memory_spill_to_hdfs_threshold_size = 65536, parent_bus = new_event_bus 6,
     localfile_bus = new_event_bus 4, hdfs_bus = new_event_bus 2, app_manager = None\<rparr>"

lemma sample_hybrid_from: "hybrid_from (8, 2) (\<lambda>_. True) \<lparr>mem_files = [], mem_faults = []\<rparr> sample_config = Ok sample_hybrid"
proof -
  have "show_nat 0 = ''0''" "show_nat 1 = ''1''" "show_nat 64 = ''64''" by code_simp+
  then have "from_str ''0KiB'' = Ok 0" "from_str ''1KiB'' = Ok 1024" "from_str ''64KiB'' = Ok 65536"
    using from_str_number [of "''KiB''" KIB 0] from_str_number [of "''KiB''" KIB 1] from_str_number [of "''KiB''" KIB 64]
    by (simp_all add: binary_units_def KIB_def)
  then show ?thesis
    by (simp add: hybrid_from_def sample_config_def sample_hybrid_conf_def sample_hybrid_def sample_hot_def contains_simps
        unwrap_def sample_localfile_from parse_size_option_def parse_size_def memory_store_from_def late_conf_def
        new_child_bus_def new_event_bus_def u64_id i64_id)
qed

definition sample_insert :: "(int list, unit, mem_hdfs) HybridStore" where
  "sample_insert = fst (hybrid_insert True (new_writing_ctx (part ''a'' 0) [sample_block 1 3, sample_block 2 2]) sample_hybrid)"

text \<open>The ratio is not positive while nothing is used but what is in flight.\<close>

lemma half_even_nonneg: "0 \<le> q \<Longrightarrow> 0 \<le> half_even q"
  by (simp add: half_even_def Let_def)

lemma round_pos_nonneg: "0 < x \<Longrightarrow> 0 \<le> round_pos p x"
  unfolding round_pos_def Let_def
  by (intro mult_nonneg_nonneg) (simp_all add: half_even_nonneg less_imp_le)

lemma round_to_sign: "x \<le> 0 \<Longrightarrow> round_to p x \<le> 0" "0 \<le> x \<Longrightarrow> 0 \<le> round_to p x"
  using round_pos_nonneg [of "- x" p] round_pos_nonneg [of x p] by (auto simp: round_to_def)

lemma flt_ratio_nonpos:
  assumes "a \<le> 0" and "0 \<le> b" and "0 \<le> h"
  shows "\<not> flt_less (Fin h) (flt_div p (flt_of_int p a) (flt_of_int p b))"
proof -
  have "round_to p (of_int a) \<le> 0" "0 \<le> round_to p (of_int b)" using assms by (simp_all add: round_to_sign)
  then have "round_to p (round_to p (of_int a) / round_to p (of_int b)) \<le> 0"
    using divide_nonpos_nonneg round_to_sign(1) by blast
  with assms(3) \<open>round_to p (of_int a) \<le> 0\<close> show ?thesis by (auto simp: flt_of_int_def)
qed

lemma sample_insert_eq:
  "sample_insert = fst (single_buffer_spill (part ''a'' 0)
     (sample_hybrid\<lparr>hot_store := fst (memory_insert (new_writing_ctx (part ''a'' 0) [sample_block 1 3, sample_block 2 2]) sample_hot)\<rparr>))"
proof -
  let ?ctx = "new_writing_ctx (part ''a'' 0) [sample_block 1 3, sample_block 2 2]"
  let ?st = "sample_hybrid\<lparr>hot_store := fst (memory_insert ?ctx sample_hot)\<rparr>"
  let ?sp = "fst (single_buffer_spill (part ''a'' 0) ?st)"
  have ev: "get_buffer_staging_size (part ''a'' 0) (hot_store ?st) = Ok 5" "snd (memory_insert ?ctx sample_hot) = Ok ()"
    "snap_used (memory_snapshot (hot_store ?sp)) = 0" "i64 (in_flight_bytes_size ?sp) = 5"
    "snap_capacity (memory_snapshot (hot_store ?sp)) = 1024" "snap_allocated (memory_snapshot (hot_store ?sp)) = 0"
    "memory_spill_high_watermark (hybrid_config ?sp) = Fin (4 / 5)"
    by code_simp+
  have "\<not> flt_less (memory_spill_high_watermark (hybrid_config ?sp)) (get_memory_used_ratio ?sp)"
    unfolding get_memory_used_ratio_def Let_def ev by (rule flt_ratio_nonpos) (simp_all add: i64_id)
  moreover obtain m where m: "memory_insert ?ctx sample_hot = (m, Ok ())" using ev(2) by (metis prod.collapse)
  moreover have "hot_store sample_hybrid = sample_hot" "warm_store sample_hybrid = Some (LocalStore sample_localfile)"
      "memory_spill_partition_max_threshold sample_hybrid = Some 0" "w_uid ?ctx = part ''a'' 0"
    by (simp_all add: sample_hybrid_def new_writing_ctx_def)
  ultimately show ?thesis
    using ev(1) by (simp add: sample_insert_def hybrid_insert_def Let_def is_memory_only_def from_anyhow_def)
qed


text \<open>
  C11. The spill pipeline drains.  Every event takes at most a fixed number of steps (it is flushed at most
  four times), so without new inserts every run of the tasks ends; it can only end when no event is
  left, and then nothing is counted as in flight but events whose flush panicked.
\<close>

theorem spill_pipeline_drains:
  assumes "pipeline_inv (st, lost)" and "buses_live st"
  shows "(\<forall>n p. (bus_step env ^^ n) (st, lost) p \<longrightarrow> n \<le> work st) \<and>
    (\<exists>p. (bus_step env)\<^sup>*\<^sup>* (st, lost) p \<and> \<not> (\<exists>q. bus_step env p q)) \<and>
    (\<forall>st' lost'. (bus_step env)\<^sup>*\<^sup>* (st, lost) (st', lost') \<and> \<not> (\<exists>q. bus_step env (st', lost') q) \<longrightarrow>
      pending st' = {#} \<and> memory_spill_event_num st' = u64 (int (length lost')) \<and>
      in_flight_bytes_size st' = u64 (total_bytes (mset lost')))"
proof -
  have bound: "n + work (fst q) \<le> work (fst p)" if "(bus_step env ^^ n) p q" "pipeline_inv p" for n p q
    using that
  proof (induction n arbitrary: q)
    case (Suc n)
    then obtain r where r: "(bus_step env ^^ n) p r" "bus_step env r q" by auto
    have "pipeline_inv r"
      using r(1) Suc.prems(2) by (induction n arbitrary: r) (auto intro: bus_step_inv)
    with bus_step_work [OF r(2)] Suc.IH [OF r(1) Suc.prems(2)] show ?case by simp
  qed simp
  have reach: "pipeline_inv p \<and> buses_live (fst p)" if "(bus_step env)\<^sup>*\<^sup>* (st, lost) p" for p
    using that by (induction rule: rtranclp_induct) (use assms in simp, blast dest: bus_step_inv bus_step_work)
  have ends: "\<exists>q. (bus_step env)\<^sup>*\<^sup>* p q \<and> \<not> (\<exists>r. bus_step env q r)" if "pipeline_inv p" for p
    using that
  proof (induction "work (fst p)" arbitrary: p rule: less_induct)
    case less
    show ?case
    proof (cases "\<exists>q. bus_step env p q")
      case True
      then obtain q where q: "bus_step env p q" by blast
      with less(1) [of q] bus_step_work [OF q less(2)] bus_step_inv [OF q less(2)] show ?thesis
        by (meson converse_rtranclp_into_rtranclp)
    qed blast
  qed
  have "pending st' = {#} \<and> memory_spill_event_num st' = u64 (int (length lost')) \<and>
      in_flight_bytes_size st' = u64 (total_bytes (mset lost'))"
    if "(bus_step env)\<^sup>*\<^sup>* (st, lost) (st', lost')" "\<not> (\<exists>q. bus_step env (st', lost') q)" for st' lost'
  proof -
    have "pending st' = {#}" using reach [OF that(1)] that(2) bus_step_progress [of st' lost' env] by auto
    then show ?thesis using reach [OF that(1)] by (simp add: pipeline_inv_def counts_ok_def)
  qed
  moreover have "n \<le> work st" if "(bus_step env ^^ n) (st, lost) p" for n p
    using bound [OF that assms(1)] by simp
  ultimately show ?thesis using ends [OF assms(1)] by blast
qed

theorem spill_pipeline_drains_witness:
  "\<exists>st' lost'. (bus_step sample_env)\<^sup>*\<^sup>* (sample_insert, []) (st', lost') \<and> pending st' = {#} \<and>
     memory_spill_event_num st' = u64 (int (length lost'))"
proof -
  have "pipeline_inv (sample_insert, [])"
    unfolding sample_insert_def by (rule hybrid_insert_inv [OF hybrid_from_inv [OF sample_hybrid_from]])
  moreover have "buses_live sample_insert" unfolding sample_insert_eq by code_simp
  ultimately show ?thesis using spill_pipeline_drains [of sample_insert "[]" sample_env] by fast
qed

end
