(* ===== verification/Spill_Properties.thy ===== *)
theory Spill_Properties
  imports Spill_Pipeline
begin

text \<open>
  What the spill pipeline does with the data: the choice of the storage, how much a spill by watermark moves, and
  the way of a block from memory to the local disk and back to a reader.
\<close>

section \<open>The choice of the storage\<close>

text \<open>The stores that \<open>HybridStore::from\<close> sets up: at most a local one before a remote one.\<close>

definition tiers_ok :: "('t, 'c, 'f) HybridStore \<Rightarrow> bool" where
  "tiers_ok st \<longleftrightarrow> (case cold_store st of
     None \<Rightarrow> True | Some c \<Rightarrow> ps_name c = HDFS \<and> (\<exists>w. warm_store st = Some w \<and> ps_name w = LOCALFILE))"

lemma hybrid_from_tiers: "hybrid_from threads cleanup fs conf = Ok st \<Longrightarrow> tiers_ok st"
  by (auto simp: hybrid_from_def Let_def and_then_eq_Ok tiers_ok_def split: if_splits)

definition tier_of :: "StorageType \<Rightarrow> tier" where
  "tier_of t = (case t of LOCALFILE \<Rightarrow> Warm | HDFS \<Rightarrow> Cold | _ \<Rightarrow> Warm)"

lemma select_cases:
  assumes "select_storage_for_buffer env msg st = (st', Ok stype)"
  obtains w s where "warm_store st = Some w" "warm_store st' = Some w" "cold_store st' = cold_store st"
    "stype = ps_name s" "s = w \<or> s = the (tier_store Cold st) \<and> ps_is_healthy s"
    "retry_cnt msg \<ge> 1 \<Longrightarrow> s = (if ps_is_healthy (the (tier_store Cold st)) then the (tier_store Cold st) else w)"
proof -
  have valid: "is_valid msg st"
    using assms by (simp add: select_storage_for_buffer_def Let_def split: if_splits)
  obtain w where w: "warm_store st = Some w"
    using assms valid by (cases "warm_store st") (simp_all add: select_storage_for_buffer_def Let_def)
  define cold where "cold = (if ps_is_healthy (the (tier_store Cold st)) then the (tier_store Cold st) else w)"
  have "\<exists>s. stype = ps_name (if retry_cnt msg \<ge> 1 then cold else s) \<and> (s = cold \<or> s = w) \<and>
      warm_store st' = Some w \<and> cold_store st' = cold_store st"
  proof (cases "app_manager st")
    case None
    then show ?thesis
      using assms w valid by (auto simp: select_storage_for_buffer_def Let_def simp flip: cold_def)
  next
    case (Some apps)
    then obtain app where app: "dm_get apps (app_id (spill_uid (msg_ctx msg))) = Some app"
      using valid by (cases "dm_get apps (app_id (spill_uid (msg_ctx msg)))") (simp_all add: is_valid_def dm_contains_def)
    obtain app' huge where "is_huge_partition (e_treemap env) (spill_uid (msg_ctx msg)) app = (app', huge)"
      by fastforce
    then show ?thesis
      using assms w valid Some app by (auto simp: select_storage_for_buffer_def Let_def simp flip: cold_def)
  qed
  then obtain s where "stype = ps_name (if retry_cnt msg \<ge> 1 then cold else s)" "s = cold \<or> s = w"
      "warm_store st' = Some w" "cold_store st' = cold_store st" by blast
  with w show thesis
    by (intro that [of w "if retry_cnt msg \<ge> 1 then cold else s"]) (auto simp: cold_def split: if_splits)
qed


definition sample_message :: SpillMessage where
  "sample_message = \<lparr>msg_ctx = \<lparr>spill_uid = part ''a'' 0, spill_data_blocks = [[sample_block 1 3]]\<rparr>, msg_size = 3, retry_cnt = 1,
     msg_flight_id = 0, candidate_store_type = None\<rparr>"


section \<open>Spilling by watermark\<close>

lemma buffer_spill_impl_fields:
  "state (hot_store (fst (buffer_spill_impl uid b st))) = dm_insert uid (fst (spill b)) (state (hot_store st))"
  "budget (hot_store (fst (buffer_spill_impl uid b st))) = budget (hot_store st)"
  "in_flight_bytes_size (fst (buffer_spill_impl uid b st)) = u64 (in_flight_bytes_size st + staging_size b)"
  by (simp_all add: buffer_spill_impl_def publish_spill_event_def start_spill_event_def put_buffer_def spill_def
      Let_def)

lemma spill_candidates_spec:
  assumes "distinct (map fst cs)" and "is_u64 (in_flight_bytes_size st)"
  shows "(\<forall>v. dm_get (state (hot_store (spill_candidates cs st))) v =
      (case dm_get cs v of Some b \<Rightarrow> Some (fst (spill b)) | None \<Rightarrow> dm_get (state (hot_store st)) v)) \<and>
    budget (hot_store (spill_candidates cs st)) = budget (hot_store st) \<and>
    in_flight_bytes_size (spill_candidates cs st) = u64 (in_flight_bytes_size st + staged_total cs)"
  using assms
proof (induction cs st rule: spill_candidates.induct)
  case (1 st)
  then show ?case by (simp add: staged_total_def u64_is_id)
next
  case (2 uid b cs st)
  let ?st = "fst (buffer_spill_impl uid b st)"
  have none: "dm_get cs uid = None" using 2(2) by (simp add: map_of_eq_None_iff)
  have ih: "(\<forall>v. dm_get (state (hot_store (spill_candidates cs ?st))) v =
      (case dm_get cs v of Some b \<Rightarrow> Some (fst (spill b)) | None \<Rightarrow> dm_get (state (hot_store ?st)) v)) \<and>
    budget (hot_store (spill_candidates cs ?st)) = budget (hot_store ?st) \<and>
    in_flight_bytes_size (spill_candidates cs ?st) = u64 (in_flight_bytes_size ?st + staged_total cs)"
    using 2 by (simp add: buffer_spill_impl_fields)
  have "dm_get (state (hot_store (spill_candidates cs ?st))) v =
      (case dm_get ((uid, b) # cs) v of Some b \<Rightarrow> Some (fst (spill b)) | None \<Rightarrow> dm_get (state (hot_store st)) v)" for v
    using ih none by (cases "v = uid"; cases "dm_get cs v") (simp_all add: buffer_spill_impl_fields dm_simps)
  with ih show ?case by (simp add: buffer_spill_impl_fields staged_total_def add.assoc)
qed

lemma staged_total_subset:
  assumes "set cs \<subseteq> set m" and "distinct (map fst cs)" and "distinct (map fst m)"
    and "list_all (\<lambda>(u, b). 0 \<le> staging_size b) m"
  shows "0 \<le> staged_total cs \<and> staged_total cs \<le> staged_total m"
proof -
  have tot: "staged_total xs = (\<Sum>p\<in>set xs. staging_size (snd p))" if "distinct (map fst xs)" for xs
    using that by (simp add: staged_total_def weight_alt case_prod_unfold distinct_map sum_list_distinct_conv_sum_set)
  have "0 \<le> staging_size (snd p)" if "p \<in> set m" for p
    using assms(4) that by (auto simp: list_all_iff)
  then show ?thesis
    using assms(1) by (auto simp: tot assms(2,3) intro!: sum_nonneg sum_mono2)
qed

lemma spilled_buffer:
  assumes "buffer_inv b" and "flight_counter b < 2 ^ 64 - 1"
  shows "buffer_inv (fst (spill b)) \<and> staging_size (fst (spill b)) = 0 \<and>
    all_blocks (flight (fst (spill b))) (fst (spill b)) = all_blocks (flight b) b"
  using spill_inv [OF assms] spill_eq [OF assms] by (simp add: all_blocks_def)

text \<open>
  C14. A spill by watermark moves enough and loses nothing: the blocks of every buffer stay readable, the used memory is
  unchanged, and the bytes in flight grow by what is staged in the buffers chosen, which reaches
  the excess over the low watermark unless nothing is left to spill.
\<close>

theorem watermark_spill_enough:
  fixes st :: "('t, 'c, 'f) HybridStore"
  defines "hot \<equiv> hot_store st" and "st' \<equiv> fst (watermark_spill (state (hot_store st)) st)"
    and "low \<equiv> flt_to_i64 (flt_mul f32_bits (flt_of_int f32_bits (memory_capacity (hot_store st)))
        (memory_spill_low_watermark (hybrid_config st)))"
  assumes "dm_ok (state hot)" and "\<forall>b \<in> snd ` set (state hot). buffer_inv b \<and> flight_counter b < 2 ^ 64 - 1"
    and "staged_total (state hot) < 2 ^ 63" and "low < used (budget hot)" and "used (budget hot) - low < 2 ^ 63"
    and "0 \<le> in_flight_bytes_size st" and "in_flight_bytes_size st + staged_total (state hot) < 2 ^ 64"
  shows "(\<forall>uid b. dm_get (state hot) uid = Some b \<longrightarrow>
      (\<exists>b'. dm_get (state (hot_store st')) uid = Some b' \<and> buffer_inv b' \<and> all_blocks (flight b') b' = all_blocks (flight b) b)) \<and>
    budget (hot_store st') = budget hot \<and>
    (used (budget hot) - low \<le> in_flight_bytes_size st' - in_flight_bytes_size st \<or>
     (\<forall>uid b. dm_get (state (hot_store st')) uid = Some b \<longrightarrow> staging_size b = 0))"
proof -
  define required where "required = used (budget hot) - low"
  have inv: "buffer_inv b \<and> flight_counter b < 2 ^ 64 - 1" if "(uid, b) \<in> set (state hot)" for uid b
    using assms(5) that by force
  have nn: "list_all (\<lambda>(u, b). 0 \<le> staging_size b) (state hot)"
    using inv buffer_inv_sizes(1) by (fastforce simp: list_all_iff)
  obtain cand where cand: "lookup_spill_buffers (state hot) low hot = Ok cand" "good_candidates required (state hot) cand"
    using lookup_spill_buffers_good [OF assms(4) nn assms(6), of low] assms(7,8) by (auto simp: required_def)
  have good: "set cand \<subseteq> set (state hot)" "distinct (map fst cand)"
      "required \<le> staged_total cand \<or> (\<forall>(u, b) \<in> set (state hot). staging_size b \<noteq> 0 \<longrightarrow> (u, b) \<in> set cand)"
      "list_all (\<lambda>(u, b). 0 < staging_size b) cand"
    using cand(2) by (auto simp: good_candidates_def)
  have st': "st' = spill_candidates cand st"
    using cand(1) by (simp add: st'_def watermark_spill_def hot_def low_def)
  have get: "dm_get (state hot) u = Some b \<longleftrightarrow> (u, b) \<in> set (state hot)" "dm_get cand u = Some b \<longleftrightarrow> (u, b) \<in> set cand" for u b
    using assms(4) good(2) by (simp_all add: dm_ok_def)
  have le: "0 \<le> staged_total cand" "staged_total cand \<le> staged_total (state hot)"
    using staged_total_subset [OF good(1,2) _ nn] assms(4) by (simp_all add: dm_ok_def)
  have u: "is_u64 (in_flight_bytes_size st)" using assms(9,10) le by (simp add: is_u64_def)
  note sp = spill_candidates_spec [OF good(2) u, folded st' hot_def]
  have "in_flight_bytes_size st' = in_flight_bytes_size st + staged_total cand"
    using sp le assms(9,10) by (simp add: u64_id)
  moreover have "\<exists>b'. dm_get (state (hot_store st')) uid = Some b' \<and> buffer_inv b' \<and> all_blocks (flight b') b' = all_blocks (flight b) b"
    if b: "dm_get (state hot) uid = Some b" for uid b
  proof (cases "dm_get cand uid")
    case None
    moreover have "buffer_inv b" using b get(1) inv by simp
    ultimately show ?thesis using sp b by simp
  next
    case (Some d)
    then have "(uid, d) \<in> set (state hot)" using get(2) good(1) by blast
    then have "d = b" using get(1) b by (metis option.inject)
    then show ?thesis using Some sp spilled_buffer inv get(1) b by simp
  qed
  moreover have "staging_size b = 0"
    if few: "\<not> required \<le> staged_total cand" and b: "dm_get (state (hot_store st')) uid = Some b" for uid b
  proof (cases "dm_get cand uid")
    case None
    then have "(uid, b) \<in> set (state hot)" "(uid, b) \<notin> set cand"
      using sp b get(1) by auto (use None get(2) in \<open>metis option.distinct(1)\<close>)
    then show ?thesis using good(3) few by auto
  next
    case (Some d)
    then have "(uid, d) \<in> set (state hot)" using get(2) good(1) by blast
    moreover have "b = fst (spill d)" using sp b Some by simp
    ultimately have "b = fst (spill d)" "buffer_inv d \<and> flight_counter d < 2 ^ 64 - 1" using inv by blast+
    then show ?thesis using spilled_buffer inv by blast
  qed
  ultimately show ?thesis using sp by (auto simp: required_def)
qed

definition full_hybrid :: "(int list, unit, mem_hdfs) HybridStore" where
  "full_hybrid = sample_hybrid
     \<lparr>hot_store := sample_hot
        \<lparr>state := [(part ''a'' 0, append_blocks [sample_block 1 3, sample_block 2 2] 5 new_buffer),
                   (part ''a'' 1, append_blocks [sample_block 3 4] 4 new_buffer)],
         budget := (new_budget 1024)\<lparr>used := 9\<rparr>\<rparr>,
      hybrid_config := sample_hybrid_conf\<lparr>memory_spill_low_watermark := Fin 0\<rparr>\<rparr>"

theorem watermark_spill_enough_witness:
  "9 \<le> in_flight_bytes_size (fst (watermark_spill (state (hot_store full_hybrid)) full_hybrid)) \<or>
   (\<forall>uid b. dm_get (state (hot_store (fst (watermark_spill (state (hot_store full_hybrid)) full_hybrid)))) uid = Some b \<longrightarrow> staging_size b = 0)"
proof -
  have low: "flt_to_i64 (flt_mul f32_bits (flt_of_int f32_bits (memory_capacity (hot_store full_hybrid)))
        (memory_spill_low_watermark (hybrid_config full_hybrid))) = 0"
    by (simp add: full_hybrid_def flt_of_int_def round_to_def trunc_def)
  have "dm_ok (state (hot_store full_hybrid))" "staged_total (state (hot_store full_hybrid)) = 9"
      "used (budget (hot_store full_hybrid)) = 9" "in_flight_bytes_size full_hybrid = 0"
      "list_all (\<lambda>b. buffer_inv b \<and> flight_counter b < 2 ^ 64 - 1) (map snd (state (hot_store full_hybrid)))"
    by code_simp+
  then show ?thesis
    using watermark_spill_enough [of full_hybrid] unfolding low by (simp add: list_all_iff)
qed

section \<open>From memory to the local disk\<close>

definition spill_message :: "PartitionedUId \<Rightarrow> BufferInternal \<Rightarrow> SpillMessage" where
  "spill_message uid b = \<lparr>msg_ctx = \<lparr>spill_uid = uid, spill_data_blocks = staging b\<rparr>, msg_size = staging_size b,
     retry_cnt = 0, msg_flight_id = flight_counter b, candidate_store_type = None\<rparr>"

lemma select_local:
  assumes "warm_store st = Some (LocalStore l)" and "cold_store st = None" and "is_valid msg st"
  shows "\<exists>apps. select_storage_for_buffer env msg st = (st\<lparr>app_manager := apps\<rparr>, Ok LOCALFILE) \<and>
    is_valid msg (st\<lparr>app_manager := apps\<rparr>)"
proof (cases "app_manager st")
  case None
  then have "st\<lparr>app_manager := None\<rparr> = st" by simp
  with None assms show ?thesis
    by (intro exI [of _ None]) (simp add: select_storage_for_buffer_def tier_store_def Let_def is_valid_def)
next
  case (Some apps)
  then obtain app where app: "dm_get apps (app_id (spill_uid (msg_ctx msg))) = Some app"
    using assms(3) by (cases "dm_get apps (app_id (spill_uid (msg_ctx msg)))") (simp_all add: is_valid_def dm_contains_def)
  obtain app' huge where "is_huge_partition (e_treemap env) (spill_uid (msg_ctx msg)) app = (app', huge)"
    by fastforce
  then show ?thesis
    using Some assms app
    by (intro exI [of _ "Some (dm_insert (app_id (spill_uid (msg_ctx msg))) app' apps)"])
      (simp add: select_storage_for_buffer_def tier_store_def Let_def is_valid_def dm_contains_def dm_simps)
qed

lemma flush_local:
  assumes "warm_store st = Some (LocalStore l)" and "is_valid msg st" and "retry_cnt msg < 3"
    and "candidate_store_type msg = Some LOCALFILE"
    and "localfile_spill_insert (e_codec env) (e_hash env) (msg_ctx msg) l = (l', Ok ())"
  shows "flush_on_event env msg st =
    (handle_spill_success msg (st\<lparr>warm_store := Some (LocalStore l')\<rparr>), msg, Some True)"
  using assms by (simp add: flush_on_event_def flush_storage_for_buffer_def tier_store_def put_tier_def)

lemma single_buffer_spill_eq:
  assumes "dm_get (state (hot_store st)) uid = Some b" and "buffer_inv b" and "flight_counter b < 2 ^ 64 - 1"
  shows "single_buffer_spill uid st =
    (publish_spill_event (spill_message uid b) (st\<lparr>hot_store := put_buffer uid (fst (spill b)) (hot_store st)\<rparr>), Ok (staging_size b))"
proof -
  have "i64 (staging_size b) = staging_size b"
    using buffer_inv_sizes [OF assms(2)] assms(2) by (intro i64_id) (auto simp: buffer_inv_def)
  then show ?thesis
    using assms(1) by (simp add: single_buffer_spill_def get_buffer_def buffer_spill_impl_def spill_eq [OF assms(2,3)] spill_message_def)
qed

lemma clear_spill:
  assumes "buffer_inv b" and "flight_counter b < 2 ^ 64 - 1"
  shows "all_blocks (flight (clear (flight_counter b) n (fst (spill b)))) (clear (flight_counter b) n (fst (spill b))) =
    all_blocks (flight b) (b\<lparr>staging := []\<rparr>)"
proof -
  have "flight_counter b \<notin> fst ` set (flight b)" using assms(1) by (fastforce simp: buffer_inv_def list_all_iff)
  then have "dm_remove (flight_counter b) (flight b) = flight b"
    unfolding dm_remove_filter by (intro filter_True) force
  then have "dm_remove (flight_counter b) (flight b @ [(flight_counter b, staging b)]) = flight b"
    by (simp add: dm_remove_filter)
  then show ?thesis by (simp add: clear_def Let_def spill_eq [OF assms] all_blocks_def split: option.split)
qed

lemma handle_spill_success_eq:
  fixes st :: "('t, 'c, 'f) HybridStore" and msg
  defines "st' \<equiv> handle_spill_success msg st"
  assumes "dm_get (state (hot_store st)) (spill_uid (msg_ctx msg)) = Some b" and "0 \<le> msg_size msg" and "msg_size msg < 2 ^ 63"
  shows "dm_get (state (hot_store st')) (spill_uid (msg_ctx msg)) = Some (clear (msg_flight_id msg) (msg_size msg) b)"
    and "budget (hot_store st') = dec_used (msg_size msg) (budget (hot_store st))"
    and "in_flight_bytes_size st' = u64 (in_flight_bytes_size st - msg_size msg)"
    and "warm_store st' = warm_store st"
  using assms(2-4)
  by (simp_all add: st'_def handle_spill_success_def release_memory_buffer_def finish_spill_event_def clear_spilled_buffer_def
      get_buffer_def put_buffer_def memory_dec_used_def u64_id i64_id dm_simps)

lemma local_reads:
  assumes "warm_store st = Some (LocalStore l)" and "localfile_get_index uid l = (l, Ok idx)"
    and "map (\<lambda>s. snd (localfile_get \<lparr>r_uid = uid,
          r_reading_options = FILE_OFFSET_AND_LEN (seg_offset s) (seg_length s), r_task_ids = f\<rparr> l)) segs = map (\<lambda>b. Ok (data b)) bs"
  shows "hybrid_get_index uid st = (st, Ok idx)"
    and "map (\<lambda>s. snd (hybrid_get [] \<lparr>r_uid = uid,
          r_reading_options = FILE_OFFSET_AND_LEN (seg_offset s) (seg_length s), r_task_ids = f\<rparr> st)) segs =
      map (\<lambda>b. Ok (Local_data (data b))) bs"
proof -
  have "st\<lparr>warm_store := Some (LocalStore l)\<rparr> = st" using assms(1) by simp
  then show "hybrid_get_index uid st = (st, Ok idx)" using assms(1,2) by (simp add: hybrid_get_index_def)
  have "snd (hybrid_get [] \<lparr>r_uid = uid, r_reading_options = FILE_OFFSET_AND_LEN p q, r_task_ids = f\<rparr> st) =
      and_then (snd (localfile_get \<lparr>r_uid = uid, r_reading_options = FILE_OFFSET_AND_LEN p q, r_task_ids = f\<rparr> l)) (\<lambda>d. Ok (Local_data d))"
    for p q
    using assms(1) by (simp add: hybrid_get_def case_prod_unfold Let_def)
  then show "map (\<lambda>s. snd (hybrid_get [] \<lparr>r_uid = uid,
          r_reading_options = FILE_OFFSET_AND_LEN (seg_offset s) (seg_length s), r_task_ids = f\<rparr> st)) segs =
      map (\<lambda>b. Ok (Local_data (data b))) bs"
    using arg_cong [OF assms(3), of "map (\<lambda>r. and_then r (\<lambda>d. Ok (Local_data d)))"] by (simp add: comp_def)
qed

text \<open>
  C7. A spilled block moves from memory to the local disk and is readable all the time.  A spill publishes one event and
  keeps all blocks readable in memory; handling the event selects the local store and writes the blocks,
  sorted by task, behind what the partition has; then its index lists all of them, each can be read back, and exactly the
  spilled blocks are gone from memory, with their bytes given back.
\<close>

theorem spilled_data_readable:
  fixes env :: "('t, 'c, 'f) Env" and st :: "('t, 'c, 'f) HybridStore" and uid b W
  defines "st1 \<equiv> fst (single_buffer_spill uid st)" and "msg \<equiv> spill_message uid b"
    and "bs \<equiv> written W uid @ sort_key task_attempt_id (concat (staging b))"
  assumes "wire_codec (e_codec env)" and "dm_get (state (hot_store st)) uid = Some b"
    and "buffer_inv b" and "flight_counter b < 2 ^ 64 - 1"
    and "warm_store st = Some (LocalStore l)" and "cold_store st = None" and "is_valid msg st"
    and "lf_ok (e_codec env) W l" and "quiet l" and "plain_name (app_id uid)"
    and "list_all block_ok (concat (staging b))" and "int (length (payload bs)) < 2 ^ 63"
    and "is_u64 (in_flight_bytes_size st)"
  shows "queue (parent_bus st1) = queue (parent_bus st) @ [msg] \<and>
    (\<exists>b1. dm_get (state (hot_store st1)) uid = Some b1 \<and> all_blocks (flight b1) b1 = all_blocks (flight b) b) \<and>
    (\<exists>st2 st3 idx b3. select_on_event env msg st1 = (st2, msg\<lparr>candidate_store_type := Some LOCALFILE\<rparr>, Some True) \<and>
      flush_on_event env (msg\<lparr>candidate_store_type := Some LOCALFILE\<rparr>) st2 =
        (st3, msg\<lparr>candidate_store_type := Some LOCALFILE\<rparr>, Some True) \<and>
      hybrid_get_index uid st3 = (st3, Ok idx) \<and>
      map (\<lambda>s. snd (hybrid_get [] \<lparr>r_uid = uid,
          r_reading_options = FILE_OFFSET_AND_LEN (seg_offset s) (seg_length s), r_task_ids = f\<rparr> st3))
        (decode_index (e_codec env) (index_data idx)) = map (\<lambda>b. Ok (Local_data (data b))) bs \<and>
      dm_get (state (hot_store st3)) uid = Some b3 \<and> all_blocks (flight b3) b3 = all_blocks (flight b) (b\<lparr>staging := []\<rparr>) \<and>
      budget (hot_store st3) = dec_used (staging_size b) (budget (hot_store st)) \<and>
      in_flight_bytes_size st3 = in_flight_bytes_size st)"
proof -
  have sz: "0 \<le> staging_size b" "staging_size b < 2 ^ 63"
    using buffer_inv_sizes [OF assms(6)] assms(6) by (auto simp: buffer_inv_def)
  let ?m = "msg\<lparr>candidate_store_type := Some LOCALFILE\<rparr>"
  have st1: "st1 = publish_spill_event msg (st\<lparr>hot_store := put_buffer uid (fst (spill b)) (hot_store st)\<rparr>)"
    by (simp add: st1_def msg_def single_buffer_spill_eq [OF assms(5-7)])
  have f1: "queue (parent_bus st1) = queue (parent_bus st) @ [msg]" "warm_store st1 = warm_store st" "cold_store st1 = cold_store st"
      "dm_get (state (hot_store st1)) uid = Some (fst (spill b))" "budget (hot_store st1) = budget (hot_store st)"
      "in_flight_bytes_size st1 = u64 (in_flight_bytes_size st + staging_size b)" "is_valid msg st1"
    using assms(10) sz by (simp_all add: st1 publish_spill_event_def start_spill_event_def publish_def put_buffer_def dm_simps
        msg_def spill_message_def is_valid_def u64_id)
  obtain apps where sel: "select_storage_for_buffer env msg st1 = (st1\<lparr>app_manager := apps\<rparr>, Ok LOCALFILE)"
      "is_valid msg (st1\<lparr>app_manager := apps\<rparr>)"
    using select_local [of st1 l msg env] assms(8,9) f1 by auto
  obtain l' where l': "data_insert (e_codec env) (e_hash env) uid (sort_key task_attempt_id (concat (staging b))) l = (l', Ok ())"
      "quiet l'" "lf_ok (e_codec env) (W(uid \<mapsto> bs)) l'"
    using data_insert_quiet [OF assms(11-13), of "sort_key task_attempt_id (concat (staging b))" "e_hash env"] assms(14,15)
    by (auto simp: bs_def list_all_iff)
  let ?st2 = "st1\<lparr>app_manager := apps\<rparr>"
  define st3 where "st3 = handle_spill_success ?m (?st2\<lparr>warm_store := Some (LocalStore l')\<rparr>)"
  have fl: "flush_on_event env ?m ?st2 = (st3, ?m, Some True)"
    unfolding st3_def using f1(2) assms(8) sel(2) l'(1)
    by (intro flush_local)
      (auto simp: msg_def spill_message_def is_valid_def localfile_spill_insert_def split: option.splits)
  have f3: "dm_get (state (hot_store st3)) uid = Some (clear (flight_counter b) (staging_size b) (fst (spill b)))"
      "budget (hot_store st3) = dec_used (staging_size b) (budget (hot_store st))"
      "in_flight_bytes_size st3 = in_flight_bytes_size st" "warm_store st3 = Some (LocalStore l')"
    using handle_spill_success_eq [of "?st2\<lparr>warm_store := Some (LocalStore l')\<rparr>" ?m "fst (spill b)"] f1 sz assms(16)
    by (simp_all add: st3_def msg_def spill_message_def u64_is_id)
  obtain idx where "localfile_get_index uid l' = (l', Ok idx)" "map (\<lambda>s. snd (localfile_get \<lparr>r_uid = uid,
        r_reading_options = FILE_OFFSET_AND_LEN (seg_offset s) (seg_length s), r_task_ids = f\<rparr> l'))
      (decode_index (e_codec env) (index_data idx)) = map (\<lambda>b. Ok (data b)) bs"
    using lf_ok_reads [OF l'(3,2) assms(13,4), of f] by (auto simp: written_def)
  note rd = local_reads [OF f3(4) this]
  have "select_on_event env msg st1 = (?st2, ?m, Some True)" by (simp add: select_on_event_def sel(1))
  with f1(1,4) fl rd f3(1-3) spilled_buffer [OF assms(6,7)] clear_spill [OF assms(6,7)] show ?thesis by blast
qed

theorem spilled_data_readable_witness:
  "\<exists>st2 st3 idx m. select_on_event sample_env m (fst (single_buffer_spill (part ''a'' 0) full_hybrid)) =
      (st2, m\<lparr>candidate_store_type := Some LOCALFILE\<rparr>, Some True) \<and>
    flush_on_event sample_env (m\<lparr>candidate_store_type := Some LOCALFILE\<rparr>) st2 =
      (st3, m\<lparr>candidate_store_type := Some LOCALFILE\<rparr>, Some True) \<and>
    hybrid_get_index (part ''a'' 0) st3 = (st3, Ok idx) \<and> used (budget (hot_store st3)) = 4"
proof -
  let ?b = "append_blocks [sample_block 1 3, sample_block 2 2] 5 new_buffer"
  have b: "dm_get (state (hot_store full_hybrid)) (part ''a'' 0) = Some ?b" "buffer_inv ?b" "flight_counter ?b < 2 ^ 64 - 1"
      "is_valid (spill_message (part ''a'' 0) ?b) full_hybrid" "plain_name (app_id (part ''a'' 0))"
      "list_all block_ok (concat (staging ?b))" "is_u64 (in_flight_bytes_size full_hybrid)"
      "used (dec_used (staging_size ?b) (budget (hot_store full_hybrid))) = 4"
    by code_simp+
  have len: "int (length (payload (written (\<lambda>_. None) (part ''a'' 0) @ sort_key task_attempt_id (concat (staging ?b))))) < 2 ^ 63"
    by code_simp
  have st: "warm_store full_hybrid = Some (LocalStore sample_localfile)" "cold_store full_hybrid = None"
    by (simp_all add: full_hybrid_def sample_hybrid_def)
  have c: "wire_codec (e_codec sample_env)" using be.wire_codec_axioms by (simp add: sample_env_def)
  obtain st2 st3 idx where "select_on_event sample_env (spill_message (part ''a'' 0) ?b) (fst (single_buffer_spill (part ''a'' 0) full_hybrid)) =
      (st2, (spill_message (part ''a'' 0) ?b)\<lparr>candidate_store_type := Some LOCALFILE\<rparr>, Some True)"
    "flush_on_event sample_env ((spill_message (part ''a'' 0) ?b)\<lparr>candidate_store_type := Some LOCALFILE\<rparr>) st2 =
      (st3, (spill_message (part ''a'' 0) ?b)\<lparr>candidate_store_type := Some LOCALFILE\<rparr>, Some True)"
    "hybrid_get_index (part ''a'' 0) st3 = (st3, Ok idx)"
    "budget (hot_store st3) = dec_used (staging_size ?b) (budget (hot_store full_hybrid))"
    using spilled_data_readable [OF c b(1-3) st b(4) lf_ok_fresh(1) [OF sample_localfile_from] sample_localfile_quiet b(5,6) len b(7), of None]
    by (elim conjE exE) (rule that)
  with b(8) show ?thesis by (metis (no_types))
qed

end
