(* ===== verification/App_Manager.thy ===== *)
theory App_Manager
  imports Spill_Properties Memory_Accounting
begin

text \<open>
  The applications and their table: the operations of \<open>App\<close> that call the store, and \<open>AppManager\<close> with its
  three tasks (heartbeat check, purging, statistics) from \<^verbatim>\<open>app.rs\<close>.

  The table of applications is shared between the manager and the store (\<^verbatim>\<open>main.rs\<close> calls \<open>with_app_manager\<close>
  before any request is served), so it is the field \<open>app_manager\<close> of the store here.  An \<open>Arc<App>\<close> is the
  entry of the table; an operation of an application gives back the changed entry.  The times of the clock are
  arguments, in seconds unless said otherwise.
\<close>

section \<open>Operations of an application\<close>

type_synonym ('t, 'c, 'f, 'a) app_result =
  "'t App \<times> ('t, 'c, 'f) HybridStore \<times> ('a, worker_error) outcome"

text \<open>The result of the registration in the store is only looked at for a failed task, so its errors are dropped.\<close>

definition app_from ::
    "('t, 'c, 'f) Env \<Rightarrow> int \<Rightarrow> int \<Rightarrow> string \<Rightarrow> AppConfigOptions \<Rightarrow> Config \<Rightarrow> ('t, 'c, 'f) HybridStore \<Rightarrow>
     ('t, 'c, 'f) HybridStore \<times> ('t App, unit) outcome" where
  "app_from env now now_millis app opts conf st =
     (let st = fst (hybrid_register_app env app opts st)
      in (st,
          and_then (parse_size_option (conf_huge_partition_marked_threshold (app_config conf))) (\<lambda>marked_threshold.
          and_then (unwrap (conf_memory_store conf)) (\<lambda>mem_conf.
          and_then (parse_size (conf_capacity mem_conf)) (\<lambda>mem_capacity.
          Ok \<lparr>a_app_id = app, app_config_options = opts, latest_heartbeat_time = now, bitmap_of_blocks = [],
              huge_partition_marked_threshold = marked_threshold,
              huge_partition_memory_max_available_size =
                map_option (\<lambda>v. flt_to_u64 (flt_mul f64_bits (flt_of_int f64_bits mem_capacity) v))
                  (huge_partition_memory_limit_percent (app_config conf)),
              total_received_data_size = 0, total_resident_data_size = 0, huge_partition_number = 0,
              registry_timestamp = now_millis\<rparr>)))))"

definition app_insert ::
    "('t, 'c, 'f) Env \<Rightarrow> bool \<Rightarrow> int \<Rightarrow> WritingViewContext \<Rightarrow> 't App \<Rightarrow> ('t, 'c, 'f) HybridStore \<Rightarrow>
     ('t, 'c, 'f, int) app_result" where
  "app_insert env lock_free now ctx a st =
     (let len = w_data_size ctx;
          a = inc_partition_size (e_treemap env) (w_uid ctx) len (app_heartbeat now a);
          a = a\<lparr>total_received_data_size := u64 (total_received_data_size a + len),
                total_resident_data_size := u64 (total_resident_data_size a + len)\<rparr>;
          (st, r) = hybrid_insert lock_free ctx st
      in (a, st, and_then r (\<lambda>_. Ok (i32 len))))"

definition app_select ::
    "int \<Rightarrow> (int \<times> batch) list \<Rightarrow> ReadingViewContext \<Rightarrow> 't App \<Rightarrow> ('t, 'c, 'f) HybridStore \<Rightarrow>
     ('t, 'c, 'f, ResponseData) app_result" where
  "app_select now it ctx a st = (let (st, r) = hybrid_get it ctx st in (app_heartbeat now a, st, r))"

definition app_list_index ::
    "int \<Rightarrow> PartitionedUId \<Rightarrow> 't App \<Rightarrow> ('t, 'c, 'f) HybridStore \<Rightarrow> ('t, 'c, 'f, LocalDataIndex) app_result" where
  "app_list_index now uid a st = (let (st, r) = hybrid_get_index uid st in (app_heartbeat now a, st, r))"

definition is_backpressure_for_huge_partition ::
    "'t Treemap \<Rightarrow> PartitionedUId \<Rightarrow> 't App \<Rightarrow> ('t, 'c, 'f) HybridStore \<Rightarrow> 't App \<times> (bool, anyhow) outcome" where
  "is_backpressure_for_huge_partition tm uid a st =
     (let (a, huge) = is_huge_partition tm uid a
      in if \<not> huge then (a, Ok False)
         else (a, case huge_partition_memory_max_available_size a of
                    None \<Rightarrow> Panic
                  | Some huge_partition_memory \<Rightarrow>
                      and_then (get_memory_buffer_size uid st) (\<lambda>memory_used. Ok (memory_used > huge_partition_memory))))"

definition app_require_buffer ::
    "'t Treemap \<Rightarrow> int \<Rightarrow> RequireBufferContext \<Rightarrow> 't App \<Rightarrow> ('t, 'c, 'f) HybridStore \<Rightarrow>
     ('t, 'c, 'f, RequireBufferResponse) app_result" where
  "app_require_buffer tm now ctx a st =
     (let (a, limited) = is_backpressure_for_huge_partition tm (q_uid ctx) (app_heartbeat now a) st
      in case from_anyhow limited of
           Ok True \<Rightarrow> (a, st, Err MEMORY_USAGE_LIMITED_BY_HUGE_PARTITION)
         | Ok False \<Rightarrow> (a, hybrid_require_buffer now ctx st)
         | Err e \<Rightarrow> (a, st, Err e)
         | Panic \<Rightarrow> (a, st, Panic))"

definition app_release_ticket ::
    "int \<Rightarrow> 't App \<Rightarrow> ('t, 'c, 'f) HybridStore \<Rightarrow> ('t, 'c, 'f, int) app_result" where
  "app_release_ticket tid a st = (a, hybrid_release_ticket tid st)"

definition app_purge ::
    "('t, 'c, 'f) Env \<Rightarrow> string \<Rightarrow> int option \<Rightarrow> 't App \<Rightarrow> ('t, 'c, 'f) HybridStore \<Rightarrow>
     't App \<times> ('t, 'c, 'f) HybridStore \<times> (unit, anyhow) outcome" where
  "app_purge env app shuffle a st =
     (case hybrid_purge env \<lparr>p_app_id = app, p_shuffle_id = shuffle\<rparr> st of
        (st, Ok removed) \<Rightarrow> (a\<lparr>total_resident_data_size := u64 (total_resident_data_size a - u64 removed)\<rparr>, st, Ok ())
      | (st, Err e) \<Rightarrow> (a, st, Err e)
      | (st, Panic) \<Rightarrow> (a, st, Panic))"

section \<open>The manager\<close>

datatype PurgeEvent = HEARTBEAT_TIMEOUT string | APP_PARTIAL_SHUFFLES_PURGE string int | APP_PURGE string

record ('t, 'c, 'f) AppManager =
  m_store :: "('t, 'c, 'f) HybridStore"
  purge_queue :: "PurgeEvent list"
  m_app_heartbeat_timeout_min :: int
  m_config :: Config

definition new_app_manager :: "Config \<Rightarrow> ('t, 'c, 'f) HybridStore \<Rightarrow> ('t, 'c, 'f) AppManager" where
  "new_app_manager conf st = \<lparr>m_store = with_app_manager [] st, purge_queue = [],
     m_app_heartbeat_timeout_min = app_heartbeat_timeout_min (app_config conf), m_config = conf\<rparr>"

definition apps :: "('t, 'c, 'f) AppManager \<Rightarrow> (string, 't App) dmap" where
  "apps m = (case app_manager (m_store m) of None \<Rightarrow> [] | Some t \<Rightarrow> t)"

definition set_apps :: "(string, 't App) dmap \<Rightarrow> ('t, 'c, 'f) AppManager \<Rightarrow> ('t, 'c, 'f) AppManager" where
  "set_apps t m = m\<lparr>m_store := (m_store m)\<lparr>app_manager := Some t\<rparr>\<rparr>"

definition get_app :: "string \<Rightarrow> ('t, 'c, 'f) AppManager \<Rightarrow> 't App option" where
  "get_app app m = dm_get (apps m) app"

definition app_is_exist :: "string \<Rightarrow> ('t, 'c, 'f) AppManager \<Rightarrow> bool" where
  "app_is_exist app m = dm_contains (apps m) app"

definition get_alive_app_number :: "('t, 'c, 'f) AppManager \<Rightarrow> nat" where
  "get_alive_app_number m = length (apps m)"

text \<open>An operation of the application \<open>app\<close>, whose entry \<open>a\<close> was found in the table.\<close>

definition on_app ::
    "string \<Rightarrow> 't App \<Rightarrow> ('t App \<Rightarrow> ('t, 'c, 'f) HybridStore \<Rightarrow> 't App \<times> ('t, 'c, 'f) HybridStore \<times> 'r) \<Rightarrow>
     ('t, 'c, 'f) AppManager \<Rightarrow> ('t, 'c, 'f) AppManager \<times> 'r" where
  "on_app app a f m =
     (let (a', st, r) = f a (m_store m); m = m\<lparr>m_store := st\<rparr>
      in (set_apps (dm_insert app a' (apps m)) m, r))"

text \<open>A size in the configuration that does not parse makes the first registration of an application panic.\<close>

definition manager_register ::
    "('t, 'c, 'f) Env \<Rightarrow> int \<Rightarrow> int \<Rightarrow> string \<Rightarrow> int \<Rightarrow> AppConfigOptions \<Rightarrow> ('t, 'c, 'f) AppManager \<Rightarrow>
     ('t, 'c, 'f) AppManager \<times> (unit, anyhow) outcome" where
  "manager_register env now now_millis app shuffle opts m =
     (case get_app app m of
        Some a \<Rightarrow> (set_apps (dm_insert app (register_shuffle now shuffle a) (apps m)) m, Ok ())
      | None \<Rightarrow>
          (case app_from env now now_millis app opts (m_config m) (m_store m) of
             (st, Ok a) \<Rightarrow>
               let m = m\<lparr>m_store := st\<rparr>
               in (set_apps (dm_insert app (register_shuffle now shuffle a) (apps m)) m, Ok ())
           | (st, _) \<Rightarrow> (m\<lparr>m_store := st\<rparr>, Panic)))"

definition unregister_shuffle :: "string \<Rightarrow> int \<Rightarrow> ('t, 'c, 'f) AppManager \<Rightarrow> ('t, 'c, 'f) AppManager" where
  "unregister_shuffle app shuffle m = m\<lparr>purge_queue := purge_queue m @ [APP_PARTIAL_SHUFFLES_PURGE app shuffle]\<rparr>"

definition unregister_app :: "string \<Rightarrow> ('t, 'c, 'f) AppManager \<Rightarrow> ('t, 'c, 'f) AppManager" where
  "unregister_app app m = m\<lparr>purge_queue := purge_queue m @ [APP_PURGE app]\<rparr>"

definition app_not_exist :: "string \<Rightarrow> anyhow" where
  "app_not_exist app = Any_message (''App:'' @ app @ '' don't exist when purging data, this should not happen'')"

text \<open>The entry is removed before the data is purged; a removed application is not put back.\<close>

definition purge_app_data ::
    "('t, 'c, 'f) Env \<Rightarrow> string \<Rightarrow> int option \<Rightarrow> ('t, 'c, 'f) AppManager \<Rightarrow> ('t, 'c, 'f) AppManager \<times> (unit, anyhow) outcome" where
  "purge_app_data env app shuffle m =
     (case get_app app m of
        None \<Rightarrow> (m, Err (app_not_exist app))
      | Some a \<Rightarrow>
          (case shuffle of
             None \<Rightarrow>
               let m = set_apps (dm_remove app (apps m)) m; (_, st, r) = app_purge env app None a (m_store m)
               in (m\<lparr>m_store := st\<rparr>, r)
           | Some s \<Rightarrow> on_app app a (app_purge env app (Some s)) m))"

definition handle_purge_event ::
    "('t, 'c, 'f) Env \<Rightarrow> PurgeEvent \<Rightarrow> ('t, 'c, 'f) AppManager \<Rightarrow> ('t, 'c, 'f) AppManager \<times> (unit, anyhow) outcome" where
  "handle_purge_event env ev m =
     (case ev of
        HEARTBEAT_TIMEOUT app \<Rightarrow> purge_app_data env app None m
      | APP_PURGE app \<Rightarrow> purge_app_data env app None m
      | APP_PARTIAL_SHUFFLES_PURGE app s \<Rightarrow> purge_app_data env app (Some s) m)"

text \<open>One turn of the purger: errors are logged, a panic ends the task and is \<open>None\<close>.\<close>

definition purger_turn :: "('t, 'c, 'f) Env \<Rightarrow> ('t, 'c, 'f) AppManager \<Rightarrow> ('t, 'c, 'f) AppManager option" where
  "purger_turn env m =
     (case purge_queue m of
        [] \<Rightarrow> Some m
      | ev # q \<Rightarrow>
          (case handle_purge_event env ev (m\<lparr>purge_queue := q\<rparr>) of (m', Panic) \<Rightarrow> None | (m', _) \<Rightarrow> Some m'))"

text \<open>\<open>now - last\<close> and \<open>timeout * 60\<close> wrap in 64 and 32 bits.\<close>

definition is_heartbeat_timeout :: "int \<Rightarrow> ('t, 'c, 'f) AppManager \<Rightarrow> 't App \<Rightarrow> bool" where
  "is_heartbeat_timeout now m a \<longleftrightarrow>
     u64 (now - latest_heartbeat_time a) > u64 (u32 (m_app_heartbeat_timeout_min m * 60))"

definition heartbeat_round :: "int \<Rightarrow> ('t, 'c, 'f) AppManager \<Rightarrow> ('t, 'c, 'f) AppManager" where
  "heartbeat_round now m =
     m\<lparr>purge_queue := purge_queue m @
        map (\<lambda>e. HEARTBEAT_TIMEOUT (fst e)) (filter (\<lambda>e. is_heartbeat_timeout now m (snd e)) (apps m))\<rparr>"

text \<open>
  The gauges the statistics task sets, in the order it sets them; \<open>view\<close> is the copy of the table it sorts.  The key
  \<open>0 - size\<close> is computed with 64-bit wrap-around.
\<close>

definition topn_gauges :: "(string, 't App) dmap \<Rightarrow> (string \<times> int) list" where
  "topn_gauges view =
     (let sorted_apps = sort_key (\<lambda>a. u64 (0 - total_resident_data_size a)) (map snd view); top_n = 10;
          n = (if length sorted_apps > top_n then top_n else length sorted_apps)
      in map (\<lambda>a. (a_app_id a, i64 (total_resident_data_size a)))
           (filter (\<lambda>a. \<not> total_resident_data_size a \<le> 0) (take n sorted_apps)))"

section \<open>Lookups\<close>

lemma apps_set_apps [simp]: "apps (set_apps t m) = t" "purge_queue (set_apps t m) = purge_queue m"
    "m_store (set_apps t m) = (m_store m)\<lparr>app_manager := Some t\<rparr>"
    "m_app_heartbeat_timeout_min (set_apps t m) = m_app_heartbeat_timeout_min m" "m_config (set_apps t m) = m_config m"
  by (simp_all add: apps_def set_apps_def)

lemma hybrid_purge_local:
  assumes "warm_store st = Some (LocalStore l)" and "cold_store st = None"
    and "memory_purge (state (hot_store st)) ctx (hot_store st) = (h, Ok freed)" and "localfile_purge ctx l = (l', Ok n)"
  shows "hybrid_purge env ctx st = (st\<lparr>hot_store := h, warm_store := Some (LocalStore l')\<rparr>, Ok (i64 (freed + n)))"
  using assms by (simp add: hybrid_purge_def)

lemma hybrid_purge_apps: "app_manager (fst (hybrid_purge env ctx st)) = app_manager st"
  unfolding hybrid_purge_def
  by (intro run_then_keeps [where P = "\<lambda>s. app_manager s = app_manager st"]) (simp_all add: case_prod_unfold Let_def split: option.splits)

lemma app_purge_apps: "app_manager (fst (snd (app_purge env app shuffle a st))) = app_manager st"
proof -
  obtain st' r where p: "hybrid_purge env \<lparr>p_app_id = app, p_shuffle_id = shuffle\<rparr> st = (st', r)" by fastforce
  then have "app_manager st' = app_manager st"
    using hybrid_purge_apps [of env "\<lparr>p_app_id = app, p_shuffle_id = shuffle\<rparr>" st] by simp
  with p show ?thesis by (cases r) (simp_all add: app_purge_def)
qed

lemma purge_app_data_apps:
  assumes "get_app app m = Some a"
  shows "get_app x (fst (purge_app_data env app None m)) = (if x = app then None else get_app x m)"
proof -
  obtain a' st r where p: "app_purge env app None a ((m_store m)\<lparr>app_manager := Some (dm_remove app (apps m))\<rparr>) = (a', st, r)"
    by (rule prod_cases3)
  then have "app_manager st = Some (dm_remove app (apps m))"
    using app_purge_apps [of env app None a "(m_store m)\<lparr>app_manager := Some (dm_remove app (apps m))\<rparr>"] by simp
  then show ?thesis
    using assms p by (simp add: purge_app_data_def get_app_def apps_def dm_simps)
qed

section \<open>Purging\<close>


definition sample_manager :: "(int list, unit, mem_hdfs) AppManager" where
  "sample_manager = set_apps [(''a'', sample_app)] (new_app_manager sample_config full_hybrid)"


section \<open>Expiry\<close>

text \<open>
  The heartbeat check finds exactly the applications that were silent for longer than the timeout.
\<close>

theorem heartbeat_expiry_exact:
  assumes "dm_ok (apps m)" and "0 \<le> m_app_heartbeat_timeout_min m" and "m_app_heartbeat_timeout_min m * 60 < 2 ^ 32"
    and "\<forall>(x, a) \<in> set (apps m). 0 \<le> latest_heartbeat_time a \<and> latest_heartbeat_time a \<le> now" and "now < 2 ^ 64"
  shows "ev \<in> set (purge_queue (heartbeat_round now m)) \<longleftrightarrow>
    ev \<in> set (purge_queue m) \<or>
    (\<exists>x a. ev = HEARTBEAT_TIMEOUT x \<and> get_app x m = Some a \<and>
       now - latest_heartbeat_time a > m_app_heartbeat_timeout_min m * 60)"
proof -
  have get: "get_app x m = Some a \<longleftrightarrow> (x, a) \<in> set (apps m)" for x a
    using assms(1) by (simp add: get_app_def dm_ok_def)
  have "u32 (m_app_heartbeat_timeout_min m * 60) = m_app_heartbeat_timeout_min m * 60"
    using assms(2,3) by (simp add: u32_def)
  then have "is_heartbeat_timeout now m a \<longleftrightarrow> now - latest_heartbeat_time a > m_app_heartbeat_timeout_min m * 60"
    if "(x, a) \<in> set (apps m)" for x a
    using assms that by (auto simp: is_heartbeat_timeout_def u64_id)
  then show ?thesis by (force simp: heartbeat_round_def get)
qed

theorem heartbeat_expiry_exact_witness:
  "HEARTBEAT_TIMEOUT ''a'' \<in> set (purge_queue (heartbeat_round 1000 (sample_manager\<lparr>m_app_heartbeat_timeout_min := 5\<rparr>)))"
proof -
  let ?m = "sample_manager\<lparr>m_app_heartbeat_timeout_min := 5\<rparr>"
  have "apps ?m = [(''a'', sample_app)]" by (simp add: sample_manager_def apps_def set_apps_def)
  then show ?thesis
    using heartbeat_expiry_exact [of ?m 1000 "HEARTBEAT_TIMEOUT ''a''"] by (simp add: sample_app_def get_app_def dm_ok_def)
qed

text \<open>
  C39. A heartbeat does not save an application whose timeout was already detected: the purger handles the queued event
  without looking at the time again.  The same holds for an application that registered again in between.
\<close>

theorem stale_timeout_still_purges:
  assumes "purge_queue m = HEARTBEAT_TIMEOUT app # q" and "get_app app m = Some a"
    and "\<not> is_heartbeat_timeout now m a" and "purger_turn env m = Some m'"
  shows "get_app app m' = None"
proof -
  have "get_app app (m\<lparr>purge_queue := q\<rparr>) = Some a" using assms(2) by (simp add: get_app_def apps_def)
  note purge_app_data_apps [OF this, of app env]
  moreover have "fst (purge_app_data env app None (m\<lparr>purge_queue := q\<rparr>)) = m'"
    using assms(1,4) by (simp add: purger_turn_def handle_purge_event_def split: prod.splits outcome.splits)
  ultimately show ?thesis by simp
qed

definition stale_manager :: "(int list, unit, mem_hdfs) AppManager" where
  "stale_manager = (set_apps [(''a'', sample_app)] (new_app_manager sample_config (sample_hybrid\<lparr>warm_store := None\<rparr>)))
     \<lparr>purge_queue := [HEARTBEAT_TIMEOUT ''a'']\<rparr>"

theorem stale_timeout_still_purges_witness:
  "\<exists>m'. purger_turn sample_env stale_manager = Some m' \<and> get_app ''a'' m' = None"
proof -
  have "get_app ''a'' stale_manager = Some sample_app" "\<not> is_heartbeat_timeout 0 stale_manager sample_app"
      "purge_queue stale_manager = [HEARTBEAT_TIMEOUT ''a'']"
    by (simp_all add: stale_manager_def get_app_def apps_def set_apps_def is_heartbeat_timeout_def sample_app_def u64_def)
  moreover have "\<not> Option.is_none (purger_turn sample_env stale_manager)" by code_simp
  then obtain m' where "purger_turn sample_env stale_manager = Some m'" by (auto simp: Option.is_none_def)
  ultimately show ?thesis using stale_timeout_still_purges [of stale_manager "''a''" "[]" sample_app 0 sample_env m'] by auto
qed

lemma filter_zero_sorted:
  assumes "sorted (map f ys)" and "\<forall>y \<in> set ys. (0 :: int) \<le> f y"
  shows "takeWhile (\<lambda>y. f y = 0) ys = filter (\<lambda>y. f y = 0) ys"
  using assms
proof (induction ys)
  case (Cons y ys)
  show ?case
  proof (cases "f y = 0")
    case False
    then have "filter (\<lambda>y. f y = 0) ys = []" using Cons.prems by (force simp: filter_empty_conv)
    with False show ?thesis by simp
  qed (use Cons in simp)
qed simp

lemma take_takeWhile: "n \<le> length (takeWhile P ys) \<Longrightarrow> take n ys = take n (takeWhile P ys)"
proof (induction ys arbitrary: n)
  case (Cons y ys)
  then show ?case by (cases n) (auto split: if_splits)
qed simp

text \<open>
  Idle applications hide the others from the statistics of the ten largest: the sort key \<open>0 - size\<close> is smallest
  for an application without data, so that with ten of them no size is published at all.
\<close>

lemma topn_crowded_out:
  assumes "\<forall>a \<in> snd ` set view. is_u64 (total_resident_data_size a)"
    and "10 \<le> length (filter (\<lambda>e. total_resident_data_size (snd e) = 0) view)"
  shows "topn_gauges view = []"
proof -
  let ?f = "\<lambda>a. u64 (0 - total_resident_data_size a)"
  define ys where "ys = sort_key ?f (map snd view)"
  have zero: "?f a = 0 \<longleftrightarrow> total_resident_data_size a = 0" if "a \<in> snd ` set view" for a
  proof -
    have "0 \<le> total_resident_data_size a" "total_resident_data_size a < 2 ^ 64"
      using assms(1) that by (auto simp: is_u64_def)
    then show ?thesis by (auto simp: u64_def zmod_zminus1_eq_if)
  qed
  have set: "set ys = snd ` set view" by (simp add: ys_def)
  have "takeWhile (\<lambda>a. ?f a = 0) ys = filter (\<lambda>a. ?f a = 0) ys"
    by (rule filter_zero_sorted) (simp_all add: ys_def u64_def)
  also have "length \<dots> = length (filter (\<lambda>a. ?f a = 0) (map snd view))"
    unfolding ys_def by (metis mset_filter mset_sort size_mset)
  also have "\<dots> = length (filter (\<lambda>e. total_resident_data_size (snd e) = 0) view)"
    using zero by (auto simp: filter_map comp_def intro!: arg_cong [of _ _ length] filter_cong)
  finally have n: "10 \<le> length (takeWhile (\<lambda>a. ?f a = 0) ys)" using assms(2) by simp
  have "take n ys = take n (takeWhile (\<lambda>a. ?f a = 0) ys)" if "n \<le> 10" for n
    using n that by (intro take_takeWhile) simp
  then have "filter (\<lambda>a. \<not> total_resident_data_size a \<le> 0) (take n ys) = []" if "n \<le> 10" for n
    using that zero set by (auto simp: filter_empty_conv dest!: in_set_takeD set_takeWhileD)
  then have "filter (\<lambda>a. \<not> total_resident_data_size a \<le> 0) (take (if length ys > 10 then 10 else length ys) ys) = []" by simp
  then show ?thesis unfolding topn_gauges_def Let_def ys_def [symmetric] by (simp only: list.map)
qed

definition idle_app :: "int list App" where
  "idle_app = sample_app\<lparr>total_resident_data_size := 0\<rparr>"

lemma topn_crowded_out_witness:
  "topn_gauges ((''big'', sample_app\<lparr>total_resident_data_size := 1000\<rparr>) # map (\<lambda>i. (show_nat i, idle_app)) [0..<10]) = []"
  by (rule topn_crowded_out) (simp_all add: idle_app_def is_u64_def upt_rec)

end
