(* ===== verification/Write_Path.thy ===== *)
theory Write_Path
  imports App_Manager
begin

text \<open>
  What an insert into the hybrid store does to the memory: it appends to one buffer and may then put the staged
  blocks of some buffers in flight, at most twice per buffer.  Blocks and sizes of all buffers are kept, and the
  budget is not touched; the handlers of both protocols settle it afterwards.
\<close>

section \<open>Spilling keeps the blocks\<close>

text \<open>Between the two states, the staged blocks of some of the buffers have been put in flight.\<close>

definition spill_round :: "MemoryStore \<Rightarrow> MemoryStore \<Rightarrow> bool" where
  "spill_round h h' \<longleftrightarrow>
     h\<lparr>state := []\<rparr> = h'\<lparr>state := []\<rparr> \<and> (dm_ok (state h) \<longrightarrow> dm_ok (state h')) \<and>
     (\<forall>v. dm_get (state h') v = dm_get (state h) v \<or>
        (\<exists>b. dm_get (state h) v = Some b \<and> dm_get (state h') v = Some (fst (spill b))))"

lemma spill_round_refl [simp]: "spill_round h h"
  by (simp add: spill_round_def)

lemma spill_round_single:
  "dm_get (state h) uid = Some b \<Longrightarrow> spill_round h (put_buffer uid (fst (spill b)) h)"
  by (auto simp: spill_round_def put_buffer_def dm_simps)

lemma buffer_spill_impl_hot:
  "hot_store (fst (buffer_spill_impl uid b st)) = put_buffer uid (fst (spill b)) (hot_store st)"
  by (simp add: buffer_spill_impl_def publish_spill_event_def start_spill_event_def Let_def case_prod_unfold)

lemma single_buffer_spill_round: "spill_round (hot_store st) (hot_store (fst (single_buffer_spill uid st)))"
  by (cases "dm_get (state (hot_store st)) uid")
    (simp_all add: single_buffer_spill_def get_buffer_def buffer_spill_impl_hot spill_round_single)

text \<open>The candidates are buffers of the store, each once.\<close>

definition candidates_ok :: "MemoryStore \<Rightarrow> (PartitionedUId, BufferInternal) dmap \<Rightarrow> bool" where
  "candidates_ok h cand \<longleftrightarrow> dm_ok cand \<and> (\<forall>(u, b) \<in> set cand. dm_get (state h) u = Some b)"

lemma pick_candidates_ok:
  "candidates_ok h cand \<Longrightarrow> candidates_ok h (pick_candidates h required todo spilled cand)"
proof (induction h required todo spilled cand rule: pick_candidates.induct)
  case (2 h required sz uid todo spilled cand)
  show ?case
  proof (cases "dm_get (state h) uid")
    case None
    then show ?thesis using 2 by (simp add: get_buffer_def)
  next
    case (Some b)
    then have "candidates_ok h (dm_insert uid b cand)"
      using "2.prems" set_dm_insert [of uid b cand] by (fastforce simp: candidates_ok_def)
    then show ?thesis using 2 Some by (simp add: get_buffer_def)
  qed
qed simp

lemma spill_candidates_hot:
  "distinct (map fst cs) \<Longrightarrow>
   (hot_store (spill_candidates cs st))\<lparr>state := []\<rparr> = (hot_store st)\<lparr>state := []\<rparr> \<and>
   (dm_ok (state (hot_store st)) \<longrightarrow> dm_ok (state (hot_store (spill_candidates cs st)))) \<and>
   (\<forall>v. dm_get (state (hot_store (spill_candidates cs st))) v =
      (case dm_get cs v of Some b \<Rightarrow> Some (fst (spill b)) | None \<Rightarrow> dm_get (state (hot_store st)) v))"
proof (induction cs st rule: spill_candidates.induct)
  case (2 uid b cs st)
  have none: "dm_get cs uid = None" using 2(2) by (simp add: map_of_eq_None_iff)
  have "dm_get (state (hot_store (spill_candidates ((uid, b) # cs) st))) v =
      (case dm_get ((uid, b) # cs) v of Some b \<Rightarrow> Some (fst (spill b)) | None \<Rightarrow> dm_get (state (hot_store st)) v)" for v
    using 2 none by (cases "v = uid"; cases "dm_get cs v") (simp_all add: buffer_spill_impl_hot put_buffer_def dm_simps)
  with 2 show ?case by (simp add: buffer_spill_impl_hot put_buffer_def)
qed simp

lemma watermark_spill_round: "spill_round (hot_store st) (hot_store (fst (watermark_spill (state (hot_store st)) st)))"
proof -
  have "spill_round (hot_store st) (hot_store (spill_candidates cand st))" if "candidates_ok (hot_store st) cand" for cand
    using spill_candidates_hot [of cand st] that
    by (auto simp: spill_round_def candidates_ok_def dm_ok_def split: option.splits)
  moreover have "candidates_ok (hot_store st) []" by (simp add: candidates_ok_def dm_ok_def)
  ultimately show ?thesis
    using pick_candidates_ok by (auto simp: watermark_spill_def lookup_spill_buffers_def Let_def)
qed

lemma hybrid_insert_rounds:
  obtains h where "spill_round (fst (memory_insert ctx (hot_store st))) h"
    and "spill_round h (hot_store (fst (hybrid_insert lock_free ctx st)))" and "snd (hybrid_insert lock_free ctx st) = Ok ()"
proof -
  obtain h0 where ok: "memory_insert ctx (hot_store st) = (h0, Ok ())"
    by (simp add: memory_insert_def case_prod_unfold Let_def)
  let ?st = "st\<lparr>hot_store := h0\<rparr>"
  have "dm_get (state (fst (memory_insert ctx (hot_store st)))) (w_uid ctx) \<noteq> None"
    by (simp add: memory_insert_def put_buffer_def case_prod_unfold Let_def dm_simps)
  then obtain n where n: "get_buffer_staging_size (w_uid ctx) h0 = Ok n"
    unfolding ok
    by (auto simp: get_buffer_staging_size_def get_buffer_def)
  show thesis
  proof (cases "is_memory_only ?st \<or> \<not> lock_free")
    case True
    then have "hybrid_insert lock_free ctx st = (?st, Ok ())"
      unfolding hybrid_insert_def Let_def ok by simp
    then show thesis using that [of h0] ok by simp
  next
    case False
    define st1 where "st1 = (case memory_spill_partition_max_threshold ?st of None \<Rightarrow> ?st
      | Some threshold \<Rightarrow> if n > threshold then fst (single_buffer_spill (w_uid ctx) ?st) else ?st)"
    have "spill_round h0 (hot_store st1)"
      using single_buffer_spill_round [of ?st "w_uid ctx"] by (simp add: st1_def split: option.split)
    moreover have "hybrid_insert lock_free ctx st =
        (if flt_less (memory_spill_high_watermark (hybrid_config st1)) (get_memory_used_ratio st1)
         then fst (watermark_spill (state (hot_store st1)) st1) else st1, Ok ())"
      using False n unfolding hybrid_insert_def Let_def ok
      by (cases "memory_spill_partition_max_threshold st") (simp_all add: st1_def from_anyhow_def)
    ultimately show thesis
      using that [of "hot_store st1"] watermark_spill_round [of st1] ok by simp
  qed
qed

section \<open>Blocks and sizes\<close>

definition hot_blocks :: "MemoryStore \<Rightarrow> PartitionedUId \<Rightarrow> Block multiset" where
  "hot_blocks h uid = (case dm_get (state h) uid of None \<Rightarrow> {#} | Some b \<Rightarrow> contents b)"

text \<open>All buffers are consistent, and each can be spilled \<open>k\<close> more times before its counter of flights wraps.\<close>

definition hot_inv :: "nat \<Rightarrow> MemoryStore \<Rightarrow> bool" where
  "hot_inv k h \<longleftrightarrow> dm_ok (state h) \<and>
     (\<forall>uid b. dm_get (state h) uid = Some b \<longrightarrow> buffer_inv b \<and> flight_counter b + int k < 2 ^ 64)"

lemma spill_round_keeps:
  assumes "hot_inv (Suc k) h" and "spill_round h h'"
  shows "hot_inv k h' \<and> (\<forall>uid. hot_blocks h' uid = hot_blocks h uid \<and> held uid h' = held uid h) \<and> h'\<lparr>state := []\<rparr> = h\<lparr>state := []\<rparr>"
proof -
  have b: "buffer_inv b" "flight_counter b + int (Suc k) < 2 ^ 64" if "dm_get (state h) uid = Some b" for uid b
    using assms(1) that by (auto simp: hot_inv_def)
  have sp: "flight_counter (fst (spill b)) = flight_counter b + 1 \<and> buffer_inv (fst (spill b)) \<and>
      contents (fst (spill b)) = contents b \<and> total_size (fst (spill b)) = total_size b"
    if "dm_get (state h) uid = Some b" for uid b
  proof -
    have "flight_counter b < 2 ^ 64 - 1" using b(2) [OF that] by simp
    from spill_eq [OF b(1) [OF that] this] spill_inv [OF b(1) [OF that] this] show ?thesis by simp
  qed
  have v: "dm_get (state h') v = dm_get (state h) v \<or>
      (\<exists>b. dm_get (state h) v = Some b \<and> dm_get (state h') v = Some (fst (spill b)))" for v
    using assms(2) by (simp add: spill_round_def)
  have "hot_blocks h' uid = hot_blocks h uid \<and> held uid h' = held uid h" for uid
    using v [of uid] sp by (auto simp: hot_blocks_def held_def)
  moreover have "buffer_inv c \<and> flight_counter c + int k < 2 ^ 64" if "dm_get (state h') uid = Some c" for uid c
    using v [of uid] that b [of uid] sp [of uid] by fastforce
  ultimately show ?thesis
    using assms by (simp add: hot_inv_def spill_round_def)
qed

lemma memory_insert_keeps:
  assumes "hot_inv k h" and "honest ctx" and "held (w_uid ctx) h + w_data_size ctx < 2 ^ 63" and "k < 2 ^ 63"
  defines "h' \<equiv> fst (memory_insert ctx h)"
  shows "hot_inv k h' \<and> h'\<lparr>state := []\<rparr> = h\<lparr>state := []\<rparr> \<and>
    (\<forall>uid. hot_blocks h' uid = hot_blocks h uid + (if uid = w_uid ctx then mset (w_data_blocks ctx) else {#}) \<and>
       held uid h' = held uid h + (if uid = w_uid ctx then w_data_size ctx else 0))"
proof -
  let ?uid = "w_uid ctx" and ?bs = "w_data_blocks ctx"
  define b where "b = (case dm_get (state h) ?uid of Some b \<Rightarrow> b | None \<Rightarrow> new_buffer)"
  let ?b = "append_blocks ?bs (lens ?bs) b"
  have b: "buffer_inv b" "total_size b = held ?uid h" "flight_counter b + int k < 2 ^ 64"
    using assms(1,4) buffer_inv_new by (auto simp: b_def held_def hot_inv_def new_buffer_def split: option.split)
  have h': "state h' = dm_insert ?uid ?b (state h)" "h'\<lparr>state := []\<rparr> = h\<lparr>state := []\<rparr>"
    by (simp_all add: h'_def memory_insert_eq [OF assms(2)] b_def)
  have app: "buffer_inv ?b" "total_size ?b = held ?uid h + w_data_size ctx" "contents ?b = contents b + mset ?bs"
    using append_blocks_inv [OF b(1), of ?bs] assms(2,3) b(2) by (auto simp: honest_def)
  have "contents b = hot_blocks h ?uid"
    by (simp add: b_def hot_blocks_def new_buffer_def contents_def all_blocks_def split: option.split)
  moreover have "flight_counter ?b = flight_counter b" by (simp add: append_blocks_def)
  ultimately show ?thesis
    using app b(3) assms(1) h' by (auto simp: hot_inv_def hot_blocks_def held_def dm_simps)
qed

lemma hybrid_insert_keeps:
  fixes st :: "('t, 'c, 'f) HybridStore" and lock_free ctx
  assumes "hot_inv (k + 2) (hot_store st)" and "honest ctx" and "held (w_uid ctx) (hot_store st) + w_data_size ctx < 2 ^ 63"
    and "k + 2 < 2 ^ 63"
  defines "st' \<equiv> fst (hybrid_insert lock_free ctx st)"
  shows "hot_inv k (hot_store st') \<and> (hot_store st')\<lparr>state := []\<rparr> = (hot_store st)\<lparr>state := []\<rparr> \<and>
    snd (hybrid_insert lock_free ctx st) = Ok () \<and>
    (\<forall>uid. hot_blocks (hot_store st') uid = hot_blocks (hot_store st) uid + (if uid = w_uid ctx then mset (w_data_blocks ctx) else {#}) \<and>
       held uid (hot_store st') = held uid (hot_store st) + (if uid = w_uid ctx then w_data_size ctx else 0))"
proof -
  obtain h where h: "spill_round (fst (memory_insert ctx (hot_store st))) h" "spill_round h (hot_store st')"
      "snd (hybrid_insert lock_free ctx st) = Ok ()"
    unfolding st'_def by (rule hybrid_insert_rounds)
  note m = memory_insert_keeps [OF assms(1-4)]
  have "hot_inv (Suc (Suc k)) (fst (memory_insert ctx (hot_store st)))" using m by simp
  note s1 = spill_round_keeps [OF this h(1)]
  note s2 = spill_round_keeps [OF conjunct1 [OF s1] h(2)]
  show ?thesis using m s1 s2 h(3) by simp
qed

end
