(* ===== verification/No_Loss.thy ===== *)
theory No_Loss
  imports Write_Path
begin

text \<open>
  The store with memory and local disks as one component: inserts, the tasks of the spill and the reservations of memory in
  any interleaving.  Seen from outside it is a bag of blocks per partition to which an insert adds, and that nothing
  else changes: each block is in memory or on the local disk, exactly once.
\<close>

section \<open>Messages and flights\<close>

abbreviation open_events :: "('t, 'c, 'f) HybridStore \<Rightarrow> SpillMessage multiset" where
  "open_events \<equiv> Spill_Pipeline.pending"

text \<open>The flight that a spill message is about.\<close>

definition key :: "SpillMessage \<Rightarrow> PartitionedUId \<times> int" where
  "key m = (spill_uid (msg_ctx m), msg_flight_id m)"

definition linked :: "MemoryStore \<Rightarrow> SpillMessage \<Rightarrow> bool" where
  "linked h m \<longleftrightarrow> (\<exists>b. dm_get (state h) (spill_uid (msg_ctx m)) = Some b \<and>
     dm_get (flight b) (msg_flight_id m) = Some (spill_data_blocks (msg_ctx m)) \<and>
     msg_size m = lens (concat (spill_data_blocks (msg_ctx m))))"

definition unique :: "SpillMessage multiset \<Rightarrow> bool" where
  "unique M \<longleftrightarrow> (\<forall>k. count (image_mset key M) k \<le> 1)"

lemma unique_empty [simp]: "unique {#}"
  by (simp add: unique_def)

lemma unique_add: "unique (add_mset m M) \<longleftrightarrow> unique M \<and> (\<forall>m' \<in># M. key m' \<noteq> key m)"
proof -
  have "(\<forall>m' \<in># M. key m' \<noteq> key m) \<longleftrightarrow> count (image_mset key M) (key m) = 0"
    by (simp add: count_eq_zero_iff) (metis image_iff)
  moreover have "unique (add_mset m M) \<longleftrightarrow> unique M \<and> count (image_mset key M) (key m) = 0"
  proof
    assume u: "unique (add_mset m M)"
    have "count (image_mset key M) k \<le> 1" for k
      using spec [OF u [unfolded unique_def], of k] by (cases "key m = k") simp_all
    moreover have "count (image_mset key M) (key m) = 0" using spec [OF u [unfolded unique_def], of "key m"] by simp
    ultimately show "unique M \<and> count (image_mset key M) (key m) = 0" by (simp add: unique_def)
  next
    assume "unique M \<and> count (image_mset key M) (key m) = 0"
    then have "count (image_mset key (add_mset m M)) k \<le> 1" for k by (cases "key m = k") (auto simp: unique_def simp del: split_paired_All)
    then show "unique (add_mset m M)" unfolding unique_def by blast
  qed
  ultimately show ?thesis by simp
qed

section \<open>The invariant\<close>

text \<open>The application of a partition is known to the store, so that its spills are not dropped.\<close>

definition served :: "('t, 'c, 'f) HybridStore \<Rightarrow> PartitionedUId \<Rightarrow> bool" where
  "served st uid \<longleftrightarrow> (case app_manager st of None \<Rightarrow> True | Some tbl \<Rightarrow> dm_contains tbl (app_id uid))"

lemma is_valid_served: "is_valid m st = served st (spill_uid (msg_ctx m))"
  by (simp add: is_valid_def served_def)

definition buffers_ok :: "('t, 'c, 'f) HybridStore \<Rightarrow> bool" where
  "buffers_ok st \<longleftrightarrow> dm_ok (state (hot_store st)) \<and>
     (\<forall>uid b. dm_get (state (hot_store st)) uid = Some b \<longrightarrow> buffer_inv b \<and> plain_name (app_id uid) \<and> served st uid)"

text \<open>Every flight has a message that is still being worked on.\<close>

definition covered :: "('t, 'c, 'f) HybridStore \<Rightarrow> bool" where
  "covered st \<longleftrightarrow> (\<forall>uid b. dm_get (state (hot_store st)) uid = Some b \<longrightarrow>
     (\<forall>i. dm_get (flight b) i \<noteq> None \<longrightarrow> (\<exists>m \<in># open_events st. key m = (uid, i))))"

definition messages_ok :: "('t, 'c, 'f) HybridStore \<Rightarrow> bool" where
  "messages_ok st \<longleftrightarrow> unique (open_events st) \<and> (\<forall>m \<in># open_events st. linked (hot_store st) m \<and> retry_cnt m = 0) \<and>
     (\<forall>m \<in># mset (events (localfile_bus st)). candidate_store_type m = Some LOCALFILE) \<and> events (hdfs_bus st) = []"

definition on_disk_ok :: "codec \<Rightarrow> (PartitionedUId \<Rightarrow> Block list option) \<Rightarrow> ('t, 'c, 'f) HybridStore \<Rightarrow> bool" where
  "on_disk_ok c W st \<longleftrightarrow> cold_store st = None \<and> (\<exists>l. warm_store st = Some (LocalStore l) \<and> quiet l \<and> lf_ok c W l)"

text \<open>Blocks that can be written to a disk, and not more of them than a file can hold.\<close>

definition bag_ok :: "Block multiset \<Rightarrow> bool" where
  "bag_ok M \<longleftrightarrow> (\<forall>x \<in># M. block_ok x) \<and> (\<Sum>x \<in># M. length_of x) < 2 ^ 63"

definition stored :: "(PartitionedUId \<Rightarrow> Block list option) \<Rightarrow> ('t, 'c, 'f) HybridStore \<Rightarrow> PartitionedUId \<Rightarrow> Block multiset" where
  "stored W st uid = hot_blocks (hot_store st) uid + mset (written W uid)"

definition safe :: "codec \<Rightarrow> (PartitionedUId \<Rightarrow> Block multiset) \<Rightarrow> (PartitionedUId \<Rightarrow> Block list option) \<Rightarrow>
    ('t, 'c, 'f) HybridStore \<Rightarrow> bool" where
  "safe c A W st \<longleftrightarrow> buffers_ok st \<and> messages_ok st \<and> covered st \<and> on_disk_ok c W st \<and> stored W st = A"

section \<open>Steps keep the invariant\<close>

lemma linked_cong:
  assumes "linked h m"
    and "\<And>b. dm_get (state h) (spill_uid (msg_ctx m)) = Some b \<Longrightarrow>
      \<exists>b'. dm_get (state h') (spill_uid (msg_ctx m)) = Some b' \<and> dm_get (flight b') (msg_flight_id m) = dm_get (flight b) (msg_flight_id m)"
  shows "linked h' m"
  using assms by (force simp: linked_def)

lemma hot_blocks_upd: "hot_blocks (h\<lparr>state := dm_insert uid b (state h)\<rparr>) v = (if v = uid then contents b else hot_blocks h v)"
  by (simp add: hot_blocks_def dm_simps)

lemma safe_memory_insert:
  assumes "safe c A W st" and "honest ctx" and "plain_name (app_id (w_uid ctx))" and "served st (w_uid ctx)"
    and "held (w_uid ctx) (hot_store st) + w_data_size ctx < 2 ^ 63"
  shows "safe c (A(w_uid ctx := A (w_uid ctx) + mset (w_data_blocks ctx))) W (st\<lparr>hot_store := fst (memory_insert ctx (hot_store st))\<rparr>)"
proof -
  let ?uid = "w_uid ctx" and ?bs = "w_data_blocks ctx" and ?h = "hot_store st"
  define b where "b = (case dm_get (state ?h) ?uid of Some b \<Rightarrow> b | None \<Rightarrow> new_buffer)"
  define b' where "b' = append_blocks ?bs (lens ?bs) b"
  have ins: "fst (memory_insert ctx ?h) = ?h\<lparr>state := dm_insert ?uid b' (state ?h)\<rparr>"
    by (simp add: memory_insert_eq [OF assms(2)] b_def b'_def)
  have inv: "buffer_inv b" "total_size b = held ?uid ?h" "contents b = hot_blocks ?h ?uid"
    using assms(1) buffer_inv_new
    by (auto simp: b_def safe_def buffers_ok_def held_def hot_blocks_def new_buffer_def contents_def all_blocks_def split: option.split)
  have app: "buffer_inv b'" "contents b' = hot_blocks ?h ?uid + mset ?bs" "flight b' = flight b"
    using append_blocks_inv [OF inv(1), of ?bs] assms(2,5) inv(2,3) by (auto simp: b'_def honest_def append_blocks_def)
  have "linked (fst (memory_insert ctx ?h)) m" if "linked ?h m" for m
    using that by (rule linked_cong) (auto simp: ins dm_simps app(3) b_def)
  moreover have "stored W (st\<lparr>hot_store := fst (memory_insert ctx ?h)\<rparr>) = A(?uid := A ?uid + mset ?bs)"
    using assms(1) app(2) by (auto simp: safe_def stored_def ins hot_blocks_upd fun_eq_iff)
  moreover have "covered (st\<lparr>hot_store := fst (memory_insert ctx ?h)\<rparr>)"
  proof -
    have "\<exists>m \<in># open_events st. key m = (?uid, i)" if "dm_get (flight b) i \<noteq> None" for i
      using assms(1) that by (cases "dm_get (state ?h) ?uid") (auto simp: safe_def covered_def b_def new_buffer_def)
    then show ?thesis using assms(1) by (auto simp: safe_def covered_def ins dm_simps app(3) Spill_Pipeline.pending_def)
  qed
  ultimately show ?thesis
    using assms(1,3,4) app(1)
    by (auto simp: safe_def buffers_ok_def messages_ok_def on_disk_ok_def Spill_Pipeline.pending_def ins dm_simps served_def)
qed

lemma buffer_spill_impl_eq:
  assumes "buffer_inv b" and "flight_counter b < 2 ^ 64 - 1"
  shows "fst (buffer_spill_impl uid b st) =
    publish_spill_event (spill_message uid b) (st\<lparr>hot_store := put_buffer uid (fst (spill b)) (hot_store st)\<rparr>)"
proof -
  have "i64 (staging_size b) = staging_size b"
    using buffer_inv_sizes [OF assms(1)] assms(1) by (intro i64_id) (auto simp: buffer_inv_def)
  then show ?thesis by (simp add: buffer_spill_impl_def spill_eq [OF assms] spill_message_def)
qed

lemma safe_buffer_spill:
  assumes "safe c A W st" and "dm_get (state (hot_store st)) uid = Some b" and "flight_counter b < 2 ^ 64 - 1"
  shows "safe c A W (fst (buffer_spill_impl uid b st))"
proof -
  let ?h = "hot_store st" and ?m = "spill_message uid b"
  define st' where "st' = fst (buffer_spill_impl uid b st)"
  have inv: "buffer_inv b" "plain_name (app_id uid)" "served st uid"
    using assms(1,2) by (auto simp: safe_def buffers_ok_def)
  note sp = spill_eq [OF inv(1) assms(3)] and si = spill_inv [OF inv(1) assms(3)]
  have st': "hot_store st' = ?h\<lparr>state := dm_insert uid (fst (spill b)) (state ?h)\<rparr>" "open_events st' = add_mset ?m (open_events st)"
      "localfile_bus st' = localfile_bus st" "hdfs_bus st' = hdfs_bus st" "warm_store st' = warm_store st" "cold_store st' = cold_store st"
      "app_manager st' = app_manager st"
    unfolding st'_def buffer_spill_impl_eq [OF inv(1) assms(3)]
    by (simp_all add: publish_spill_event_def start_spill_event_def put_buffer_def Spill_Pipeline.pending_def events_publish)
  have below: "i < flight_counter b" if "dm_get (flight b) i = Some bb" for i bb
    using inv(1) map_of_SomeD [OF that] by (fastforce simp: buffer_inv_def list_all_iff)
  have msgs: "linked ?h m" if "m \<in># open_events st" for m using assms(1) that by (auto simp: safe_def messages_ok_def)
  have "linked (hot_store st') m" if mem: "m \<in># open_events st" for m
  proof -
    obtain b1 where b1: "dm_get (state ?h) (spill_uid (msg_ctx m)) = Some b1"
        "dm_get (flight b1) (msg_flight_id m) = Some (spill_data_blocks (msg_ctx m))"
      using msgs [OF mem] by (auto simp: linked_def)
    then have "msg_flight_id m \<noteq> flight_counter b" if "spill_uid (msg_ctx m) = uid"
      using that assms(2) below [of "msg_flight_id m"] by auto
    then show ?thesis
      using msgs [OF mem] b1 assms(2) by (auto simp: linked_def st'(1) dm_simps sp map_add_def)
  qed
  moreover have "linked (hot_store st') ?m"
    using si(5) inv(1) by (simp add: linked_def st'(1) dm_simps spill_message_def sp buffer_inv_def)
  moreover have "key m \<noteq> key ?m" if "m \<in># open_events st" for m
    using msgs [OF that] assms(2) below [of "flight_counter b"] by (auto simp: key_def linked_def spill_message_def)
  moreover have "hot_blocks ?h uid = contents b" using assms(2) by (simp add: hot_blocks_def)
  then have "hot_blocks (hot_store st') v = hot_blocks ?h v" for v using si(4) by (simp add: st'(1) hot_blocks_upd)
  then have "stored W st' = A" using assms(1) by (simp add: safe_def stored_def fun_eq_iff)
  moreover have "covered st'"
  proof -
    have "key ?m = (uid, flight_counter b)" by (simp add: key_def spill_message_def)
    then show ?thesis using assms(1,2) by (auto simp: safe_def covered_def st' dm_simps sp map_add_Some_iff split: if_splits)
  qed
  ultimately have "safe c A W st'"
    using assms(1) si(1) inv(2,3)
    by (auto simp: safe_def buffers_ok_def messages_ok_def on_disk_ok_def st' dm_simps served_def unique_add spill_message_def)
  then show ?thesis by (simp add: st'_def)
qed

text \<open>Spilling the candidates of the watermark, one after the other.\<close>

lemma safe_spill_candidates:
  assumes "safe c A W st" and "distinct (map fst cs)"
    and "\<And>u b. (u, b) \<in> set cs \<Longrightarrow> dm_get (state (hot_store st)) u = Some b \<and> flight_counter b < 2 ^ 64 - 1"
  shows "safe c A W (spill_candidates cs st)"
  using assms
proof (induction cs st rule: spill_candidates.induct)
  case (2 uid b cs st)
  have b: "dm_get (state (hot_store st)) uid = Some b" "flight_counter b < 2 ^ 64 - 1" using 2(4) by auto
  have "dm_get (state (hot_store (fst (buffer_spill_impl uid b st)))) u = Some b' \<and> flight_counter b' < 2 ^ 64 - 1"
    if "(u, b') \<in> set cs" for u b'
    using 2(4) [of u b'] 2(3) that by (force simp: buffer_spill_impl_hot put_buffer_def dm_simps)
  then show ?case using 2(1,3) safe_buffer_spill [OF 2(2) b] by simp
qed simp

lemma hot_inv_counter:
  assumes "hot_inv (Suc k) h" and "dm_get (state h) uid = Some b"
  shows "flight_counter b < 2 ^ 64 - 1"
proof -
  have "flight_counter b + int (Suc k) < 2 ^ 64" using assms unfolding hot_inv_def by blast
  then show ?thesis by simp
qed

lemma safe_watermark:
  assumes "safe c A W st" and "hot_inv (Suc k) (hot_store st)"
  shows "safe c A W (fst (watermark_spill (state (hot_store st)) st))"
proof -
  have "safe c A W (spill_candidates cand st)" if "candidates_ok (hot_store st) cand" for cand
    using that assms hot_inv_counter [OF assms(2)] by (intro safe_spill_candidates) (auto simp: candidates_ok_def dm_ok_def)
  moreover have "candidates_ok (hot_store st) []" by (simp add: candidates_ok_def dm_ok_def)
  ultimately show ?thesis
    using assms(1) pick_candidates_ok by (auto simp: watermark_spill_def lookup_spill_buffers_def Let_def)
qed

lemma safe_single:
  assumes "safe c A W st" and "hot_inv (Suc k) (hot_store st)"
  shows "safe c A W (fst (single_buffer_spill uid st))"
  using assms(1) safe_buffer_spill [OF assms(1) _ hot_inv_counter [OF assms(2)], of uid]
  by (cases "dm_get (state (hot_store st)) uid") (auto simp: single_buffer_spill_def get_buffer_def)

lemma safe_hybrid_insert:
  assumes "safe c A W st" and "honest ctx" and "plain_name (app_id (w_uid ctx))" and "served st (w_uid ctx)"
    and "held (w_uid ctx) (hot_store st) + w_data_size ctx < 2 ^ 63" and "hot_inv (k + 2) (hot_store st)" and "k + 2 < 2 ^ 63"
  shows "safe c (A(w_uid ctx := A (w_uid ctx) + mset (w_data_blocks ctx))) W (fst (hybrid_insert lock_free ctx st))"
proof -
  let ?A = "A(w_uid ctx := A (w_uid ctx) + mset (w_data_blocks ctx))"
  obtain h0 where ok: "memory_insert ctx (hot_store st) = (h0, Ok ())"
    by (simp add: memory_insert_def case_prod_unfold Let_def)
  define st0 where "st0 = st\<lparr>hot_store := h0\<rparr>"
  have s0: "safe c ?A W st0" using safe_memory_insert [OF assms(1-5)] ok by (simp add: st0_def)
  have h0: "hot_inv (Suc (Suc k)) h0" using memory_insert_keeps [OF assms(6,2,5,7)] ok by simp
  have "dm_get (state h0) (w_uid ctx) \<noteq> None"
    using ok by (auto simp: memory_insert_def put_buffer_def case_prod_unfold Let_def dm_simps)
  then obtain n where n: "get_buffer_staging_size (w_uid ctx) h0 = Ok n"
    by (auto simp: get_buffer_staging_size_def get_buffer_def)
  define st1 where "st1 = (case memory_spill_partition_max_threshold st0 of None \<Rightarrow> st0
    | Some threshold \<Rightarrow> if n > threshold then fst (single_buffer_spill (w_uid ctx) st0) else st0)"
  have s1: "safe c ?A W st1"
    using s0 safe_single [OF s0, of "Suc k"] h0 by (auto simp: st1_def st0_def split: option.split)
  have "spill_round h0 (hot_store st1)"
    using single_buffer_spill_round [of st0 "w_uid ctx"] by (simp add: st1_def st0_def split: option.split)
  then have "hot_inv (Suc k) (hot_store st1)" using spill_round_keeps [OF h0] by blast
  then have s2: "safe c ?A W (fst (watermark_spill (state (hot_store st1)) st1))" by (rule safe_watermark [OF s1])
  show ?thesis
    using s0 s1 s2 n
    by (cases "memory_spill_partition_max_threshold st")
      (auto simp: hybrid_insert_def ok Let_def st1_def st0_def from_anyhow_def split: if_splits)
qed

section \<open>The tasks of the spill\<close>

lemma safe_same_events:
  assumes "safe c A W st" and "hot_store st' = hot_store st" and "warm_store st' = warm_store st" and "cold_store st' = cold_store st"
    and "app_manager st' = app_manager st" and "mset (events (parent_bus st')) = mset (events (parent_bus st))"
    and "mset (events (localfile_bus st')) = mset (events (localfile_bus st))" and "mset (events (hdfs_bus st')) = mset (events (hdfs_bus st))"
  shows "safe c A W st'"
  using assms
  by (auto simp: safe_def buffers_ok_def messages_ok_def covered_def on_disk_ok_def stored_def fun_eq_iff Spill_Pipeline.pending_def served_def)

lemma safe_account:
  "safe c A W (st\<lparr>hot_store := (hot_store st)\<lparr>budget := b, ticket_manager := tm\<rparr>\<rparr>) = safe c A W st"
  by (simp add: safe_def buffers_ok_def messages_ok_def covered_def on_disk_ok_def stored_def fun_eq_iff linked_def hot_blocks_def
      Spill_Pipeline.pending_def served_def)

lemma safe_apps:
  assumes "safe c A W st" and "app_manager st = Some t" and "\<And>a. dm_contains t a \<Longrightarrow> dm_contains t' a"
  shows "safe c A W (st\<lparr>app_manager := Some t'\<rparr>)"
proof -
  have "buffers_ok (st\<lparr>app_manager := Some t'\<rparr>)"
    using assms by (fastforce simp: safe_def buffers_ok_def served_def)
  moreover have "messages_ok (st\<lparr>app_manager := Some t'\<rparr>) = messages_ok st" "covered (st\<lparr>app_manager := Some t'\<rparr>) = covered st"
    "on_disk_ok c W (st\<lparr>app_manager := Some t'\<rparr>) = on_disk_ok c W st" "stored W (st\<lparr>app_manager := Some t'\<rparr>) = stored W st"
    by (simp_all add: messages_ok_def covered_def on_disk_ok_def stored_def fun_eq_iff Spill_Pipeline.pending_def)
  ultimately show ?thesis using assms(1) by (simp add: safe_def)
qed

lemma select_local_served:
  assumes "warm_store st = Some (LocalStore l)" and "cold_store st = None" and "is_valid msg st"
  shows "\<exists>tbl. select_storage_for_buffer env msg st = (st\<lparr>app_manager := tbl\<rparr>, Ok LOCALFILE) \<and>
    (\<forall>uid. served st uid \<longrightarrow> served (st\<lparr>app_manager := tbl\<rparr>) uid)"
proof (cases "app_manager st")
  case None
  then have "st\<lparr>app_manager := None\<rparr> = st" by simp
  with None assms show ?thesis
    by (intro exI [of _ None]) (simp add: select_storage_for_buffer_def tier_store_def Let_def served_def)
next
  case (Some tbl)
  then obtain app where app: "dm_get tbl (app_id (spill_uid (msg_ctx msg))) = Some app"
    using assms(3) by (cases "dm_get tbl (app_id (spill_uid (msg_ctx msg)))") (simp_all add: is_valid_def dm_contains_def)
  obtain app' huge where "is_huge_partition (e_treemap env) (spill_uid (msg_ctx msg)) app = (app', huge)"
    by fastforce
  then show ?thesis
    using Some assms app
    by (intro exI [of _ "Some (dm_insert (app_id (spill_uid (msg_ctx msg))) app' tbl)"])
      (simp add: select_storage_for_buffer_def tier_store_def Let_def served_def dm_contains_def dm_simps)
qed

lemma safe_select:
  assumes "safe c A W st" and "i < length (running (parent_bus st))"
    and "select_on_event env (running (parent_bus st) ! i) (st\<lparr>parent_bus := complete i (parent_bus st)\<rparr>) = (st', msg, Some ok)"
  shows "safe c A W (parent_hook msg ok st') \<and> hot_store (parent_hook msg ok st') = hot_store st"
proof -
  let ?m = "running (parent_bus st) ! i" and ?st0 = "st\<lparr>parent_bus := complete i (parent_bus st)\<rparr>"
  let ?m' = "?m\<lparr>candidate_store_type := Some LOCALFILE\<rparr>"
  obtain l where l: "warm_store st = Some (LocalStore l)" "cold_store st = None" using assms(1) by (auto simp: safe_def on_disk_ok_def)
  have ev: "open_events st = add_mset ?m (open_events ?st0)" by (rule pending_complete(1) [OF assms(2)])
  then have m: "linked (hot_store st) ?m" "retry_cnt ?m = 0" using assms(1) by (auto simp: safe_def messages_ok_def)
  then have "is_valid ?m ?st0" using assms(1) by (auto simp: is_valid_served linked_def safe_def buffers_ok_def served_def)
  then obtain tbl where sel: "select_storage_for_buffer env ?m ?st0 = (?st0\<lparr>app_manager := tbl\<rparr>, Ok LOCALFILE)"
      "\<And>uid. served ?st0 uid \<Longrightarrow> served (?st0\<lparr>app_manager := tbl\<rparr>) uid"
    using select_local_served [of ?st0 l ?m env] l by auto
  define st2 where "st2 = parent_hook ?m' True (?st0\<lparr>app_manager := tbl\<rparr>)"
  have st2: "parent_hook msg ok st' = st2" using assms(3) by (simp add: select_on_event_def sel(1) st2_def)
  have f: "hot_store st2 = hot_store st" "warm_store st2 = warm_store st" "cold_store st2 = cold_store st" "app_manager st2 = tbl"
      "open_events st2 = add_mset ?m' (open_events ?st0)" "hdfs_bus st2 = hdfs_bus st"
      "mset (events (localfile_bus st2)) = add_mset ?m' (mset (events (localfile_bus st)))"
    by (simp_all add: st2_def parent_hook_def Spill_Pipeline.pending_def events_publish)
  have "served st2 uid" if "served st uid" for uid
    using sel(2) [of uid] that by (simp add: served_def f(4))
  moreover have "linked (hot_store st) ?m'" using m(1) by (simp add: linked_def)
  moreover have "unique (add_mset ?m' (open_events ?st0))"
    using assms(1) ev by (simp add: safe_def messages_ok_def unique_add) (simp add: key_def)
  moreover have "covered st2"
  proof -
    have "key ?m' = key ?m" by (simp add: key_def)
    then show ?thesis using assms(1) ev by (auto simp: safe_def covered_def f)
  qed
  ultimately have "safe c A W st2"
    using assms(1) m ev by (auto simp: safe_def buffers_ok_def messages_ok_def on_disk_ok_def stored_def fun_eq_iff f)
  then show ?thesis by (simp add: st2 f(1))
qed

lemma handle_spill_success_fields:
  fixes st :: "('t, 'c, 'f) HybridStore" and msg
  defines "st' \<equiv> handle_spill_success msg st"
  assumes "dm_get (state (hot_store st)) (spill_uid (msg_ctx msg)) = Some b" and "0 \<le> msg_size msg" and "msg_size msg < 2 ^ 63"
  shows "state (hot_store st') = dm_insert (spill_uid (msg_ctx msg)) (clear (msg_flight_id msg) (msg_size msg) b) (state (hot_store st))"
    and "warm_store st' = warm_store st" and "cold_store st' = cold_store st" and "app_manager st' = app_manager st"
    and "parent_bus st' = parent_bus st" and "localfile_bus st' = localfile_bus st" and "hdfs_bus st' = hdfs_bus st"
  using assms(2-4)
  by (simp_all add: st'_def handle_spill_success_def release_memory_buffer_def finish_spill_event_def clear_spilled_buffer_def
      get_buffer_def put_buffer_def memory_dec_used_def u64_id i64_id)

lemma lens_mset: "(\<Sum>x \<in># mset bs. length_of x) = lens bs"
  by (induction bs) (simp_all add: lens_def)

lemma bag_ok_payload:
  assumes "bag_ok M" and "mset bs \<subseteq># M"
  shows "list_all block_ok bs" and "int (length (payload bs)) < 2 ^ 63"
proof -
  obtain N where N: "M = mset bs + N" using assms(2) by (auto simp: mset_subset_eq_exists_conv)
  then have ok: "\<forall>x \<in># N. block_ok x" and bs: "list_all block_ok bs" using assms(1) by (auto simp: bag_ok_def list_all_iff)
  have "0 \<le> (\<Sum>x \<in># N. length_of x)" using ok by (induction N) (auto dest: block_ok_length)
  then show "int (length (payload bs)) < 2 ^ 63"
    using assms(1) N lens_payload [OF bs] by (simp add: bag_ok_def lens_mset)
qed (use assms in \<open>auto simp: bag_ok_def list_all_iff dest: mset_subset_eqD\<close>)

lemma flight_contents:
  assumes "dm_get (flight b) i = Some bb"
  shows "mset (concat bb) \<subseteq># contents b"
proof -
  obtain xs ys where "flight b = xs @ (i, bb) # ys" using split_list [OF map_of_SomeD [OF assms]] by blast
  then show ?thesis by (simp add: contents_def all_blocks_def subset_eq_diff_conv)
qed

lemma safe_flush:
  assumes "safe c A W st" and "i < length (running (localfile_bus st))" and "\<And>uid. bag_ok (A uid)" and "e_codec env = c"
  shows "\<exists>W' st'. flush_on_event env (running (localfile_bus st) ! i) (st\<lparr>localfile_bus := complete i (localfile_bus st)\<rparr>) =
      (st', running (localfile_bus st) ! i, Some True) \<and> safe c A W' st' \<and>
      (\<forall>k. hot_inv k (hot_store st) \<longrightarrow> hot_inv k (hot_store st'))"
proof -
  let ?m = "running (localfile_bus st) ! i" and ?st0 = "st\<lparr>localfile_bus := complete i (localfile_bus st)\<rparr>"
  let ?uid = "spill_uid (msg_ctx ?m)" and ?bb = "spill_data_blocks (msg_ctx ?m)"
  obtain l where l: "warm_store st = Some (LocalStore l)" "quiet l" "lf_ok c W l" using assms(1) by (auto simp: safe_def on_disk_ok_def)
  have ev: "open_events st = add_mset ?m (open_events ?st0)" by (rule pending_complete(2) [OF assms(2)])
  then have m: "linked (hot_store st) ?m" "retry_cnt ?m = 0" "unique (add_mset ?m (open_events ?st0))"
    using assms(1) by (auto simp: safe_def messages_ok_def)
  have cand: "candidate_store_type ?m = Some LOCALFILE"
    using assms(1,2) by (auto simp: safe_def messages_ok_def events_def)
  obtain b where b: "dm_get (state (hot_store st)) ?uid = Some b" "dm_get (flight b) (msg_flight_id ?m) = Some ?bb"
      "msg_size ?m = lens (concat ?bb)" using m(1) by (auto simp: linked_def)
  then have inv: "buffer_inv b" "plain_name (app_id ?uid)" "served st ?uid" using assms(1) by (auto simp: safe_def buffers_ok_def)
  have A: "A v = hot_blocks (hot_store st) v + mset (written W v)" for v using assms(1) by (auto simp: safe_def stored_def)
  have hot: "hot_blocks (hot_store st) ?uid = contents b" "mset (concat ?bb) \<subseteq># contents b"
    using b(1) flight_contents [OF b(2)] by (simp_all add: hot_blocks_def)
  let ?bs = "sort_key task_attempt_id (concat ?bb)"
  have "mset (written W ?uid @ ?bs) \<subseteq># A ?uid"
    using hot by (simp add: A add.commute [of "mset (written W ?uid)"])
  note ok = bag_ok_payload [OF assms(3) this]
  then obtain l' where l': "data_insert c (e_hash env) ?uid ?bs l = (l', Ok ())" "quiet l'" "lf_ok c (W(?uid \<mapsto> written W ?uid @ ?bs)) l'"
    using data_insert_quiet [OF l(3,2) inv(2), of ?bs "e_hash env"] by auto
  let ?st1 = "?st0\<lparr>warm_store := Some (LocalStore l')\<rparr>" and ?W = "W(?uid \<mapsto> written W ?uid @ ?bs)"
  define st' where "st' = handle_spill_success ?m ?st1"
  have "flush_on_event env ?m ?st0 = (st', ?m, Some True)"
    unfolding st'_def using l m(2) cand inv(3) l'(1) assms(4)
    by (intro flush_local) (auto simp: is_valid_served served_def localfile_spill_insert_def)
  moreover have sz: "0 \<le> msg_size ?m" "msg_size ?m < 2 ^ 63"
    using flight_nonneg [OF inv(1), of "msg_flight_id ?m" ?bb] map_of_SomeD [OF b(2)] b(3) bag_ok_payload [OF assms(3), of "concat ?bb" ?uid]
      lens_payload [of "concat ?bb"] subset_mset.order_trans [OF hot(2), of "A ?uid"] hot(1) by (auto simp: A)
  have f: "state (hot_store st') = dm_insert ?uid (clear (msg_flight_id ?m) (msg_size ?m) b) (state (hot_store st))"
      "warm_store st' = Some (LocalStore l')" "cold_store st' = cold_store st" "app_manager st' = app_manager st"
      "parent_bus st' = parent_bus st" "localfile_bus st' = complete i (localfile_bus st)" "hdfs_bus st' = hdfs_bus st"
    using handle_spill_success_fields [of ?st1 ?m b] b(1) sz by (simp_all add: st'_def)
  note cl = clear_inv [OF inv(1) b(2), folded b(3)]
  have "linked (hot_store st') x" if x: "x \<in># open_events ?st0" for x
  proof -
    have "linked (hot_store st) x" "key x \<noteq> key ?m"
      using assms(1) ev x m(3) by (auto simp: safe_def messages_ok_def unique_add)
    then show ?thesis
      using b(1) by (auto simp: linked_def key_def f(1) dm_simps clear_def Let_def b(2))
  qed
  moreover have "stored ?W st' = A"
  proof
    fix v
    show "stored ?W st' v = A v"
      using cl(4) hot by (auto simp: stored_def A hot_blocks_def f(1) dm_simps written_def)
  qed
  moreover have same: "open_events st' = open_events ?st0" using f(5-7) by (simp add: Spill_Pipeline.pending_def)
  moreover have "covered st'"
    unfolding covered_def
  proof (intro allI impI)
    fix uid b1 j
    assume b1: "dm_get (state (hot_store st')) uid = Some b1" "dm_get (flight b1) j \<noteq> None"
    then have "uid = ?uid \<longrightarrow> j \<noteq> msg_flight_id ?m \<and> dm_get (flight b) j \<noteq> None"
      by (auto simp: f(1) dm_simps clear_def Let_def b(2) split: if_splits)
    moreover from b1 this have "\<exists>x \<in># open_events st. key x = (uid, j)"
      using assms(1) b(1) by (cases "uid = ?uid") (auto simp: safe_def covered_def f(1) dm_simps)
    ultimately show "\<exists>x \<in># open_events st'. key x = (uid, j)"
      using ev same by (auto simp: key_def)
  qed
  moreover have "hot_inv k (hot_store st')" if "hot_inv k (hot_store st)" for k
    using that b(1) cl(1) by (auto simp: hot_inv_def f(1) dm_simps clear_def Let_def split: option.splits)
  moreover have "buffers_ok st'"
    using assms(1) cl(1) inv(2,3) by (auto simp: safe_def buffers_ok_def f dm_simps served_def)
  moreover have "on_disk_ok c ?W st'" using assms(1) l' by (simp add: safe_def on_disk_ok_def f)
  moreover have "set (events (complete i (localfile_bus st))) \<subseteq> set (events (localfile_bus st))"
    using set_take_subset [of i] set_drop_subset [of "Suc i"] by (fastforce simp: events_def complete_def)
  ultimately show ?thesis
    using assms(1) ev m(3) by (intro exI [of _ ?W] exI [of _ st']) (auto simp: safe_def messages_ok_def f unique_add)
qed

lemma safe_bus_step:
  assumes "bus_step env (st, lost) (st', lost')" and "safe c A W st" and "\<And>uid. bag_ok (A uid)" and "e_codec env = c"
  shows "\<exists>W'. safe c A W' st' \<and> (\<forall>k. hot_inv k (hot_store st) \<longrightarrow> hot_inv k (hot_store st'))"
  using assms(1)
proof (cases rule: bus_step.cases)
  case (Parent_receive b)
  then have "safe c A W st'" using events_receive [of "parent_bus st" b] by (intro safe_same_events [OF assms(2)]) auto
  with Parent_receive show ?thesis by auto
next
  case (Local_receive b)
  then have "safe c A W st'" using events_receive [of "localfile_bus st" b] by (intro safe_same_events [OF assms(2)]) auto
  with Local_receive show ?thesis by auto
next
  case (Remote_receive b)
  then have "safe c A W st'" using events_receive [of "hdfs_bus st" b] by (intro safe_same_events [OF assms(2)]) auto
  with Remote_receive show ?thesis by auto
next
  case (Parent_handle i st1 msg ok)
  then show ?thesis using safe_select [OF assms(2) Parent_handle(3,4)] by auto
next
  case (Local_handle i st1 msg ok)
  then show ?thesis using safe_flush [OF assms(2) Local_handle(3) assms(3,4)] by (auto simp: child_hook_def)
next
  case (Local_panic i msg)
  then show ?thesis using safe_flush [OF assms(2) Local_panic(2) assms(3,4)] by auto
next
  case (Remote_handle i st1 msg ok)
  then show ?thesis using assms(2) by (simp add: safe_def messages_ok_def events_def)
next
  case (Remote_panic i msg)
  then show ?thesis using assms(2) by (simp add: safe_def messages_ok_def events_def)
qed

section \<open>Runs\<close>

text \<open>
  What happens to a store: inserts for applications it knows, steps of the spill tasks, anything that happens to the
  reservations of memory (they do not touch the blocks), and any change of the table of applications that removes none: a
  registration, a heartbeat, a report of blocks.
\<close>

inductive store_run :: "('t, 'c, 'f) Env \<Rightarrow> ('t, 'c, 'f) HybridStore \<Rightarrow> WritingViewContext list \<Rightarrow> ('t, 'c, 'f) HybridStore \<Rightarrow> bool"
  for env st0 where
  run_init: "store_run env st0 [] st0"
| run_insert: "store_run env st0 cs st \<Longrightarrow> honest ctx \<Longrightarrow> plain_name (app_id (w_uid ctx)) \<Longrightarrow> served st (w_uid ctx) \<Longrightarrow>
    store_run env st0 (cs @ [ctx]) (fst (hybrid_insert lock_free ctx st))"
| run_task: "store_run env st0 cs st \<Longrightarrow> bus_step env (st, lost) (st', lost') \<Longrightarrow> store_run env st0 cs st'"
| run_account: "store_run env st0 cs st \<Longrightarrow>
    store_run env st0 cs (st\<lparr>hot_store := (hot_store st)\<lparr>budget := b, ticket_manager := tm\<rparr>\<rparr>)"
| run_apps: "store_run env st0 cs st \<Longrightarrow> app_manager st = Some t \<Longrightarrow> (\<And>a. dm_contains t a \<Longrightarrow> dm_contains t' a) \<Longrightarrow>
    store_run env st0 cs (st\<lparr>app_manager := Some t'\<rparr>)"

definition inserted :: "WritingViewContext list \<Rightarrow> PartitionedUId \<Rightarrow> Block multiset" where
  "inserted cs uid = mset (concat (map w_data_blocks (filter (\<lambda>ctx. w_uid ctx = uid) cs)))"

lemma inserted_simps:
  "inserted [] uid = {#}"
  "inserted (cs @ [ctx]) = (inserted cs)(w_uid ctx := inserted cs (w_uid ctx) + mset (w_data_blocks ctx))"
  by (auto simp: inserted_def fun_eq_iff)

lemma bag_ok_subset: "bag_ok (M + N) \<Longrightarrow> bag_ok M"
proof -
  assume "bag_ok (M + N)"
  moreover from this have "0 \<le> (\<Sum>x \<in># N. length_of x)" by (induction N) (auto simp: bag_ok_def dest: block_ok_length)
  ultimately show "bag_ok M" by (auto simp: bag_ok_def)
qed

lemma held_bound:
  assumes "safe c A W st" and "bag_ok (A uid + mset bs)"
  shows "held uid (hot_store st) + lens bs < 2 ^ 63"
proof -
  have "held uid (hot_store st) = (\<Sum>x \<in># hot_blocks (hot_store st) uid. length_of x)"
    using assms(1) buffer_inv_total
    by (auto simp: safe_def buffers_ok_def held_def hot_blocks_def contents_def lens_mset split: option.split)
  moreover have "A uid = hot_blocks (hot_store st) uid + mset (written W uid)" using assms(1) by (auto simp: safe_def stored_def)
  moreover have "0 \<le> (\<Sum>x \<in># mset (written W uid). length_of x)"
    unfolding lens_mset using assms(2) calculation(2)
    by (intro lens_nonneg) (auto simp: bag_ok_def list_all_iff intro: block_ok_length)
  ultimately show ?thesis using assms(2) by (simp add: bag_ok_def lens_mset)
qed

lemma store_run_safe:
  assumes "store_run env st0 cs st" and "safe (e_codec env) (\<lambda>_. {#}) W0 st0" and "state (hot_store st0) = []"
    and "\<And>uid. bag_ok (inserted cs uid)" and "2 * length cs < 2 ^ 63"
  shows "\<exists>W. safe (e_codec env) (inserted cs) W st \<and> hot_inv (2 ^ 63 - 1 - 2 * length cs) (hot_store st)"
  using assms(1,4,5)
proof (induction rule: store_run.induct)
  case run_init
  then show ?case using assms(2,3) by (auto simp: inserted_simps hot_inv_def dm_ok_def fun_eq_iff)
next
  case (run_insert cs st ctx lock_free)
  let ?uid = "w_uid ctx" and ?k = "2 ^ 63 - 1 - 2 * length (cs @ [ctx]) :: nat"
  have bag: "bag_ok (inserted cs ?uid + mset (w_data_blocks ctx))" using run_insert.prems(1) [of ?uid] by (simp add: inserted_simps)
  have "bag_ok (inserted cs uid)" for uid
    using run_insert.prems(1) [of uid] bag_ok_subset [OF bag] by (cases "uid = ?uid") (simp_all add: inserted_simps)
  then obtain W where W: "safe (e_codec env) (inserted cs) W st" "hot_inv (2 ^ 63 - 1 - 2 * length cs) (hot_store st)"
    using run_insert.IH run_insert.prems(2) by auto
  have k: "2 ^ 63 - 1 - 2 * length cs = ?k + 2" "?k + 2 < 2 ^ 63" using run_insert.prems(2) by simp_all
  have held: "held ?uid (hot_store st) + w_data_size ctx < 2 ^ 63"
    using held_bound [OF W(1) bag] run_insert.hyps(2) by (simp add: honest_def)
  have "safe (e_codec env) (inserted (cs @ [ctx])) W (fst (hybrid_insert lock_free ctx st))"
    unfolding inserted_simps(2)
    by (rule safe_hybrid_insert [OF W(1) run_insert.hyps(2,3,4) held W(2) [unfolded k(1)] k(2)])
  moreover have "hot_inv ?k (hot_store (fst (hybrid_insert lock_free ctx st)))"
    using hybrid_insert_keeps [OF W(2) [unfolded k(1)] run_insert.hyps(2) held k(2)] by blast
  ultimately show ?case by blast
next
  case (run_task cs st lost st' lost')
  obtain W where W: "safe (e_codec env) (inserted cs) W st" "hot_inv (2 ^ 63 - 1 - 2 * length cs) (hot_store st)"
    using run_task.IH [OF run_task.prems] by blast
  from safe_bus_step [OF run_task.hyps(2) W(1) run_task.prems(1) refl] W(2) show ?case by blast
next
  case (run_account cs st b tm)
  then show ?case by (simp add: safe_account hot_inv_def)
next
  case (run_apps cs st t t')
  then show ?case using safe_apps [OF _ run_apps.hyps(2,3)] by fastforce
qed

section \<open>Nothing is lost\<close>

definition fresh_store :: "codec \<Rightarrow> ('t, 'c, 'f) HybridStore \<Rightarrow> bool" where
  "fresh_store c st \<longleftrightarrow> state (hot_store st) = [] \<and> open_events st = {#} \<and> cold_store st = None \<and>
     (\<exists>l. warm_store st = Some (LocalStore l) \<and> quiet l \<and> lf_ok c (\<lambda>_. None) l)"

lemma fresh_safe:
  assumes "fresh_store c st"
  shows "safe c (\<lambda>_. {#}) (\<lambda>_. None) st"
proof -
  have "events (localfile_bus st) = []" "events (hdfs_bus st) = []"
    using assms by (simp_all add: fresh_store_def Spill_Pipeline.pending_def)
  then show ?thesis using assms
    by (simp add: fresh_store_def safe_def buffers_ok_def messages_ok_def covered_def on_disk_ok_def stored_def hot_blocks_def written_def fun_eq_iff)
qed

text \<open>
  C1. No block is lost or duplicated.  A store with memory and working local disks, after any inserts interleaved in any way with the tasks of the spill and with
  reservations of memory and registrations, holds for each partition exactly the blocks inserted for it: each is either in memory, staged or in flight, or in the local
  files, where the index lists it and its data can be read back.  When no spill event is open any more, nothing is in flight.
\<close>

theorem no_block_lost:
  fixes env :: "('t, 'c, 'f) Env"
  assumes "wire_codec (e_codec env)" and "fresh_store (e_codec env) st0" and "store_run env st0 cs st"
    and "\<And>uid. bag_ok (inserted cs uid)" and "2 * length cs < 2 ^ 63"
  shows "\<exists>W. (\<forall>uid. hot_blocks (hot_store st) uid + mset (W uid) = inserted cs uid) \<and>
    (\<forall>uid. plain_name (app_id uid) \<longrightarrow>
       (\<exists>idx. hybrid_get_index uid st = (st, Ok idx) \<and>
          map (\<lambda>s. snd (hybrid_get [] \<lparr>r_uid = uid, r_reading_options = FILE_OFFSET_AND_LEN (seg_offset s) (seg_length s), r_task_ids = f\<rparr> st))
            (decode_index (e_codec env) (index_data idx)) = map (\<lambda>b. Ok (Local_data (data b))) (W uid))) \<and>
    (open_events st = {#} \<longrightarrow> (\<forall>uid b. dm_get (state (hot_store st)) uid = Some b \<longrightarrow> flight b = []))"
proof -
  obtain W where W: "safe (e_codec env) (inserted cs) W st"
    using store_run_safe [OF assms(3) fresh_safe [OF assms(2)] _ assms(4,5)] assms(2) by (auto simp: fresh_store_def)
  obtain l where l: "warm_store st = Some (LocalStore l)" "quiet l" "lf_ok (e_codec env) W l" using W by (auto simp: safe_def on_disk_ok_def)
  have "\<exists>idx. hybrid_get_index uid st = (st, Ok idx) \<and>
      map (\<lambda>s. snd (hybrid_get [] \<lparr>r_uid = uid, r_reading_options = FILE_OFFSET_AND_LEN (seg_offset s) (seg_length s), r_task_ids = f\<rparr> st))
        (decode_index (e_codec env) (index_data idx)) = map (\<lambda>b. Ok (Local_data (data b))) (written W uid)"
    if plain: "plain_name (app_id uid)" for uid
  proof -
    obtain idx where "localfile_get_index uid l = (l, Ok idx)"
        "map (\<lambda>s. snd (localfile_get \<lparr>r_uid = uid,
          r_reading_options = FILE_OFFSET_AND_LEN (seg_offset s) (seg_length s), r_task_ids = f\<rparr> l))
          (decode_index (e_codec env) (index_data idx)) = map (\<lambda>b. Ok (data b)) (written W uid)"
      using lf_ok_reads [OF l(3,2) plain assms(1), of f] by blast
    from local_reads [OF l(1) this] show ?thesis by blast
  qed
  moreover have "flight b = []" if "open_events st = {#}" "dm_get (state (hot_store st)) uid = Some b" for uid b
  proof (rule ccontr)
    assume "flight b \<noteq> []"
    then have "dm_get (flight b) (fst (hd (flight b))) \<noteq> None" by (cases "flight b") auto
    with W that show False by (fastforce simp: safe_def covered_def)
  qed
  moreover have "hot_blocks (hot_store st) uid + mset (written W uid) = inserted cs uid" for uid
    using W by (auto simp: safe_def stored_def fun_eq_iff)
  ultimately show ?thesis by (intro exI [of _ "written W"]) blast
qed

definition sample_request :: WritingViewContext where
  "sample_request = new_writing_ctx (part ''a'' 0) [sample_block 1 3, sample_block 2 2]"

theorem no_block_lost_witness:
  "\<exists>W. \<forall>uid. hot_blocks (hot_store (fst (hybrid_insert True sample_request sample_hybrid))) uid + mset (W uid) =
    (if uid = part ''a'' 0 then {#sample_block 1 3, sample_block 2 2#} else {#})"
proof -
  have fresh: "fresh_store (e_codec sample_env) sample_hybrid"
    using lf_ok_fresh(1) [OF sample_localfile_from] sample_localfile_quiet
    by (simp add: fresh_store_def sample_env_def sample_hybrid_def sample_hot_def Spill_Pipeline.pending_def new_event_bus_def events_def)
  have run: "store_run sample_env sample_hybrid ([] @ [sample_request]) (fst (hybrid_insert True sample_request sample_hybrid))"
    by (intro run_insert run_init)
      (simp_all add: sample_request_def honest_def new_writing_ctx_def blocks_size_def sum_i32_def i32_id u64_id part_def plain_name_def served_def sample_hybrid_def sample_block_def)
  have ins: "inserted ([] @ [sample_request]) = (\<lambda>uid. if uid = part ''a'' 0 then {#sample_block 1 3, sample_block 2 2#} else {#})"
    by (auto simp: inserted_def sample_request_def new_writing_ctx_def fun_eq_iff)
  have bag: "bag_ok (inserted ([] @ [sample_request]) uid)" for uid
    unfolding ins by (simp add: bag_ok_def block_ok_def sample_block_def is_i32_def is_i64_def)
  have "wire_codec (e_codec sample_env)" "2 * length ([] @ [sample_request]) < 2 ^ 63"
    using be.wire_codec_axioms by (simp_all add: sample_env_def)
  from no_block_lost [OF this(1) fresh run bag this(2), of None, unfolded ins] show ?thesis by (elim exE conjE) (rule exI)
qed

end
