(* ===== verification/Urpc_Frame.thy ===== *)
theory Urpc_Frame
  imports Hybrid
begin

text \<open>
  The binary protocol: \<^verbatim>\<open>urpc/frame.rs\<close>, the command records of \<^verbatim>\<open>urpc/command.rs\<close> and \<^verbatim>\<open>urpc/connection.rs\<close>.

  A \<open>Cursor\<close> is the list of the bytes that remain.  The integers on the wire are those of the \<open>codec\<close>; reading one of
  a cursor that is not empty but too short panics, as the \<open>bytes\<close> crate documents.  A \<open>String\<close> is the string of its
  UTF-8 bytes, and \<open>String::from_utf8\<close> is the check of \<open>is_utf8\<close>.  A socket delivers its bytes in chunks of any size;
  a chunk without bytes, or no chunk, is the end of the stream.
\<close>

section \<open>Strings\<close>

definition string_of_bytes :: "bytes \<Rightarrow> string" where
  "string_of_bytes bs = map (\<lambda>b. char_of (uint b)) bs"

definition bytes_of_string :: "string \<Rightarrow> bytes" where
  "bytes_of_string s = map (\<lambda>c. word_of_int (of_char c)) s"

definition continuation :: "byte \<Rightarrow> bool" where
  "continuation b \<longleftrightarrow> 128 \<le> b \<and> b \<le> 191"

text \<open>The well-formed byte sequences of Unicode (no surrogates, no overlong forms, at most U+10FFFF).\<close>

fun is_utf8 :: "bytes \<Rightarrow> bool" where
  "is_utf8 [] = True"
| "is_utf8 (a # bs) =
     (if a \<le> 127 then is_utf8 bs
      else case bs of
        [] \<Rightarrow> False
      | b # bs2 \<Rightarrow>
          if 194 \<le> a \<and> a \<le> 223 then continuation b \<and> is_utf8 bs2
          else case bs2 of
            [] \<Rightarrow> False
          | c # bs3 \<Rightarrow>
              if 224 \<le> a \<and> a \<le> 239
              then continuation b \<and> continuation c \<and> (a = 224 \<longrightarrow> 160 \<le> b) \<and> (a = 237 \<longrightarrow> b \<le> 159) \<and> is_utf8 bs3
              else case bs3 of
                [] \<Rightarrow> False
              | d # bs4 \<Rightarrow>
                  240 \<le> a \<and> a \<le> 244 \<and> continuation b \<and> continuation c \<and> continuation d \<and>
                  (a = 240 \<longrightarrow> 144 \<le> b) \<and> (a = 244 \<longrightarrow> b \<le> 143) \<and> is_utf8 bs4)"

section \<open>Readers\<close>

type_synonym 'a reader = "bytes \<Rightarrow> ('a \<times> bytes, worker_error) outcome"

definition rd_return :: "'a \<Rightarrow> 'a reader" where
  "rd_return x src = Ok (x, src)"

definition rd_bind :: "'a reader \<Rightarrow> ('a \<Rightarrow> 'b reader) \<Rightarrow> 'b reader" where
  "rd_bind r f src = and_then (r src) (\<lambda>(x, rest). f x rest)"

text \<open>\<open>for idx in 0..n\<close> with a reader in the body.\<close>

fun rd_times :: "nat \<Rightarrow> 'a reader \<Rightarrow> 'a list reader" where
  "rd_times 0 r = rd_return []"
| "rd_times (Suc n) r = rd_bind r (\<lambda>x. rd_bind (rd_times n r) (\<lambda>xs. rd_return (x # xs)))"

definition get_u8 :: "byte reader" where
  "get_u8 src = (case src of [] \<Rightarrow> Err (STREAM_INCORRECT ''get_u8'') | b # rest \<Rightarrow> Ok (b, rest))"

definition get_i32 :: "codec \<Rightarrow> int reader" where
  "get_i32 c src =
     (if src = [] then Err (STREAM_INCORRECT ''get_i32'')
      else if length src < 4 then Panic
      else Ok (take_i32 c (take 4 src), drop 4 src))"

definition get_i64 :: "codec \<Rightarrow> int reader" where
  "get_i64 c src =
     (if src = [] then Err (STREAM_INCORRECT ''get_i64'')
      else if length src < 8 then Panic
      else Ok (take_i64 c (take 8 src), drop 8 src))"

definition skip :: "int \<Rightarrow> unit reader" where
  "skip n src = (if int (length src) < n then Err (STREAM_INCORRECT ''skip'') else Ok ((), drop (nat n) src))"

text \<open>The texts of the errors name the lengths.\<close>

definition get_bytes :: "codec \<Rightarrow> bytes option reader" where
  "get_bytes c src =
     (if src = [] then Err (STREAM_INCORRECT ''get_bytes'')
      else rd_bind (get_i32 c) (\<lambda>n rest.
        if n \<le> 0 then Ok (None, rest)
        else if int (length rest) < n
        then Err (STREAM_INCORRECT (''get_bytes but not have enough remaining bytes. expected: '' @ show_int n @ '', real: '' @
               show_nat (length rest)))
        else rd_bind (skip n) (\<lambda>_. rd_return (Some (take (nat n) rest))) rest) src)"

definition get_string :: "codec \<Rightarrow> string reader" where
  "get_string c src =
     (if src = [] then Err (STREAM_INCORRECT ''get_string 1'')
      else rd_bind (get_i32 c) (\<lambda>n rest.
        let len = u64 n
        in if len \<le> 0 then Ok ('''', rest)
           else if int (length rest) < len
           then Err (STREAM_INCORRECT (''get string. src remaining: '' @ show_nat (length rest) @ ''. len: '' @ show_int len))
           else rd_bind (skip len) (\<lambda>_ rest'.
             let msg = take (nat len) rest
             in if is_utf8 msg then Ok (string_of_bytes msg, rest') else Err (Other (Any_message ''utf-8''))) rest) src)"

section \<open>Commands\<close>

record GetMemoryDataRequestCommand =
  gm_request_id :: int
  gm_app_id :: string
  gm_shuffle_id :: int
  gm_partition_id :: int
  gm_last_block_id :: int
  gm_read_buffer_size :: int
  gm_expected_tasks_bitmap_raw :: "bytes option"
  gm_timestamp :: int

record GetLocalDataRequestCommand =
  gd_request_id :: int
  gd_app_id :: string
  gd_shuffle_id :: int
  gd_partition_id :: int
  gd_partition_num_per_range :: int
  gd_partition_num :: int
  gd_offset :: int
  gd_length :: int
  gd_timestamp :: int

record GetLocalDataIndexRequestCommand =
  gi_request_id :: int
  gi_app_id :: string
  gi_shuffle_id :: int
  gi_partition_id :: int
  gi_partition_num_per_range :: int
  gi_partition_num :: int

record SendDataRequestCommand =
  sd_request_id :: int
  sd_app_id :: string
  sd_shuffle_id :: int
  sd_blocks :: "(int, Block list) dmap"
  sd_ticket_id :: int
  sd_timestamp :: int

record RpcResponseCommand =
  rr_request_id :: int
  rr_status_code :: int
  rr_ret_msg :: string

record GetMemoryDataResponseCommand =
  md_request_id :: int
  md_status_code :: int
  md_ret_msg :: string
  md_data :: ResponseData

record GetLocalDataResponseCommand =
  ld_request_id :: int
  ld_status_code :: int
  ld_ret_msg :: string
  ld_data :: bytes

record GetLocalDataIndexResponseCommand =
  li_request_id :: int
  li_status_code :: int
  li_ret_msg :: string
  li_data_index :: LocalDataIndex

datatype Frame =
    Frame_SendShuffleData SendDataRequestCommand
  | Frame_GetMemoryData GetMemoryDataRequestCommand
  | Frame_GetMemoryDataResponse GetMemoryDataResponseCommand
  | Frame_GetLocalDataIndex GetLocalDataIndexRequestCommand
  | Frame_GetLocalDataIndexResponse GetLocalDataIndexResponseCommand
  | Frame_GetLocalData GetLocalDataRequestCommand
  | Frame_GetLocalDataResponse GetLocalDataResponseCommand
  | Frame_RpcResponse RpcResponseCommand

datatype MessageType =
    SendShuffleData | GetMemoryData | GetMemoryDataResponse | GetLocalDataIndex | GetLocalDataIndexResponse
  | GetLocalData | GetLocalDataResponse | RpcResponse

fun message_code :: "MessageType \<Rightarrow> byte" where
  "message_code SendShuffleData = 3"
| "message_code GetMemoryData = 6"
| "message_code GetMemoryDataResponse = 16"
| "message_code GetLocalDataIndex = 4"
| "message_code GetLocalDataIndexResponse = 14"
| "message_code GetLocalData = 5"
| "message_code GetLocalDataResponse = 15"
| "message_code RpcResponse = 0"

definition message_type :: "byte \<Rightarrow> MessageType option" where
  "message_type b = find (\<lambda>t. message_code t = b)
     [SendShuffleData, GetMemoryData, GetMemoryDataResponse, GetLocalDataIndex, GetLocalDataIndexResponse, GetLocalData,
      GetLocalDataResponse, RpcResponse]"

definition HEADER_LEN :: nat where
  "HEADER_LEN = 4 + 1 + 4"

section \<open>Writing\<close>

text \<open>The header and the part that all responses share: \<open>content\<close> is the length of what the response adds to it.\<close>

definition write_head :: "codec \<Rightarrow> MessageType \<Rightarrow> int \<Rightarrow> int \<Rightarrow> int \<Rightarrow> int \<Rightarrow> string \<Rightarrow> bytes" where
  "write_head c t content body request_id code msg =
     (let n = int (length (bytes_of_string msg))
      in put_i32 c (i32 (i32 n + 8 + 4 + 4 + content)) @ [message_code t] @ put_i32 c (i32 body) @
         put_i64 c request_id @ put_i32 c code @ put_i32 c (i32 n) @ bytes_of_string msg)"

definition write_segment :: "codec \<Rightarrow> DataSegment \<Rightarrow> bytes" where
  "write_segment c s =
     put_i64 c (seg_block_id s) @ put_i32 c (i32 (seg_offset s)) @ put_i32 c (seg_length s) @
     put_i32 c (seg_uncompress_length s) @ put_i64 c (seg_crc s) @ put_i64 c (seg_task_attempt_id s)"

text \<open>Only responses are written; a request ends in \<open>todo!()\<close>.\<close>

definition frame_write :: "codec \<Rightarrow> Frame \<Rightarrow> (bytes, anyhow) outcome" where
  "frame_write c frame = (case frame of
     Frame_GetLocalDataResponse resp \<Rightarrow>
       Ok (write_head c GetLocalDataResponse 0 (int (length (ld_data resp)))
             (ld_request_id resp) (ld_status_code resp) (ld_ret_msg resp) @ ld_data resp)
   | Frame_GetLocalDataIndexResponse resp \<Rightarrow>
       Ok (write_head c GetLocalDataIndexResponse 8 (int (length (index_data (li_data_index resp))))
             (li_request_id resp) (li_status_code resp) (li_ret_msg resp) @
           put_i64 c (data_file_len (li_data_index resp)) @ index_data (li_data_index resp))
   | Frame_GetMemoryDataResponse resp \<Rightarrow>
       (case md_data resp of
          Mem_data d \<Rightarrow>
            let segments = shuffle_data_block_segments d
            in Ok (write_head c GetMemoryDataResponse (i32 (4 + int (length segments) * (3 * 8 + 3 * 4))) (wrapper_len (mem_data d))
                     (md_request_id resp) (md_status_code resp) (md_ret_msg resp) @
                   put_i32 c (i32 (int (length segments))) @ concat (map (write_segment c) segments) @
                   concat (composed_iter (always_composed (mem_data d))))
        | Local_data _ \<Rightarrow> Panic)
   | Frame_RpcResponse resp \<Rightarrow>
       Ok (write_head c RpcResponse 0 0 (rr_request_id resp) (rr_status_code resp) (rr_ret_msg resp))
   | _ \<Rightarrow> Panic)"

section \<open>Parsing\<close>

text \<open>\<open>Frame::check\<close>: the result is the rest of the cursor behind the frame.\<close>

definition check :: "codec \<Rightarrow> bytes \<Rightarrow> (bytes, worker_error) outcome" where
  "check c src =
     (if length src < HEADER_LEN then Err STREAM_INCOMPLETE
      else and_then
        (rd_bind (get_i32 c) (\<lambda>msg_len. rd_bind get_u8 (\<lambda>_. rd_bind (get_i32 c) (\<lambda>body_len rest.
           let n = u64 (i32 (msg_len + body_len))
           in if int (length rest) < n then Err STREAM_INCOMPLETE else skip n rest))) src)
        (\<lambda>(_, rest). Ok rest))"

definition parse_to_get_localfile_data_command :: "codec \<Rightarrow> GetLocalDataRequestCommand reader" where
  "parse_to_get_localfile_data_command c =
     rd_bind (get_i64 c) (\<lambda>request_id. rd_bind (get_string c) (\<lambda>app. rd_bind (get_i32 c) (\<lambda>shuffle.
     rd_bind (get_i32 c) (\<lambda>pid. rd_bind (get_i32 c) (\<lambda>per_range. rd_bind (get_i32 c) (\<lambda>num.
     rd_bind (get_i64 c) (\<lambda>off. rd_bind (get_i32 c) (\<lambda>len. rd_bind (get_i64 c) (\<lambda>timestamp.
       rd_return \<lparr>gd_request_id = request_id, gd_app_id = app, gd_shuffle_id = shuffle, gd_partition_id = pid,
         gd_partition_num_per_range = per_range, gd_partition_num = num, gd_offset = off, gd_length = len,
         gd_timestamp = timestamp\<rparr>)))))))))"

definition parse_to_get_localfile_index_command :: "codec \<Rightarrow> GetLocalDataIndexRequestCommand reader" where
  "parse_to_get_localfile_index_command c =
     rd_bind (get_i64 c) (\<lambda>request_id. rd_bind (get_string c) (\<lambda>app. rd_bind (get_i32 c) (\<lambda>shuffle.
     rd_bind (get_i32 c) (\<lambda>pid. rd_bind (get_i32 c) (\<lambda>per_range. rd_bind (get_i32 c) (\<lambda>num.
       rd_return \<lparr>gi_request_id = request_id, gi_app_id = app, gi_shuffle_id = shuffle, gi_partition_id = pid,
         gi_partition_num_per_range = per_range, gi_partition_num = num\<rparr>))))))"

definition parse_to_get_memory_data_command :: "codec \<Rightarrow> GetMemoryDataRequestCommand reader" where
  "parse_to_get_memory_data_command c =
     rd_bind (get_i64 c) (\<lambda>request_id. rd_bind (get_string c) (\<lambda>app. rd_bind (get_i32 c) (\<lambda>shuffle.
     rd_bind (get_i32 c) (\<lambda>pid. rd_bind (get_i64 c) (\<lambda>last_block. rd_bind (get_i32 c) (\<lambda>buffer_size.
     rd_bind (get_i64 c) (\<lambda>timestamp. rd_bind (get_bytes c) (\<lambda>raw.
       rd_return \<lparr>gm_request_id = request_id, gm_app_id = app, gm_shuffle_id = shuffle, gm_partition_id = pid,
         gm_last_block_id = last_block, gm_read_buffer_size = buffer_size, gm_expected_tasks_bitmap_raw = raw,
         gm_timestamp = timestamp\<rparr>))))))))"

text \<open>A block of a request; the list of servers behind its data is read and dropped.\<close>

definition parse_server :: "codec \<Rightarrow> unit reader" where
  "parse_server c =
     rd_bind (get_string c) (\<lambda>_. rd_bind (get_string c) (\<lambda>_. rd_bind (get_i32 c) (\<lambda>_. rd_bind (get_i32 c) (\<lambda>_.
       rd_return ()))))"

definition parse_block :: "codec \<Rightarrow> Block reader" where
  "parse_block c =
     rd_bind (get_i32 c) (\<lambda>_. rd_bind (get_i64 c) (\<lambda>bid. rd_bind (get_i32 c) (\<lambda>len. rd_bind (get_i32 c) (\<lambda>_.
     rd_bind (get_i64 c) (\<lambda>crc_value. rd_bind (get_i64 c) (\<lambda>task. rd_bind (get_bytes c) (\<lambda>buffer.
     rd_bind (get_i32 c) (\<lambda>servers. rd_bind (rd_times (nat servers) (parse_server c)) (\<lambda>_.
     rd_bind (get_i32 c) (\<lambda>uncompress_len. rd_bind (get_i64 c) (\<lambda>_.
       rd_return \<lparr>block_id = bid, length_of = len, uncompress_length = uncompress_len, crc = crc_value,
         data = (case buffer of Some bs \<Rightarrow> bs | None \<Rightarrow> []), task_attempt_id = task\<rparr>)))))))))))"

text \<open>\<open>Vec::with_capacity\<close> panics for a negative number of blocks.\<close>

definition parse_partition :: "codec \<Rightarrow> (int \<times> Block list) reader" where
  "parse_partition c =
     rd_bind (get_i32 c) (\<lambda>pid. rd_bind (get_i32 c) (\<lambda>n src.
       if n < 0 then Panic
       else rd_bind (rd_times (nat n) (parse_block c)) (\<lambda>blocks. rd_return (pid, blocks)) src))"

definition parse_to_send_shuffle_data_command :: "codec \<Rightarrow> SendDataRequestCommand reader" where
  "parse_to_send_shuffle_data_command c =
     rd_bind (get_i64 c) (\<lambda>request_id. rd_bind (get_string c) (\<lambda>app. rd_bind (get_i32 c) (\<lambda>shuffle.
     rd_bind (get_i64 c) (\<lambda>require_id. rd_bind (get_i32 c) (\<lambda>n.
     rd_bind (rd_times (nat n) (parse_partition c)) (\<lambda>ps. rd_bind (get_i64 c) (\<lambda>timestamp.
       rd_return \<lparr>sd_request_id = request_id, sd_app_id = app, sd_shuffle_id = shuffle,
         sd_blocks = foldl (\<lambda>m (pid, blocks). dm_insert pid blocks m) [] ps,
         sd_ticket_id = require_id, sd_timestamp = timestamp\<rparr>)))))))"

definition parse_rpc_response :: "codec \<Rightarrow> RpcResponseCommand reader" where
  "parse_rpc_response c =
     rd_bind (get_i64 c) (\<lambda>request_id. rd_bind (get_i32 c) (\<lambda>code. rd_bind (get_string c) (\<lambda>msg.
       rd_return \<lparr>rr_request_id = request_id, rr_status_code = code, rr_ret_msg = msg\<rparr>)))"

text \<open>The parsers of commands return an \<open>anyhow::Error\<close>, which comes back as \<open>Other\<close>.\<close>

definition via_anyhow :: "'a reader \<Rightarrow> 'a reader" where
  "via_anyhow r src = map_err (\<lambda>e. Other (Any_worker e)) (r src)"

definition parse :: "codec \<Rightarrow> Frame reader" where
  "parse c =
     rd_bind (get_i32 c) (\<lambda>msg_len. rd_bind get_u8 (\<lambda>ty. rd_bind (get_i32 c) (\<lambda>body_len src.
       if int (length src) < u64 (i32 (msg_len + body_len)) then Err STREAM_ABNORMAL
       else case message_type ty of
         None \<Rightarrow> Err STREAM_MESSAGE_TYPE_NOT_FOUND
       | Some GetLocalData \<Rightarrow> rd_bind (via_anyhow (parse_to_get_localfile_data_command c)) (\<lambda>x. rd_return (Frame_GetLocalData x)) src
       | Some GetLocalDataIndex \<Rightarrow> rd_bind (via_anyhow (parse_to_get_localfile_index_command c)) (\<lambda>x. rd_return (Frame_GetLocalDataIndex x)) src
       | Some GetMemoryData \<Rightarrow> rd_bind (via_anyhow (parse_to_get_memory_data_command c)) (\<lambda>x. rd_return (Frame_GetMemoryData x)) src
       | Some SendShuffleData \<Rightarrow> rd_bind (via_anyhow (parse_to_send_shuffle_data_command c)) (\<lambda>x. rd_return (Frame_SendShuffleData x)) src
       | Some RpcResponse \<Rightarrow> rd_bind (parse_rpc_response c) (\<lambda>x. rd_return (Frame_RpcResponse x)) src
       | _ \<Rightarrow> Panic)))"

section \<open>Connections\<close>

text \<open>\<open>in_chunks\<close> is what the socket still delivers, \<open>out_bytes\<close> what has been written to it.\<close>

record Connection =
  in_chunks :: "bytes list"
  buffer :: bytes
  out_bytes :: bytes

definition parse_frame :: "codec \<Rightarrow> bytes \<Rightarrow> bytes \<times> (Frame option, worker_error) outcome" where
  "parse_frame c buf =
     (case check c buf of
        Ok rest \<Rightarrow>
          (case parse c buf of
             Ok (frame, _) \<Rightarrow> (rest, Ok (Some frame))
           | Err e \<Rightarrow> (buf, Err (Other (Any_worker e)))
           | Panic \<Rightarrow> (buf, Panic))
      | Err STREAM_INCOMPLETE \<Rightarrow> (buf, Ok None)
      | Err e \<Rightarrow> (buf, Err (Other (Any_worker e)))
      | Panic \<Rightarrow> (buf, Panic))"

definition end_of_stream :: "bytes \<Rightarrow> (Frame option, worker_error) outcome" where
  "end_of_stream buf = (if buf = [] then Ok None else Err STREAM_ABNORMAL)"

fun read_loop_frame :: "codec \<Rightarrow> bytes list \<Rightarrow> bytes \<Rightarrow> bytes list \<times> bytes \<times> (Frame option, worker_error) outcome" where
  "read_loop_frame c [] buf =
     (case parse_frame c buf of
        (buf, Ok None) \<Rightarrow> ([], buf, end_of_stream buf)
      | (buf, r) \<Rightarrow> ([], buf, r))"
| "read_loop_frame c (chunk # chunks) buf =
     (case parse_frame c buf of
        (buf, Ok None) \<Rightarrow> if chunk = [] then (chunks, buf, end_of_stream buf) else read_loop_frame c chunks (buf @ chunk)
      | (buf, r) \<Rightarrow> (chunk # chunks, buf, r))"

definition read_frame :: "codec \<Rightarrow> Connection \<Rightarrow> Connection \<times> (Frame option, worker_error) outcome" where
  "read_frame c conn =
     (let (chunks, buf, r) = read_loop_frame c (in_chunks conn) (buffer conn)
      in (conn\<lparr>in_chunks := chunks, buffer := buf\<rparr>, r))"

definition write_frame :: "codec \<Rightarrow> Frame \<Rightarrow> Connection \<Rightarrow> Connection \<times> (unit, anyhow) outcome" where
  "write_frame c frame conn =
     (case frame_write c frame of
        Ok bs \<Rightarrow> (conn\<lparr>out_bytes := out_bytes conn @ bs\<rparr>, Ok ())
      | Err e \<Rightarrow> (conn, Err e)
      | Panic \<Rightarrow> (conn, Panic))"

end
