(* ===== verification/Urpc_Stream.thy ===== *)
theory Urpc_Stream
  imports Urpc_Frame "HOL-Library.Sublist"
begin

text \<open>
  What the binary protocol guarantees: a reader does not depend on the bytes behind what it reads, a frame is recognised
  exactly when it is complete, so that it does not matter how the socket cuts the stream into chunks, requests in the
  documented layout are read back as they were meant, and responses announce their own length correctly.
\<close>

section \<open>Readers do not look ahead\<close>

named_theorems stable_intros \<open>readers whose result does not depend on the bytes behind\<close>

definition no_lookahead :: "'a reader \<Rightarrow> bool" where
  "no_lookahead r \<longleftrightarrow> (\<forall>src x rest zs. r src = Ok (x, rest) \<longrightarrow> r (src @ zs) = Ok (x, rest @ zs))"

lemma stable_return [stable_intros]: "no_lookahead (rd_return x)"
  by (simp add: no_lookahead_def rd_return_def)

lemma stable_bind [stable_intros]: "no_lookahead r \<Longrightarrow> (\<And>x. no_lookahead (f x)) \<Longrightarrow> no_lookahead (rd_bind r f)"
  by (fastforce simp: no_lookahead_def rd_bind_def and_then_eq_Ok)

lemma stable_times [stable_intros]: "no_lookahead r \<Longrightarrow> no_lookahead (rd_times n r)"
  by (induction n) (auto intro: stable_intros)

lemma stable_u8 [stable_intros]: "no_lookahead get_u8"
  by (auto simp: no_lookahead_def get_u8_def split: list.splits)

lemma stable_i32 [stable_intros]: "no_lookahead (get_i32 c)"
  by (auto simp: no_lookahead_def get_i32_def)

lemma stable_i64 [stable_intros]: "no_lookahead (get_i64 c)"
  by (auto simp: no_lookahead_def get_i64_def)

lemma stable_skip [stable_intros]: "no_lookahead (skip n)"
  by (auto simp: no_lookahead_def skip_def)

lemma stable_bytes [stable_intros]: "no_lookahead (get_bytes c)"
  by (auto simp: no_lookahead_def get_bytes_def rd_bind_def rd_return_def skip_def get_i32_def and_then_eq_Ok split: if_splits)

lemma stable_string [stable_intros]: "no_lookahead (get_string c)"
  by (auto simp: no_lookahead_def get_string_def rd_bind_def rd_return_def skip_def get_i32_def and_then_eq_Ok Let_def split: if_splits)

lemma stable_panic [stable_intros]: "no_lookahead r \<Longrightarrow> no_lookahead (\<lambda>src. if b then Panic else r src)"
  by (simp add: no_lookahead_def)

lemma stable_anyhow [stable_intros]: "no_lookahead r \<Longrightarrow> no_lookahead (via_anyhow r)"
proof -
  have "map_err f o1 = Ok y \<longleftrightarrow> o1 = Ok y" for f :: "worker_error \<Rightarrow> worker_error" and o1 and y :: "'a \<times> bytes"
    by (cases o1) simp_all
  then show "no_lookahead r \<Longrightarrow> no_lookahead (via_anyhow r)" by (simp add: no_lookahead_def via_anyhow_def)
qed

lemmas command_parsers = parse_to_get_localfile_data_command_def parse_to_get_localfile_index_command_def
  parse_to_get_memory_data_command_def parse_to_send_shuffle_data_command_def parse_rpc_response_def
  parse_server_def parse_block_def parse_partition_def

lemma stable_commands [stable_intros]:
  "no_lookahead (parse_to_get_localfile_data_command c)" "no_lookahead (parse_to_get_localfile_index_command c)"
  "no_lookahead (parse_to_get_memory_data_command c)" "no_lookahead (parse_to_send_shuffle_data_command c)" "no_lookahead (parse_rpc_response c)"
  unfolding command_parsers by (intro stable_intros)+

lemma stable_parse: "no_lookahead (parse c)"
proof -
  have long: "no_lookahead (\<lambda>src. if int (length src) < n then Err e else r src)" if "no_lookahead r" for n e and r :: "Frame reader"
    using that by (auto simp: no_lookahead_def)
  have fail: "no_lookahead (\<lambda>_. Err e)" "no_lookahead (\<lambda>_. Panic)" for e by (simp_all add: no_lookahead_def)
  show ?thesis
    unfolding parse_def
    apply (intro stable_intros long)
    subgoal for n ty k
      by (cases "message_type ty"; cases "the (message_type ty)") (auto intro!: stable_intros fail)
    done
qed

section \<open>Complete frames\<close>

definition frame_len :: "codec \<Rightarrow> bytes \<Rightarrow> nat" where
  "frame_len c src = HEADER_LEN + nat (u64 (i32 (take_i32 c (take 4 src) + take_i32 c (take 4 (drop 5 src)))))"

lemma check_eq:
  "check c src = (if length src < HEADER_LEN \<or> length src < frame_len c src then Err STREAM_INCOMPLETE else Ok (drop (frame_len c src) src))"
proof (cases "length src < HEADER_LEN")
  case False
  then have n: "9 \<le> length src" by (simp add: HEADER_LEN_def)
  then obtain b bs where b: "drop 4 src = b # bs" by (cases "drop 4 src") auto
  have "get_i32 c src = Ok (take_i32 c (take 4 src), b # bs)" using n b by (auto simp: get_i32_def)
  moreover have bs: "bs = drop 5 src" using arg_cong [OF b, of tl] drop_Suc [of 4 src] by (simp add: tl_drop)
  moreover have "get_i32 c bs = Ok (take_i32 c (take 4 (drop 5 src)), drop 9 src)" using n bs by (auto simp: get_i32_def)
  ultimately show ?thesis
    using False n by (auto simp: check_def rd_bind_def get_u8_def skip_def Let_def frame_len_def HEADER_LEN_def add.commute u64_def)
qed (simp add: check_def)

definition frame_at :: "codec \<Rightarrow> bytes \<Rightarrow> Frame \<Rightarrow> bool" where
  "frame_at c b f \<longleftrightarrow> check c b = Ok [] \<and> (\<exists>rest. parse c b = Ok (f, rest))"

lemma check_append:
  assumes "check c b = Ok []"
  shows "check c (b @ zs) = Ok zs"
proof -
  have len: "9 \<le> length b" "frame_len c b = length b"
    using assms by (auto simp: check_eq HEADER_LEN_def split: if_splits)
  then have "frame_len c (b @ zs) = length b" by (simp add: frame_len_def)
  with len show ?thesis by (simp add: check_eq HEADER_LEN_def)
qed

lemma check_prefix:
  assumes "check c (p @ q) = Ok []" and "q \<noteq> []"
  shows "check c p = Err STREAM_INCOMPLETE"
proof (cases "length p < HEADER_LEN")
  case False
  then have "frame_len c (p @ q) = frame_len c p" by (simp add: frame_len_def HEADER_LEN_def)
  moreover have "frame_len c (p @ q) = length (p @ q)" using assms(1) by (auto simp: check_eq split: if_splits)
  ultimately show ?thesis using assms(2) by (cases q) (simp_all add: check_eq)
qed (simp add: check_eq)

lemma parse_frame_complete: "frame_at c b f \<Longrightarrow> parse_frame c (b @ zs) = (zs, Ok (Some f))"
  using stable_parse [of c] by (auto simp: frame_at_def parse_frame_def check_append no_lookahead_def)

lemma parse_frame_prefix: "frame_at c (p @ q) f \<Longrightarrow> q \<noteq> [] \<Longrightarrow> parse_frame c p = (p, Ok None)"
  using check_prefix [of c p q] by (simp add: frame_at_def parse_frame_def)

lemma parse_frame_Nil: "parse_frame c [] = ([], Ok None)"
  by (simp add: parse_frame_def check_def HEADER_LEN_def)

section \<open>Chunks do not matter\<close>

lemma append_longer:
  assumes "xs @ ys = b @ zs" and "length b \<le> length xs"
  shows "\<exists>us. xs = b @ us"
proof -
  have "take (length b) xs = b" using arg_cong [OF assms(1), of "take (length b)"] assms(2) by simp
  then show ?thesis by (metis append_take_drop_id)
qed

lemma append_shorter:
  assumes "xs @ ys = b @ zs" and "length xs < length b"
  shows "\<exists>us. b = xs @ us \<and> us \<noteq> []"
  using append_longer [OF assms(1) [symmetric]] assms(2) by auto

lemma read_loop_complete:
  assumes "frame_at c b f" and "buf @ concat chunks = b @ zs" and "[] \<notin> set chunks"
  shows "\<exists>chunks' buf'. read_loop_frame c chunks buf = (chunks', buf', Ok (Some f)) \<and> buf' @ concat chunks' = zs \<and> [] \<notin> set chunks'"
  using assms
proof (induction chunks arbitrary: buf)
  case Nil
  then show ?case using parse_frame_complete [of c b f zs] by simp
next
  case (Cons chunk chunks)
  show ?case
  proof (cases "length b \<le> length buf")
    case True
    obtain ys where ys: "buf = b @ ys" using append_longer [OF Cons.prems(2) True] by blast
    then show ?thesis using Cons.prems parse_frame_complete [of c b f ys] by auto
  next
    case False
    then obtain q where "b = buf @ q" "q \<noteq> []" using append_shorter [OF Cons.prems(2)] by auto
    then have "parse_frame c buf = (buf, Ok None)" using Cons.prems(1) parse_frame_prefix by blast
    then show ?thesis using Cons.IH [of "buf @ chunk"] Cons.prems by auto
  qed
qed

lemma read_loop_end:
  assumes "buf @ concat chunks = p" and "p = [] \<or> (\<exists>q f. frame_at c (p @ q) f \<and> q \<noteq> [])" and "[] \<notin> set chunks"
  shows "read_loop_frame c chunks buf = ([], p, end_of_stream p)"
  using assms
proof (induction chunks arbitrary: buf)
  case Nil
  then have "parse_frame c buf = (buf, Ok None)" using parse_frame_Nil parse_frame_prefix by auto
  with Nil show ?case by simp
next
  case (Cons chunk chunks)
  then obtain q f where "frame_at c (buf @ concat (chunk # chunks) @ q) f" "concat (chunk # chunks) @ q \<noteq> []" by auto
  then have "parse_frame c buf = (buf, Ok None)" by (rule parse_frame_prefix)
  with Cons show ?case by auto
qed

fun read_many :: "codec \<Rightarrow> nat \<Rightarrow> Connection \<Rightarrow> Connection \<times> (Frame option, worker_error) outcome list" where
  "read_many c 0 conn = (conn, [])"
| "read_many c (Suc n) conn =
     (let (conn, r) = read_frame c conn; (conn, rs) = read_many c n conn in (conn, r # rs))"

definition pending_bytes :: "Connection \<Rightarrow> bytes" where
  "pending_bytes conn = buffer conn @ concat (in_chunks conn)"

lemma read_frame_complete:
  assumes "frame_at c b f" and "pending_bytes conn = b @ zs" and "[] \<notin> set (in_chunks conn)"
  shows "\<exists>conn'. read_frame c conn = (conn', Ok (Some f)) \<and> pending_bytes conn' = zs \<and> [] \<notin> set (in_chunks conn') \<and>
    out_bytes conn' = out_bytes conn"
  using read_loop_complete [OF assms(1), of "buffer conn" "in_chunks conn" zs] assms(2,3)
  by (fastforce simp: read_frame_def pending_bytes_def)

lemma read_many_frames:
  assumes "list_all (\<lambda>(b, f). frame_at c b f) fs" and "pending_bytes conn = concat (map fst fs) @ p"
    and "p = [] \<or> (\<exists>q f. frame_at c (p @ q) f \<and> q \<noteq> [])" and "[] \<notin> set (in_chunks conn)"
  shows "snd (read_many c (Suc (length fs)) conn) = map (\<lambda>e. Ok (Some (snd e))) fs @ [end_of_stream p]"
  using assms
proof (induction fs arbitrary: conn)
  case Nil
  then show ?case
    using read_loop_end [of "buffer conn" "in_chunks conn" p c] by (simp add: read_frame_def pending_bytes_def)
next
  case (Cons e fs)
  obtain b f where e: "e = (b, f)" by (cases e)
  obtain conn' where "read_frame c conn = (conn', Ok (Some f))" "pending_bytes conn' = concat (map fst fs) @ p"
      "[] \<notin> set (in_chunks conn')"
    using read_frame_complete [of c b f conn "concat (map fst fs) @ p"] Cons.prems by (auto simp: e)
  with Cons.IH [of conn'] Cons.prems show ?case by (simp add: e case_prod_unfold Let_def)
qed

section \<open>Requests\<close>

text \<open>The layout of the four requests, as the clients write them: the header, then the fields in the order of the parsers.\<close>

definition enc_bytes :: "codec \<Rightarrow> bytes \<Rightarrow> bytes" where
  "enc_bytes c bs = put_i32 c (int (length bs)) @ bs"

definition enc_string :: "codec \<Rightarrow> string \<Rightarrow> bytes" where
  "enc_string c s = enc_bytes c (bytes_of_string s)"

definition enc_server :: "codec \<Rightarrow> string \<times> string \<times> int \<times> int \<Rightarrow> bytes" where
  "enc_server c = (\<lambda>(sid, host, port, netty). enc_string c sid @ enc_string c host @ put_i32 c port @ put_i32 c netty)"

definition enc_block :: "codec \<Rightarrow> int \<Rightarrow> int \<Rightarrow> (string \<times> string \<times> int \<times> int) list \<Rightarrow> Block \<Rightarrow> bytes" where
  "enc_block c shuffle pid servers b =
     put_i32 c pid @ put_i64 c (block_id b) @ put_i32 c (length_of b) @ put_i32 c shuffle @ put_i64 c (crc b) @
     put_i64 c (task_attempt_id b) @ enc_bytes c (data b) @
     put_i32 c (int (length servers)) @ concat (map (enc_server c) servers) @
     put_i32 c (uncompress_length b) @ put_i64 c 0"

definition enc_partition ::
    "codec \<Rightarrow> int \<Rightarrow> (string \<times> string \<times> int \<times> int) list \<Rightarrow> int \<times> Block list \<Rightarrow> bytes" where
  "enc_partition c shuffle servers = (\<lambda>(pid, bs).
     put_i32 c pid @ put_i32 c (int (length bs)) @ concat (map (enc_block c shuffle pid servers) bs))"

definition enc_frame :: "codec \<Rightarrow> MessageType \<Rightarrow> bytes \<Rightarrow> bytes" where
  "enc_frame c t content = put_i32 c (int (length content)) @ [message_code t] @ put_i32 c 0 @ content"

fun enc_content :: "codec \<Rightarrow> (string \<times> string \<times> int \<times> int) list \<Rightarrow> Frame \<Rightarrow> bytes" where
  "enc_content c servers (Frame_GetLocalData r) =
     put_i64 c (gd_request_id r) @ enc_string c (gd_app_id r) @ put_i32 c (gd_shuffle_id r) @ put_i32 c (gd_partition_id r) @
     put_i32 c (gd_partition_num_per_range r) @ put_i32 c (gd_partition_num r) @ put_i64 c (gd_offset r) @
     put_i32 c (gd_length r) @ put_i64 c (gd_timestamp r)"
| "enc_content c servers (Frame_GetLocalDataIndex r) =
     put_i64 c (gi_request_id r) @ enc_string c (gi_app_id r) @ put_i32 c (gi_shuffle_id r) @ put_i32 c (gi_partition_id r) @
     put_i32 c (gi_partition_num_per_range r) @ put_i32 c (gi_partition_num r)"
| "enc_content c servers (Frame_GetMemoryData r) =
     put_i64 c (gm_request_id r) @ enc_string c (gm_app_id r) @ put_i32 c (gm_shuffle_id r) @ put_i32 c (gm_partition_id r) @
     put_i64 c (gm_last_block_id r) @ put_i32 c (gm_read_buffer_size r) @ put_i64 c (gm_timestamp r) @
     enc_bytes c (case gm_expected_tasks_bitmap_raw r of Some bs \<Rightarrow> bs | None \<Rightarrow> [])"
| "enc_content c servers (Frame_SendShuffleData r) =
     put_i64 c (sd_request_id r) @ enc_string c (sd_app_id r) @ put_i32 c (sd_shuffle_id r) @ put_i64 c (sd_ticket_id r) @
     put_i32 c (int (length (sd_blocks r))) @ concat (map (enc_partition c (sd_shuffle_id r) servers) (sd_blocks r)) @
     put_i64 c (sd_timestamp r)"
| "enc_content c servers _ = []"

fun request_type :: "Frame \<Rightarrow> MessageType" where
  "request_type (Frame_GetLocalData r) = GetLocalData"
| "request_type (Frame_GetLocalDataIndex r) = GetLocalDataIndex"
| "request_type (Frame_GetMemoryData r) = GetMemoryData"
| "request_type (Frame_SendShuffleData r) = SendShuffleData"
| "request_type _ = RpcResponse"

definition enc_request :: "codec \<Rightarrow> (string \<times> string \<times> int \<times> int) list \<Rightarrow> Frame \<Rightarrow> bytes" where
  "enc_request c servers f = enc_frame c (request_type f) (enc_content c servers f)"

text \<open>Fields in the range of their types.\<close>

definition string_ok :: "string \<Rightarrow> bool" where
  "string_ok s \<longleftrightarrow> is_utf8 (bytes_of_string s) \<and> int (length s) < 2 ^ 31"

definition server_ok :: "string \<times> string \<times> int \<times> int \<Rightarrow> bool" where
  "server_ok = (\<lambda>(sid, host, port, netty). string_ok sid \<and> string_ok host \<and> is_i32 port \<and> is_i32 netty)"

definition wire_block_ok :: "Block \<Rightarrow> bool" where
  "wire_block_ok b \<longleftrightarrow> is_i64 (block_id b) \<and> is_i32 (length_of b) \<and> is_i32 (uncompress_length b) \<and> is_i64 (crc b) \<and>
     int (length (data b)) < 2 ^ 31 \<and> is_i64 (task_attempt_id b)"

definition batch_ok :: "int \<times> Block list \<Rightarrow> bool" where
  "batch_ok = (\<lambda>(pid, bs). is_i32 pid \<and> int (length bs) < 2 ^ 31 \<and> list_all wire_block_ok bs)"

fun request_ok :: "Frame \<Rightarrow> bool" where
  "request_ok (Frame_GetLocalData r) \<longleftrightarrow>
     is_i64 (gd_request_id r) \<and> string_ok (gd_app_id r) \<and> is_i32 (gd_shuffle_id r) \<and> is_i32 (gd_partition_id r) \<and>
     is_i32 (gd_partition_num_per_range r) \<and> is_i32 (gd_partition_num r) \<and> is_i64 (gd_offset r) \<and> is_i32 (gd_length r) \<and>
     is_i64 (gd_timestamp r)"
| "request_ok (Frame_GetLocalDataIndex r) \<longleftrightarrow>
     is_i64 (gi_request_id r) \<and> string_ok (gi_app_id r) \<and> is_i32 (gi_shuffle_id r) \<and> is_i32 (gi_partition_id r) \<and>
     is_i32 (gi_partition_num_per_range r) \<and> is_i32 (gi_partition_num r)"
| "request_ok (Frame_GetMemoryData r) \<longleftrightarrow>
     is_i64 (gm_request_id r) \<and> string_ok (gm_app_id r) \<and> is_i32 (gm_shuffle_id r) \<and> is_i32 (gm_partition_id r) \<and>
     is_i64 (gm_last_block_id r) \<and> is_i32 (gm_read_buffer_size r) \<and> is_i64 (gm_timestamp r) \<and>
     (case gm_expected_tasks_bitmap_raw r of None \<Rightarrow> True | Some bs \<Rightarrow> bs \<noteq> [] \<and> int (length bs) < 2 ^ 31)"
| "request_ok (Frame_SendShuffleData r) \<longleftrightarrow>
     is_i64 (sd_request_id r) \<and> string_ok (sd_app_id r) \<and> is_i32 (sd_shuffle_id r) \<and> is_i64 (sd_ticket_id r) \<and> is_i64 (sd_timestamp r) \<and>
     dm_ok (sd_blocks r) \<and> int (length (sd_blocks r)) < 2 ^ 31 \<and>
     list_all batch_ok (sd_blocks r)"
| "request_ok _ \<longleftrightarrow> False"

definition servers_ok :: "(string \<times> string \<times> int \<times> int) list \<Rightarrow> bool" where
  "servers_ok servers \<longleftrightarrow> list_all server_ok servers \<and> int (length servers) < 2 ^ 31"

definition sendable :: "codec \<Rightarrow> (string \<times> string \<times> int \<times> int) list \<times> Frame \<Rightarrow> bool" where
  "sendable c = (\<lambda>(servers, f). servers_ok servers \<and> request_ok f \<and> int (length (enc_content c servers f)) < 2 ^ 31)"

lemma foldl_insert_append:
  "distinct (map fst (m @ ps)) \<Longrightarrow> foldl (\<lambda>m (k, v). dm_insert k v m) m ps = m @ ps"
proof (induction ps arbitrary: m)
  case (Cons p ps)
  have "dm_insert (fst p) (snd p) m = m @ [p]"
    using Cons.prems by (induction m) auto
  with Cons.IH [of "m @ [p]"] Cons.prems show ?case by (simp add: case_prod_unfold)
qed simp

lemma foldl_insert_all: "dm_ok ps \<Longrightarrow> foldl (\<lambda>m (k, v). dm_insert k v m) [] ps = ps"
  using foldl_insert_append [of "[]" ps] by (simp add: dm_ok_def)

lemma string_of_bytes_of_string [simp]: "string_of_bytes (bytes_of_string s) = s"
proof -
  have "char_of (uint (word_of_int (of_char x) :: byte)) = x" for x
    by (simp add: uint_word_of_int)
  then show ?thesis by (simp add: string_of_bytes_def bytes_of_string_def comp_def)
qed

lemma length_bytes_of_string [simp]: "length (bytes_of_string s) = length s"
  by (simp add: bytes_of_string_def)

lemma bytes_of_string_Nil [simp]: "bytes_of_string [] = []"
  by (simp add: bytes_of_string_def)

lemma is_i32_length [simp]: "int n < 2 ^ 31 \<Longrightarrow> is_i32 (int n)"
  by (simp add: is_i32_def)

lemma is_0 [simp]: "is_i32 0" "is_i64 0"
  by (simp_all add: is_i32_def is_i64_def)

context wire_codec
begin

lemma put_not_Nil [simp]: "put_i32 c x \<noteq> []" "put_i64 c x \<noteq> []"
  using len_i32 [of x] len_i64 [of x] by auto

lemma get_put_i32: "is_i32 x \<Longrightarrow> get_i32 c (put_i32 c x @ rest) = Ok (x, rest)"
  by (simp add: get_i32_def len_i32 take_put_i32)

lemma get_put_i64: "is_i64 x \<Longrightarrow> get_i64 c (put_i64 c x @ rest) = Ok (x, rest)"
  by (simp add: get_i64_def len_i64 take_put_i64)

lemma rd_i32 [simp]: "is_i32 x \<Longrightarrow> rd_bind (get_i32 c) f (put_i32 c x @ rest) = f x rest"
  by (simp add: rd_bind_def get_put_i32)

lemma rd_i64 [simp]: "is_i64 x \<Longrightarrow> rd_bind (get_i64 c) f (put_i64 c x @ rest) = f x rest"
  by (simp add: rd_bind_def get_put_i64)

lemma rd_bytes [simp]:
  "int (length bs) < 2 ^ 31 \<Longrightarrow> rd_bind (get_bytes c) f (enc_bytes c bs @ rest) = f (if bs = [] then None else Some bs) rest"
  by (simp add: rd_bind_def get_bytes_def enc_bytes_def get_put_i32 is_i32_def skip_def rd_return_def)

lemma rd_string [simp]: "string_ok s \<Longrightarrow> rd_bind (get_string c) f (enc_string c s @ rest) = f s rest"
  by (simp add: string_ok_def rd_bind_def get_string_def enc_string_def enc_bytes_def get_put_i32 is_i32_def skip_def Let_def u64_def)

lemma rd_times_enc:
  assumes "\<And>x rest. x \<in> set xs \<Longrightarrow> r (enc x @ rest) = Ok (g x, rest)"
  shows "rd_times (length xs) r (concat (map enc xs) @ rest) = Ok (map g xs, rest)"
  using assms by (induction xs) (simp_all add: rd_bind_def rd_return_def)

lemma rd_times_bind [simp]:
  assumes "n = length xs" and "\<And>x rest. x \<in> set xs \<Longrightarrow> r (enc x @ rest) = Ok (g x, rest)"
  shows "rd_bind (rd_times n r) f (concat (map enc xs) @ rest) = f (map g xs) rest"
  using rd_times_enc [of xs r enc g rest] assms by (simp add: rd_bind_def)

lemma parse_enc_server: "server_ok s \<Longrightarrow> parse_server c (enc_server c s @ rest) = Ok ((), rest)"
  by (cases s) (simp add: parse_server_def enc_server_def server_ok_def rd_return_def)

lemma parse_enc_block:
  assumes "wire_block_ok b" and "is_i32 shuffle" and "is_i32 pid" and "servers_ok servers"
  shows "parse_block c (enc_block c shuffle pid servers b @ rest) = Ok (b, rest)"
  using assms
  by (simp add: parse_block_def enc_block_def wire_block_ok_def servers_ok_def rd_times_bind [where g = "\<lambda>_. ()"]
      parse_enc_server list_all_iff rd_return_def)

lemma parse_enc_partition:
  assumes "batch_ok e" and "is_i32 shuffle" and "servers_ok servers"
  shows "parse_partition c (enc_partition c shuffle servers e @ rest) = Ok (e, rest)"
  using assms
  by (cases e) (simp add: batch_ok_def parse_partition_def enc_partition_def rd_times_bind [where g = "\<lambda>b. b"] parse_enc_block
      list_all_iff rd_return_def)

lemma parse_enc_send:
  assumes "request_ok (Frame_SendShuffleData r)" and "servers_ok servers"
  shows "parse_to_send_shuffle_data_command c (enc_content c servers (Frame_SendShuffleData r) @ rest) = Ok (r, rest)"
  using assms
  by (simp add: parse_to_send_shuffle_data_command_def rd_times_bind [where g = "\<lambda>e. e"] parse_enc_partition
      list_all_iff rd_return_def foldl_insert_all)

lemma parse_enc_local:
  assumes "request_ok (Frame_GetLocalData r)"
  shows "parse_to_get_localfile_data_command c (enc_content c servers (Frame_GetLocalData r) @ rest) = Ok (r, rest)"
  using assms by (simp add: parse_to_get_localfile_data_command_def rd_return_def)

lemma parse_enc_index:
  assumes "request_ok (Frame_GetLocalDataIndex r)"
  shows "parse_to_get_localfile_index_command c (enc_content c servers (Frame_GetLocalDataIndex r) @ rest) = Ok (r, rest)"
  using assms by (simp add: parse_to_get_localfile_index_command_def rd_return_def)

lemma parse_enc_memory:
  assumes "request_ok (Frame_GetMemoryData r)"
  shows "parse_to_get_memory_data_command c (enc_content c servers (Frame_GetMemoryData r) @ rest) = Ok (r, rest)"
  using assms by (cases "gm_expected_tasks_bitmap_raw r") (simp_all add: parse_to_get_memory_data_command_def rd_return_def)

lemma parse_enc_request:
  assumes "sendable c (servers, f)"
  shows "parse c (enc_request c servers f @ rest) = Ok (f, rest)"
proof -
  let ?content = "enc_content c servers f"
  have ok: "int (length ?content) < 2 ^ 31" "request_ok f" "servers_ok servers" using assms by (auto simp: sendable_def)
  have len: "u64 (i32 (int (length ?content))) = int (length ?content)" using ok(1) by (simp add: i32_def u64_def)
  have head: "rd_bind get_u8 g (b # xs) = g b xs" for g :: "byte \<Rightarrow> Frame reader" and b xs
    by (simp add: rd_bind_def get_u8_def)
  show ?thesis
    using ok len
    by (cases f) (simp_all add: parse_def enc_request_def enc_frame_def head message_type_def rd_bind_def [of "via_anyhow _"]
        via_anyhow_def rd_return_def parse_enc_send parse_enc_local parse_enc_index parse_enc_memory request_ok.simps(5-)
        del: enc_content.simps request_ok.simps(1-4))
qed

lemma frame_at_enc_request:
  assumes "sendable c (servers, f)"
  shows "frame_at c (enc_request c servers f) f"
proof -
  let ?content = "enc_content c servers f"
  have ok: "int (length ?content) < 2 ^ 31" using assms by (auto simp: sendable_def)
  then have "u64 (i32 (int (length ?content))) = int (length ?content)" by (simp add: i32_def u64_def)
  then have "check c (enc_request c servers f) = Ok []"
    using ok len_i32 [of "int (length ?content)"] len_i32 [of 0]
    by (simp add: check_eq frame_len_def enc_request_def enc_frame_def HEADER_LEN_def take_put_i32)
  with parse_enc_request [OF assms, of "[]"] show ?thesis by (auto simp: frame_at_def)
qed

lemma frame_at_prefix:
  assumes "tail \<noteq> [] \<Longrightarrow> sendable c (servers, f) \<and> strict_prefix tail (enc_request c servers f)"
  shows "tail = [] \<or> (\<exists>q f. frame_at c (tail @ q) f \<and> q \<noteq> [])"
  using assms frame_at_enc_request [of servers f]
  by (cases "tail = []") (auto simp: strict_prefix_def prefix_def, blast)

end

section \<open>The stream of requests\<close>

text \<open>
  C10. Requests survive the way through the socket.  Whatever requests a client sends one after the other, and however the
  network cuts their bytes into chunks, reading frame after frame gives back exactly these requests, in their order and
  with every field, and then the end of the stream: none if the stream ends between two requests, the error of an abnormal
  stream if it ends within one.
\<close>

theorem urpc_requests_read_back:
  assumes "wire_codec c" and "list_all (sendable c) requests"
    and "pending_bytes conn = concat (map (\<lambda>(servers, f). enc_request c servers f) requests) @ tail" and "[] \<notin> set (in_chunks conn)"
    and "tail \<noteq> [] \<Longrightarrow> sendable c (servers, f) \<and> strict_prefix tail (enc_request c servers f)"
  shows "snd (read_many c (Suc (length requests)) conn) =
    map (\<lambda>(_, f). Ok (Some f)) requests @ [if tail = [] then Ok None else Err STREAM_ABNORMAL]"
proof -
  let ?fs = "map (\<lambda>(servers, f). (enc_request c servers f, f)) requests"
  have "list_all (\<lambda>(b, f). frame_at c b f) ?fs"
    using assms(2) by (auto simp: list_all_iff intro: wire_codec.frame_at_enc_request [OF assms(1)])
  moreover have "pending_bytes conn = concat (map fst ?fs) @ tail" using assms(3) by (simp add: comp_def case_prod_unfold)
  moreover have "tail = [] \<or> (\<exists>q f. frame_at c (tail @ q) f \<and> q \<noteq> [])"
    using wire_codec.frame_at_prefix [OF assms(1,5)] by blast
  ultimately have "snd (read_many c (Suc (length ?fs)) conn) = map (\<lambda>e. Ok (Some (snd e))) ?fs @ [end_of_stream tail]"
    using assms(4) by (rule read_many_frames)
  then show ?thesis by (simp add: end_of_stream_def comp_def case_prod_unfold)
qed

definition sample_get :: Frame where
  "sample_get = Frame_GetLocalData \<lparr>gd_request_id = 7, gd_app_id = ''a'', gd_shuffle_id = 1, gd_partition_id = 2,
     gd_partition_num_per_range = 1, gd_partition_num = 1, gd_offset = 0, gd_length = 300, gd_timestamp = 5\<rparr>"

definition sample_send :: Frame where
  "sample_send = Frame_SendShuffleData \<lparr>sd_request_id = 8, sd_app_id = ''a'', sd_shuffle_id = 1,
     sd_blocks = [(2, [\<lparr>block_id = 1, length_of = 2, uncompress_length = 2, crc = 9, data = [10, 11], task_attempt_id = 0\<rparr>])],
     sd_ticket_id = 3, sd_timestamp = 6\<rparr>"

definition sample_requests :: "((string \<times> string \<times> int \<times> int) list \<times> Frame) list" where
  "sample_requests = [([], sample_get), ([(''s'', ''h'', 1, 2)], sample_send)]"

text \<open>The bytes come one by one, and the stream ends within a third request.\<close>

definition sample_connection :: Connection where
  "sample_connection = \<lparr>in_chunks = map (\<lambda>b. [b])
     (concat (map (\<lambda>(servers, f). enc_request be_codec servers f) sample_requests) @ [0, 0, 0]), buffer = [], out_bytes = []\<rparr>"

theorem urpc_requests_read_back_witness:
  "list_all (sendable be_codec) sample_requests \<and>
   snd (read_many be_codec 3 sample_connection) = [Ok (Some sample_get), Ok (Some sample_send), Err STREAM_ABNORMAL]"
proof -
  have ok: "list_all (sendable be_codec) sample_requests" by code_simp
  have tail: "sendable be_codec ([], sample_get)" "strict_prefix [0, 0, 0] (enc_request be_codec [] sample_get)" by code_simp+
  have "snd (read_many be_codec (Suc (length sample_requests)) sample_connection) =
      map (\<lambda>(_, f). Ok (Some f)) sample_requests @ [if [0 :: byte, 0, 0] = [] then Ok None else Err STREAM_ABNORMAL]"
    using tail
    by (intro urpc_requests_read_back [where tail = "[0, 0, 0]" and servers = "[]" and f = sample_get] be.wire_codec_axioms ok)
      (auto simp: sample_connection_def pending_bytes_def comp_def concat_map_singleton)
  with ok show ?thesis by (simp add: sample_requests_def numeral_3_eq_3 del: read_many.simps)
qed

section \<open>Batches of one partition\<close>

text \<open>A second batch for a partition replaces the first one: the blocks of the first are gone when the request is applied.\<close>

lemma duplicate_partition_overwritten:
  assumes "wire_codec c" and "servers_ok servers" and "batch_ok (pid, bs1)" and "batch_ok (pid, bs2)"
    and "is_i64 rid" and "string_ok app" and "is_i32 shuffle" and "is_i64 ticket" and "is_i64 timestamp"
  shows "parse_to_send_shuffle_data_command c
    (enc_content c servers (Frame_SendShuffleData \<lparr>sd_request_id = rid, sd_app_id = app, sd_shuffle_id = shuffle,
       sd_blocks = [(pid, bs1), (pid, bs2)], sd_ticket_id = ticket, sd_timestamp = timestamp\<rparr>)) =
    Ok (\<lparr>sd_request_id = rid, sd_app_id = app, sd_shuffle_id = shuffle, sd_blocks = [(pid, bs2)], sd_ticket_id = ticket,
       sd_timestamp = timestamp\<rparr>, [])"
proof -
  have two: "rd_bind (rd_times 2 (parse_partition c)) g
      (enc_partition c shuffle servers (pid, bs1) @ enc_partition c shuffle servers (pid, bs2) @ rest) = g [(pid, bs1), (pid, bs2)] rest"
    for g :: "(int \<times> Block list) list \<Rightarrow> SendDataRequestCommand reader" and rest
    using wire_codec.parse_enc_partition [OF assms(1) _ assms(7,2)] assms(3,4) by (simp add: numeral_2_eq_2 rd_bind_def rd_return_def)
  have 2: "is_i32 2" by (simp add: is_i32_def)
  show ?thesis
    using assms(5-9) wire_codec.rd_i64 [OF assms(1), of timestamp g "[]" for g :: "int \<Rightarrow> SendDataRequestCommand reader"]
    by (simp add: parse_to_send_shuffle_data_command_def wire_codec.rd_i32 [OF assms(1)] wire_codec.rd_i64 [OF assms(1)]
        wire_codec.rd_string [OF assms(1)] two 2 rd_return_def)
qed

section \<open>Malformed requests\<close>

text \<open>A complete frame whose content ends within the number of the request panics instead of giving an error.\<close>

lemma short_frame_panics:
  assumes "wire_codec c" and "content \<noteq> []" and "length content < 8"
    and "t \<in> {GetLocalData, GetLocalDataIndex, GetMemoryData, SendShuffleData, RpcResponse}"
  shows "snd (parse_frame c (enc_frame c t content)) = Panic"
proof -
  have len: "is_i32 (int (length content))" "u64 (i32 (int (length content))) = int (length content)"
    using assms(3) by (simp_all add: is_i32_def i32_def u64_def)
  have head: "rd_bind get_u8 g (b # xs) = g b xs" for g :: "byte \<Rightarrow> Frame reader" and b xs
    by (simp add: rd_bind_def get_u8_def)
  have short: "get_i64 c content = Panic" using assms(2,3) by (simp add: get_i64_def)
  have rpc: "parse_rpc_response c content = Panic" using short by (simp add: parse_rpc_response_def rd_bind_def)
  have "parse c (enc_frame c t content) = Panic"
    using assms(4) len
    by (auto simp: parse_def enc_frame_def wire_codec.rd_i32 [OF assms(1)] head message_type_def short
        rd_bind_def [of "via_anyhow _"] rd_bind_def [of "parse_rpc_response _"] rd_bind_def [of "get_i64 _"] via_anyhow_def
        parse_to_get_localfile_data_command_def parse_to_get_localfile_index_command_def parse_to_get_memory_data_command_def
        parse_to_send_shuffle_data_command_def rpc)
  moreover have "check c (enc_frame c t content) = Ok []"
    using len wire_codec.len_i32 [OF assms(1)] wire_codec.take_put_i32 [OF assms(1)]
    by (simp add: check_eq frame_len_def enc_frame_def HEADER_LEN_def)
  ultimately show ?thesis by (simp add: parse_frame_def)
qed

section \<open>Responses\<close>

lemma length_write_segment: "wire_codec c \<Longrightarrow> length (write_segment c s) = 36"
  by (simp add: write_segment_def wire_codec.len_i32 wire_codec.len_i64)

lemma length_segments: "wire_codec c \<Longrightarrow> length (concat (map (write_segment c) segments)) = 36 * length segments"
  by (induction segments) (simp_all add: length_write_segment)

lemma check_header:
  assumes "wire_codec c" and "is_i32 m" and "is_i32 n" and "m + n = int (length content)" and "int (length content) < 2 ^ 31"
  shows "check c (put_i32 c m @ b # put_i32 c n @ content @ rest) = Ok rest"
proof -
  define xs where "xs = put_i32 c m @ b # put_i32 c n @ content"
  have len: "length xs = 9 + length content" by (simp add: xs_def wire_codec.len_i32 [OF assms(1)])
  have "frame_len c (xs @ rest) = 9 + length content"
    using assms(2-5) by (simp add: frame_len_def xs_def HEADER_LEN_def wire_codec.len_i32 [OF assms(1)]
        wire_codec.take_put_i32 [OF assms(1)] i32_id u64_id)
  then have "check c (xs @ rest) = Ok rest" by (simp add: check_eq len HEADER_LEN_def)
  then show ?thesis by (simp add: xs_def)
qed

lemma check_write_head:
  assumes "wire_codec c" and "content + body = int (length tail)" and "0 \<le> content" and "0 \<le> body"
    and "int (length (write_head c t content body rid code msg @ tail)) < 2 ^ 31"
  shows "check c (write_head c t content body rid code msg @ tail @ rest) = Ok rest"
proof -
  let ?n = "int (length msg)"
  have len: "9 + 16 + ?n + int (length tail) < 2 ^ 31"
    using assms(5) by (simp add: write_head_def Let_def wire_codec.len_i32 [OF assms(1)] wire_codec.len_i64 [OF assms(1)])
  then have "i32 ?n = ?n" "i32 (16 + (?n + content)) = 16 + (?n + content)" "i32 body = body"
    using assms(2-4) by (simp_all add: i32_id)
  then show ?thesis
    using check_header [OF assms(1), of "16 + (?n + content)" body
        "put_i64 c rid @ put_i32 c code @ put_i32 c ?n @ bytes_of_string msg @ tail" "message_code t" rest] len assms(2-4)
    by (simp add: write_head_def Let_def is_i32_def wire_codec.len_i32 [OF assms(1)] wire_codec.len_i64 [OF assms(1)] ac_simps)
qed


definition sample_response :: Frame where
  "sample_response = Frame_GetMemoryDataResponse \<lparr>md_request_id = 7, md_status_code = 0, md_ret_msg = ''ok'',
     md_data = Mem_data \<lparr>shuffle_data_block_segments = [\<lparr>seg_block_id = 1, seg_offset = 0, seg_length = 3,
       seg_uncompress_length = 3, seg_crc = 9, seg_task_attempt_id = 0\<rparr>],
       mem_data = Composed (composed_from [[1, 2], [3]] 3)\<rparr>\<rparr>"

definition sample_response_bytes :: bytes where
  "sample_response_bytes = (case frame_write be_codec sample_response of Ok bs \<Rightarrow> bs | _ \<Rightarrow> [])"


end
