(* ===== verification/Urpc_Typed.thy ===== *)
theory Urpc_Typed
  imports Urpc_Stream
begin

text \<open>
  What comes out of the parsers of the binary protocol, whatever bytes go in: every request has its numbers in the range of
  their types, its strings in UTF-8 and one batch for each partition, so that all code behind the parsers may rely on it.
\<close>

section \<open>Codecs with numbers in range\<close>

locale typed_codec = wire_codec +
  assumes range_i32: "is_i32 (take_i32 c bs)"
    and range_i64: "is_i64 (take_i64 c bs)"

interpretation be_typed: typed_codec be_codec
  by unfold_locales (simp_all add: be_codec_def)

section \<open>Results of readers\<close>

text \<open>Read of at most \<open>N\<close> bytes, the result has the property \<open>P\<close>, and no bytes are made up.\<close>

definition yields :: "nat \<Rightarrow> 'a reader \<Rightarrow> ('a \<Rightarrow> bool) \<Rightarrow> bool" where
  "yields N r P \<longleftrightarrow> (\<forall>src x rest. length src \<le> N \<longrightarrow> r src = Ok (x, rest) \<longrightarrow> P x \<and> length rest \<le> length src)"

lemma yields_return: "P x \<Longrightarrow> yields N (rd_return x) P"
  by (simp add: yields_def rd_return_def)

lemma yields_bind:
  assumes "yields N r P" and "\<And>x. P x \<Longrightarrow> yields N (f x) Q"
  shows "yields N (rd_bind r f) Q"
  unfolding yields_def
proof (intro allI impI)
  fix src y rest
  assume len: "length src \<le> N" and "rd_bind r f src = Ok (y, rest)"
  then obtain x mid where mid: "r src = Ok (x, mid)" "f x mid = Ok (y, rest)" by (auto simp: rd_bind_def and_then_eq_Ok)
  then have x: "P x" "length mid \<le> length src" using assms(1) len by (auto simp: yields_def)
  then have "Q y \<and> length rest \<le> length mid" using assms(2) [OF x(1)] mid(2) order_trans [OF x(2) len] unfolding yields_def by blast
  then show "Q y \<and> length rest \<le> length src" using x(2) by simp
qed

lemma yields_times: "yields N r P \<Longrightarrow> yields N (rd_times n r) (\<lambda>xs. length xs = n \<and> list_all P xs)"
proof (induction n)
  case (Suc n)
  show ?case
    unfolding rd_times.simps
    by (rule yields_bind [OF Suc.prems], rule yields_bind [OF Suc.IH [OF Suc.prems]], rule yields_return) simp
qed (simp add: yields_def rd_return_def)

lemma yields_panic: "(\<not> b \<Longrightarrow> yields N r P) \<Longrightarrow> yields N (\<lambda>src. if b then Panic else r src) P"
  by (simp add: yields_def)

lemma yields_u8: "yields N get_u8 (\<lambda>_. True)"
  by (auto simp: yields_def get_u8_def split: list.splits)

lemma yields_anyhow: "yields N r P \<Longrightarrow> yields N (via_anyhow r) P"
proof -
  have "map_err f o1 = Ok y \<longleftrightarrow> o1 = Ok y" for f :: "worker_error \<Rightarrow> worker_error" and o1 and y :: "'a \<times> bytes"
    by (cases o1) simp_all
  then show "yields N r P \<Longrightarrow> yields N (via_anyhow r) P" by (simp add: yields_def via_anyhow_def)
qed

lemma bytes_of_string_of_bytes [simp]: "bytes_of_string (string_of_bytes bs) = bs"
proof -
  have "uint b mod 256 = uint b" for b :: byte using uint_lt2p [of b] by simp
  then show ?thesis by (simp add: bytes_of_string_def string_of_bytes_def comp_def)
qed

lemma length_string_of_bytes [simp]: "length (string_of_bytes bs) = length bs"
  by (simp add: string_of_bytes_def)

lemma foldl_insert_subset:
  "set (foldl (\<lambda>m (k, v). dm_insert k v m) m ps) \<subseteq> set m \<union> set ps \<and>
   (dm_ok m \<longrightarrow> dm_ok (foldl (\<lambda>m (k, v). dm_insert k v m) m ps)) \<and>
   length (foldl (\<lambda>m (k, v). dm_insert k v m) m ps) \<le> length m + length ps"
proof (induction ps arbitrary: m)
  case (Cons p ps)
  have "set (dm_insert (fst p) (snd p) m) \<subseteq> insert p (set m)" by (induction m) auto
  moreover have "length (dm_insert (fst p) (snd p) m) \<le> Suc (length m)" by (induction m) auto
  ultimately show ?case
    using Cons.IH [of "dm_insert (fst p) (snd p) m"] by (fastforce simp: case_prod_unfold dm_simps)
qed simp

context typed_codec
begin

lemma yields_i32: "yields N (get_i32 c) is_i32"
  by (auto simp: yields_def get_i32_def range_i32 split: if_splits)

lemma yields_i64: "yields N (get_i64 c) is_i64"
  by (auto simp: yields_def get_i64_def range_i64 split: if_splits)

lemma yields_bytes:
  assumes "int N < 2 ^ 31"
  shows "yields N (get_bytes c) (\<lambda>r. case r of None \<Rightarrow> True | Some bs \<Rightarrow> bs \<noteq> [] \<and> int (length bs) < 2 ^ 31)"
  using assms
  by (auto simp: yields_def get_bytes_def rd_bind_def rd_return_def skip_def get_i32_def and_then_eq_Ok split: if_splits)

lemma yields_string:
  assumes "int N < 2 ^ 31"
  shows "yields N (get_string c) string_ok"
  using assms
  by (auto simp: yields_def get_string_def rd_bind_def rd_return_def skip_def get_i32_def and_then_eq_Ok Let_def string_ok_def
      split: if_splits)

lemmas yields_reads = yields_bind [OF yields_i32] yields_bind [OF yields_i64] yields_bind [OF yields_bytes] yields_bind [OF yields_string]
  yields_panic yields_return

lemma yields_server: "int N < 2 ^ 31 \<Longrightarrow> yields N (parse_server c) (\<lambda>_. True)"
  unfolding parse_server_def by (intro yields_reads) auto

lemma yields_block: "int N < 2 ^ 31 \<Longrightarrow> yields N (parse_block c) wire_block_ok"
  unfolding parse_block_def
  by (intro yields_reads yields_bind [OF yields_times [OF yields_server]]) (auto simp: wire_block_ok_def split: option.splits)

lemma yields_partition: "int N < 2 ^ 31 \<Longrightarrow> yields N (parse_partition c) batch_ok"
  unfolding parse_partition_def
  by (intro yields_reads yields_bind [OF yields_times [OF yields_block]]) (auto simp: batch_ok_def is_i32_def)

lemma yields_send:
  assumes "int N < 2 ^ 31"
  shows "yields N (parse_to_send_shuffle_data_command c) (\<lambda>r. request_ok (Frame_SendShuffleData r))"
proof -
  have blocks: "dm_ok (foldl (\<lambda>m (k, v). dm_insert k v m) [] ps) \<and> int (length (foldl (\<lambda>m (k, v). dm_insert k v m) [] ps)) < 2 ^ 31 \<and>
      list_all batch_ok (foldl (\<lambda>m (k, v). dm_insert k v m) [] ps)"
    if "is_i32 n" "length ps = nat n \<and> list_all batch_ok ps" for n and ps :: "(int \<times> Block list) list"
    using foldl_insert_subset [of "[]" ps] that by (auto simp: is_i32_def list_all_iff dm_ok_def)
  show ?thesis
    unfolding parse_to_send_shuffle_data_command_def
    by (intro yields_reads yields_bind [OF yields_times [OF yields_partition]] assms) (use blocks in auto)
qed

lemma yields_requests:
  assumes "int N < 2 ^ 31"
  shows "yields N (parse_to_get_localfile_data_command c) (\<lambda>r. request_ok (Frame_GetLocalData r))"
    and "yields N (parse_to_get_localfile_index_command c) (\<lambda>r. request_ok (Frame_GetLocalDataIndex r))"
    and "yields N (parse_to_get_memory_data_command c) (\<lambda>r. request_ok (Frame_GetMemoryData r))"
  unfolding parse_to_get_localfile_data_command_def parse_to_get_localfile_index_command_def parse_to_get_memory_data_command_def
  by ((intro yields_reads assms; simp)+)

lemma yields_parse:
  assumes "int N < 2 ^ 31"
  shows "yields N (parse c) (\<lambda>f. request_ok f \<or> (\<exists>resp. f = Frame_RpcResponse resp))"
proof -
  have long: "yields N (\<lambda>src. if int (length src) < n then Err e else r src) P" if "yields N r P" for n e P and r :: "Frame reader"
    using that by (auto simp: yields_def)
  have fail: "yields N (\<lambda>_. Err e) P" "yields N (\<lambda>_. Panic) P" for e and P :: "Frame \<Rightarrow> bool" by (simp_all add: yields_def)
  have rpc: "yields N (parse_rpc_response c) (\<lambda>_. True)" by (simp add: parse_rpc_response_def) (intro yields_reads assms TrueI)
  note requests = yields_send [OF assms] yields_requests [OF assms]
  show ?thesis
    unfolding parse_def
    apply (intro yields_bind [OF yields_i32] yields_bind [OF yields_u8] long)
    subgoal for n ty k
      by (cases "message_type ty"; cases "the (message_type ty)")
        (auto intro!: fail yields_return yields_bind [OF rpc] requests [THEN yields_anyhow, THEN yields_bind]
          simp del: request_ok.simps)
    done
qed

end



end
