(* ===== verification/Grpc_Service.thy ===== *)
theory Grpc_Service
  imports Write_Path
begin

text \<open>
  The handlers of \<open>DefaultShuffleServer\<close> in \<^verbatim>\<open>grpc/service.rs\<close>.  A handler takes the fields of its request that it
  uses, and gives the new state of the manager and the fields of its response; \<open>Panic\<close> stands for a handler that
  panics, so that no response is sent.  Messages for people, metrics and the times of transport are left out.

  A request is handled in one step, except that the iteration order of a hash map, whether the lock of the spill is
  free, and the clock are arguments.
\<close>

section \<open>Registration\<close>

text \<open>\<open>From<RemoteStorage> for RemoteStorageConfig\<close>.\<close>

definition from_remote_storage :: "string \<Rightarrow> (string \<times> string) list \<Rightarrow> RemoteStorageConfig" where
  "from_remote_storage path confs =
     \<lparr>remote_root = path, remote_configs = foldl (\<lambda>m (k, v). dm_insert k v m) [] confs\<rparr>"

definition grpc_register_shuffle ::
    "('t, 'c, 'f) Env \<Rightarrow> int \<Rightarrow> int \<Rightarrow> string \<Rightarrow> int \<Rightarrow> int \<Rightarrow> (string \<times> (string \<times> string) list) option \<Rightarrow>
     ('t, 'c, 'f) AppManager \<Rightarrow> ('t, 'c, 'f) AppManager \<times> (StatusCode, unit) outcome" where
  "grpc_register_shuffle env now now_millis app shuffle max_concurrency remote_storage m =
     (let opts = \<lparr>data_distribution = LOCAL_ORDER, max_concurrency_per_partition_to_write = max_concurrency,
                  remote_storage_config_option = map_option (\<lambda>(path, confs). from_remote_storage path confs) remote_storage\<rparr>
      in case manager_register env now now_millis app shuffle opts m of
           (m, Ok _) \<Rightarrow> (m, Ok SUCCESS)
         | (m, Err _) \<Rightarrow> (m, Ok INTERNAL_ERROR_CODE)
         | (m, Panic) \<Rightarrow> (m, Panic))"

text \<open>Sending to the queue of purge events fails only when its receiver is gone, which the manager itself holds.\<close>

definition grpc_unregister_shuffle :: "string \<Rightarrow> int \<Rightarrow> ('t, 'c, 'f) AppManager \<Rightarrow> ('t, 'c, 'f) AppManager \<times> (StatusCode, unit) outcome" where
  "grpc_unregister_shuffle app shuffle m = (unregister_shuffle app shuffle m, Ok SUCCESS)"

definition grpc_unregister_shuffle_by_app_id :: "string \<Rightarrow> ('t, 'c, 'f) AppManager \<Rightarrow> ('t, 'c, 'f) AppManager \<times> (StatusCode, unit) outcome" where
  "grpc_unregister_shuffle_by_app_id app m = (unregister_app app m, Ok SUCCESS)"

definition grpc_app_heartbeat :: "int \<Rightarrow> string \<Rightarrow> ('t, 'c, 'f) AppManager \<Rightarrow> ('t, 'c, 'f) AppManager \<times> (StatusCode, unit) outcome" where
  "grpc_app_heartbeat now app m =
     (case get_app app m of
        None \<Rightarrow> (m, Ok NO_REGISTER)
      | Some a \<Rightarrow> on_app app a (\<lambda>a st. (app_heartbeat now a, st, Ok SUCCESS)) m)"

section \<open>Writing\<close>

text \<open>
  \<open>blocks_map.entry(partition_id).or_insert_with(vec).extend(blocks)\<close> for every partition of the request.
\<close>

definition extend_blocks :: "int \<Rightarrow> Block list \<Rightarrow> (int, Block list) dmap \<Rightarrow> (int, Block list) dmap" where
  "extend_blocks p bs m = dm_insert p ((case dm_get m p of None \<Rightarrow> [] | Some old \<Rightarrow> old) @ bs) m"

definition blocks_map :: "(int \<times> Block list) list \<Rightarrow> (int, Block list) dmap" where
  "blocks_map shuffle_data = foldl (\<lambda>m (p, bs). extend_blocks p bs m) [] shuffle_data"

text \<open>The loop over the partitions: after a failed insert the others are skipped.\<close>

fun grpc_insert_loop ::
    "('t, 'c, 'f) Env \<Rightarrow> (int \<Rightarrow> bool) \<Rightarrow> int \<Rightarrow> string \<Rightarrow> int \<Rightarrow> (int \<times> Block list) list \<Rightarrow> bool \<Rightarrow> int \<Rightarrow>
     't App \<Rightarrow> ('t, 'c, 'f) HybridStore \<Rightarrow> 't App \<times> ('t, 'c, 'f) HybridStore \<times> (bool \<times> int) option" where
  "grpc_insert_loop env lock_free now app shuffle [] failed inserted_total_size a st = (a, st, Some (failed, inserted_total_size))"
| "grpc_insert_loop env lock_free now app shuffle ((p, bs) # todo) failed inserted_total_size a st =
     (if failed then grpc_insert_loop env lock_free now app shuffle todo failed inserted_total_size a st
      else
        let uid = \<lparr>app_id = app, shuffle_id = shuffle, partition_id = p\<rparr>;
            (a, st, r) = app_insert env (lock_free p) now (new_writing_ctx uid bs) a st
        in case r of
             Ok n \<Rightarrow> grpc_insert_loop env lock_free now app shuffle todo failed (i64 (inserted_total_size + n)) a st
           | Err _ \<Rightarrow> grpc_insert_loop env lock_free now app shuffle todo True inserted_total_size a st
           | Panic \<Rightarrow> (a, st, None))"

text \<open>The reservation of the ticket becomes used memory as far as it was inserted; what differs is given back.\<close>

definition grpc_settle :: "int \<Rightarrow> int \<Rightarrow> ('t, 'c, 'f) HybridStore \<Rightarrow> ('t, 'c, 'f) HybridStore" where
  "grpc_settle required_len inserted st =
     (let st = move_allocated_to_used_from_hot_store inserted st;
          unused = i64 (required_len - inserted)
      in if unused \<noteq> 0 then release_allocated_from_hot_store unused st else st)"

text \<open>\<open>order\<close> is the iteration order of the map.\<close>

definition grpc_send_shuffle_data ::
    "('t, 'c, 'f) Env \<Rightarrow> ((int, Block list) dmap \<Rightarrow> (int \<times> Block list) list) \<Rightarrow> (int \<Rightarrow> bool) \<Rightarrow> int \<Rightarrow>
     string \<Rightarrow> int \<Rightarrow> int \<Rightarrow> (int \<times> Block list) list \<Rightarrow> ('t, 'c, 'f) AppManager \<Rightarrow>
     ('t, 'c, 'f) AppManager \<times> (StatusCode, unit) outcome" where
  "grpc_send_shuffle_data env order lock_free now app shuffle tid shuffle_data m =
     (case get_app app m of
        None \<Rightarrow> (m, Ok NO_REGISTER)
      | Some a \<Rightarrow>
          on_app app a (\<lambda>a st.
            case app_release_ticket tid a st of
              (a, st, Ok required_len) \<Rightarrow>
                (case grpc_insert_loop env lock_free now app shuffle (order (blocks_map shuffle_data)) False 0 a st of
                   (a, st, Some (failed, inserted)) \<Rightarrow>
                     (a, grpc_settle required_len inserted st, Ok (if failed then INTERNAL_ERROR_CODE else SUCCESS))
                 | (a, st, None) \<Rightarrow> (a, st, Panic))
            | (a, st, Err _) \<Rightarrow> (a, st, Ok NO_BUFFER)
            | (a, st, Panic) \<Rightarrow> (a, st, Panic)) m)"

text \<open>The partition is ignored: the request is checked against partition 1.\<close>

definition grpc_require_buffer ::
    "('t, 'c, 'f) Env \<Rightarrow> int \<Rightarrow> string \<Rightarrow> int \<Rightarrow> int \<Rightarrow> ('t, 'c, 'f) AppManager \<Rightarrow>
     ('t, 'c, 'f) AppManager \<times> (StatusCode \<times> int, unit) outcome" where
  "grpc_require_buffer env now app shuffle require_size m =
     (case get_app app m of
        None \<Rightarrow> (m, Ok (NO_REGISTER, 0))
      | Some a \<Rightarrow>
          (case on_app app a (app_require_buffer (e_treemap env) now
                  \<lparr>q_uid = \<lparr>app_id = app, shuffle_id = shuffle, partition_id = 1\<rparr>, q_size = require_size\<rparr>) m of
             (m, Ok r) \<Rightarrow> (m, Ok (SUCCESS, resp_ticket_id r))
           | (m, Err MEMORY_USAGE_LIMITED_BY_HUGE_PARTITION) \<Rightarrow> (m, Ok (NO_BUFFER_FOR_HUGE_PARTITION, -1))
           | (m, Err _) \<Rightarrow> (m, Ok (NO_BUFFER, -1))
           | (m, Panic) \<Rightarrow> (m, Panic)))"

section \<open>Reading\<close>

definition grpc_get_local_shuffle_index ::
    "int \<Rightarrow> string \<Rightarrow> int \<Rightarrow> int \<Rightarrow> ('t, 'c, 'f) AppManager \<Rightarrow>
     ('t, 'c, 'f) AppManager \<times> (StatusCode \<times> LocalDataIndex, unit) outcome" where
  "grpc_get_local_shuffle_index now app shuffle pid m =
     (let empty = \<lparr>index_data = [], data_file_len = 0\<rparr>
      in case get_app app m of
           None \<Rightarrow> (m, Ok (NO_REGISTER, empty))
         | Some a \<Rightarrow>
             (case on_app app a (app_list_index now \<lparr>app_id = app, shuffle_id = shuffle, partition_id = pid\<rparr>) m of
                (m, Ok idx) \<Rightarrow> (m, Ok (SUCCESS, idx))
              | (m, Err _) \<Rightarrow> (m, Ok (INTERNAL_ERROR_CODE, empty))
              | (m, Panic) \<Rightarrow> (m, Panic)))"

text \<open>\<open>from_local\<close> and \<open>from_memory\<close> give the default for the other kind of data.\<close>

definition from_local :: "ResponseData \<Rightarrow> bytes" where
  "from_local d = (case d of Local_data bs \<Rightarrow> bs | Mem_data _ \<Rightarrow> [])"

definition empty_memory_data :: PartitionedMemoryData where
  "empty_memory_data = \<lparr>shuffle_data_block_segments = [], mem_data = Direct []\<rparr>"

definition from_memory :: "ResponseData \<Rightarrow> PartitionedMemoryData" where
  "from_memory d = (case d of Mem_data p \<Rightarrow> p | Local_data _ \<Rightarrow> empty_memory_data)"

definition grpc_get_local_shuffle_data ::
    "int \<Rightarrow> string \<Rightarrow> int \<Rightarrow> int \<Rightarrow> int \<Rightarrow> int \<Rightarrow> ('t, 'c, 'f) AppManager \<Rightarrow>
     ('t, 'c, 'f) AppManager \<times> (StatusCode \<times> bytes, unit) outcome" where
  "grpc_get_local_shuffle_data now app shuffle pid off len m =
     (case get_app app m of
        None \<Rightarrow> (m, Ok (NO_REGISTER, []))
      | Some a \<Rightarrow>
          (case on_app app a (app_select now [] \<lparr>r_uid = \<lparr>app_id = app, shuffle_id = shuffle, partition_id = pid\<rparr>,
                  r_reading_options = FILE_OFFSET_AND_LEN off len, r_task_ids = None\<rparr>) m of
             (m, Ok d) \<Rightarrow> (m, Ok (SUCCESS, from_local d))
           | (m, Err _) \<Rightarrow> (m, Ok (INTERNAL_ERROR_CODE, []))
           | (m, Panic) \<Rightarrow> (m, Panic)))"

text \<open>A filter that cannot be deserialized is dropped.\<close>

definition task_filter_of :: "'t Treemap \<Rightarrow> bytes \<Rightarrow> task_filter" where
  "task_filter_of tm raw =
     (if raw = [] then None
      else case tm_deserialize tm raw of Ok t \<Rightarrow> Some (tm_contains tm t) | _ \<Rightarrow> None)"

definition grpc_get_memory_shuffle_data ::
    "('t, 'c, 'f) Env \<Rightarrow> (int \<times> batch) list \<Rightarrow> int \<Rightarrow> string \<Rightarrow> int \<Rightarrow> int \<Rightarrow> int \<Rightarrow> int \<Rightarrow> bytes \<Rightarrow>
     ('t, 'c, 'f) AppManager \<Rightarrow> ('t, 'c, 'f) AppManager \<times> (StatusCode \<times> DataSegment list \<times> bytes, unit) outcome" where
  "grpc_get_memory_shuffle_data env it now app shuffle pid last_block read_buffer_size raw m =
     (case get_app app m of
        None \<Rightarrow> (m, Ok (NO_REGISTER, [], []))
      | Some a \<Rightarrow>
          (case on_app app a (app_select now it \<lparr>r_uid = \<lparr>app_id = app, shuffle_id = shuffle, partition_id = pid\<rparr>,
                  r_reading_options = MEMORY_LAST_BLOCK_ID_AND_MAX_SIZE last_block read_buffer_size,
                  r_task_ids = task_filter_of (e_treemap env) raw\<rparr>) m of
             (m, Ok d) \<Rightarrow>
               (m, Ok (SUCCESS, shuffle_data_block_segments (from_memory d), wrapper_freeze (mem_data (from_memory d))))
           | (m, Err _) \<Rightarrow> (m, Ok (INTERNAL_ERROR_CODE, [], []))
           | (m, Panic) \<Rightarrow> (m, Panic)))"

section \<open>Block ids\<close>

definition grpc_report_shuffle_result ::
    "('t, 'c, 'f) Env \<Rightarrow> int \<Rightarrow> string \<Rightarrow> int \<Rightarrow> (int \<times> int list) list \<Rightarrow> ('t, 'c, 'f) AppManager \<Rightarrow>
     ('t, 'c, 'f) AppManager \<times> (StatusCode, unit) outcome" where
  "grpc_report_shuffle_result env now app shuffle partition_to_block_ids m =
     (case get_app app m of
        None \<Rightarrow> (m, Ok NO_REGISTER)
      | Some a \<Rightarrow>
          on_app app a (\<lambda>a st.
            (foldl (\<lambda>a (p, ids). report_block_ids (e_treemap env) now \<lparr>app_id = app, shuffle_id = shuffle, partition_id = p\<rparr> ids a)
               a partition_to_block_ids, st, Ok SUCCESS)) m)"

definition grpc_get_shuffle_result ::
    "('t, 'c, 'f) Env \<Rightarrow> string \<Rightarrow> int \<Rightarrow> int \<Rightarrow> ('t, 'c, 'f) AppManager \<Rightarrow>
     ('t, 'c, 'f) AppManager \<times> (StatusCode \<times> bytes, unit) outcome" where
  "grpc_get_shuffle_result env app shuffle pid m =
     (case get_app app m of
        None \<Rightarrow> (m, Ok (NO_REGISTER, []))
      | Some a \<Rightarrow>
          on_app app a (\<lambda>a st.
            let (a, r) = get_block_ids (e_treemap env) \<lparr>app_id = app, shuffle_id = shuffle, partition_id = pid\<rparr> a
            in (a, st, case r of Ok bs \<Rightarrow> Ok (SUCCESS, bs) | Err _ \<Rightarrow> Ok (INTERNAL_ERROR_CODE, []) | Panic \<Rightarrow> Panic)) m)"

text \<open>The bitmaps of the partitions are added to the result one block at a time.\<close>

fun multi_part_loop ::
    "'t Treemap \<Rightarrow> string \<Rightarrow> int \<Rightarrow> int list \<Rightarrow> 't \<Rightarrow> 't App \<Rightarrow> 't App \<times> 't" where
  "multi_part_loop tm app shuffle [] bitmap_result a = (a, bitmap_result)"
| "multi_part_loop tm app shuffle (p # ps) bitmap_result a =
     (let (a, t) = get_block_ids_bitmap tm \<lparr>app_id = app, shuffle_id = shuffle, partition_id = p\<rparr> a
      in multi_part_loop tm app shuffle ps (fold (tm_add tm) (tm_iter tm t) bitmap_result) a)"

definition grpc_get_shuffle_result_for_multi_part ::
    "('t, 'c, 'f) Env \<Rightarrow> string \<Rightarrow> int \<Rightarrow> int list \<Rightarrow> ('t, 'c, 'f) AppManager \<Rightarrow>
     ('t, 'c, 'f) AppManager \<times> (StatusCode \<times> bytes, unit) outcome" where
  "grpc_get_shuffle_result_for_multi_part env app shuffle partitions m =
     (case get_app app m of
        None \<Rightarrow> (m, Ok (NO_REGISTER, []))
      | Some a \<Rightarrow>
          on_app app a (\<lambda>a st.
            let (a, t) = multi_part_loop (e_treemap env) app shuffle partitions (tm_default (e_treemap env)) a
            in (a, st, case tm_serialize (e_treemap env) t of Ok bs \<Rightarrow> Ok (SUCCESS, bs) | _ \<Rightarrow> Panic)) m)"

section \<open>Not supported\<close>

definition grpc_commit_shuffle_task :: "('t, 'c, 'f) AppManager \<Rightarrow> ('t, 'c, 'f) AppManager \<times> (StatusCode \<times> int, unit) outcome" where
  "grpc_commit_shuffle_task m = (m, Ok (INTERNAL_ERROR_CODE, 0))"

definition grpc_finish_shuffle :: "('t, 'c, 'f) AppManager \<Rightarrow> ('t, 'c, 'f) AppManager \<times> (StatusCode, unit) outcome" where
  "grpc_finish_shuffle m = (m, Ok SUCCESS)"

section \<open>The blocks of a request\<close>

definition batches :: "int \<Rightarrow> (int \<times> Block list) list \<Rightarrow> Block list" where
  "batches p sd = concat (map snd (filter (\<lambda>e. fst e = p) sd))"

definition sent :: "(int \<times> Block list) list \<Rightarrow> int" where
  "sent sd = weight lens sd"

definition uid_in :: "string \<Rightarrow> int \<Rightarrow> PartitionedUId \<Rightarrow> bool" where
  "uid_in app shuffle uid \<longleftrightarrow> app_id uid = app \<and> shuffle_id uid = shuffle"

lemma batches_simps [simp]:
  "batches p [] = []" "batches p ((q, bs) # sd) = (if q = p then bs else []) @ batches p sd"
  "batches p (xs @ ys) = batches p xs @ batches p ys"
  by (simp_all add: batches_def)

lemma sent_simps [simp]: "sent [] = 0" "sent ((q, bs) # sd) = lens bs + sent sd" "sent (xs @ ys) = sent xs + sent ys"
  by (simp_all add: sent_def)

lemma batches_dm: "dm_ok m \<Longrightarrow> batches p m = (case dm_get m p of None \<Rightarrow> [] | Some bs \<Rightarrow> bs)"
proof (induction m)
  case (Cons e m)
  have "dm_get m p = None" if "p = fst e" using Cons.prems that by (auto simp: dm_ok_def map_of_eq_None_iff)
  with Cons show ?case by (cases e) (auto simp: dm_ok_def)
qed simp

lemma extend_blocks_spec:
  assumes "dm_ok m"
  shows "dm_ok (extend_blocks p bs m) \<and> batches q (extend_blocks p bs m) = batches q m @ (if p = q then bs else []) \<and>
    sent (extend_blocks p bs m) = sent m + lens bs"
proof -
  have "sent (extend_blocks p bs m) = sent m + lens bs"
    by (simp add: sent_def extend_blocks_def dm.weight_put [OF assms] split: option.split)
  then show ?thesis
    using assms by (auto simp: extend_blocks_def batches_dm dm_simps split: option.split)
qed

lemma blocks_map_spec:
  "dm_ok (blocks_map sd) \<and> batches q (blocks_map sd) = batches q sd \<and> sent (blocks_map sd) = sent sd"
proof (induction sd rule: rev_induct)
  case (snoc e sd)
  then show ?case
    using extend_blocks_spec [of "blocks_map sd" "fst e" "snd e" q]
    by (cases e) (auto simp: blocks_map_def)
qed (simp add: blocks_map_def dm_ok_def)

lemma length_blocks_map: "length (blocks_map sd) \<le> length sd"
proof (induction sd rule: rev_induct)
  case (snoc e sd)
  have "length (dm_insert p b m) \<le> Suc (length m)" for p b and m :: "(int, Block list) dmap"
    by (induction m) auto
  with snoc show ?case by (cases e) (auto simp: blocks_map_def extend_blocks_def intro: order_trans)
qed (simp add: blocks_map_def)

lemma batches_mset: "mset xs = mset ys \<Longrightarrow> mset (batches p xs) = mset (batches p ys) \<and> sent xs = sent ys"
proof -
  have eq: "mset (batches p zs) = (\<Sum>e \<in># filter_mset (\<lambda>e. fst e = p) (mset zs). mset (snd e)) \<and>
      sent zs = (\<Sum>e \<in># mset zs. lens (snd e))" for zs
    by (induction zs) (auto simp: batches_def)
  assume "mset xs = mset ys"
  then show ?thesis by (simp add: eq)
qed

section \<open>The loop of inserts\<close>

lemma new_writing_ctx_honest:
  assumes "list_all (\<lambda>b. 0 \<le> length_of b) bs" and "lens bs < 2 ^ 31"
  shows "honest (new_writing_ctx uid bs)" and "w_data_size (new_writing_ctx uid bs) = lens bs"
  using assms blocks_size_small [of bs] by (auto simp: honest_def new_writing_ctx_def small_blocks_def lens_def)

lemma app_insert_store:
  "fst (snd (app_insert env lock_free now ctx a st)) = fst (hybrid_insert lock_free ctx st) \<and>
   snd (snd (app_insert env lock_free now ctx a st)) = and_then (snd (hybrid_insert lock_free ctx st)) (\<lambda>_. Ok (i32 (w_data_size ctx)))"
  by (simp add: app_insert_def Let_def case_prod_unfold)

lemma grpc_insert_loop_keeps:
  assumes "hot_inv (2 * length todo + k) (hot_store st)" and "2 * length todo + k < 2 ^ 63"
    and "list_all (\<lambda>(p, bs). list_all (\<lambda>b. 0 \<le> length_of b) bs) todo"
    and "sent todo < 2 ^ 31" and "0 \<le> n" and "n + sent todo < 2 ^ 63"
    and "\<And>uid. held uid (hot_store st) + sent todo < 2 ^ 63"
  shows "\<exists>a' st'. grpc_insert_loop env lock_free now app shuffle todo False n a st = (a', st', Some (False, n + sent todo)) \<and>
    hot_inv k (hot_store st') \<and> (hot_store st')\<lparr>state := []\<rparr> = (hot_store st)\<lparr>state := []\<rparr> \<and>
    (\<forall>uid. hot_blocks (hot_store st') uid = hot_blocks (hot_store st) uid +
       mset (if uid_in app shuffle uid then batches (partition_id uid) todo else []))"
  using assms
proof (induction todo arbitrary: n a st)
  case (Cons e todo)
  obtain p bs where e: "e = (p, bs)" by (cases e)
  let ?uid = "\<lparr>app_id = app, shuffle_id = shuffle, partition_id = p\<rparr>"
  let ?ctx = "new_writing_ctx ?uid bs"
  have nn: "list_all (\<lambda>b. 0 \<le> length_of b) bs" using Cons.prems(3) e by auto
  have rest: "0 \<le> sent todo" "0 \<le> lens bs"
    using Cons.prems(3) nn by (auto simp: sent_def list_all_iff intro!: weight_nonneg lens_nonneg)
  have small: "lens bs < 2 ^ 31" using Cons.prems(4) rest by (simp add: e)
  note ctx = new_writing_ctx_honest [OF nn small, of ?uid]
  have uid: "w_uid ?ctx = ?uid" "w_data_blocks ?ctx = bs" by (simp_all add: new_writing_ctx_def)
  have inv: "hot_inv ((2 * length todo + k) + 2) (hot_store st)" "2 * length todo + k + 2 < 2 ^ 63"
    using Cons.prems(1,2) by (simp_all add: algebra_simps)
  have held: "held (w_uid ?ctx) (hot_store st) + w_data_size ?ctx < 2 ^ 63"
    using Cons.prems(7) [of ?uid] rest ctx(2) uid by (simp add: e)
  note ins = hybrid_insert_keeps [OF inv(1) ctx(1) held inv(2), of "lock_free p", unfolded uid ctx(2)]
  obtain a1 st1 where st1: "app_insert env (lock_free p) now ?ctx a st = (a1, st1, Ok (lens bs))" "st1 = fst (hybrid_insert (lock_free p) ?ctx st)"
    using app_insert_store [of env "lock_free p" now ?ctx a st] ins small rest ctx(2)
    by (cases "app_insert env (lock_free p) now ?ctx a st") (auto simp: i32_id)
  have i: "i64 (n + lens bs) = n + lens bs" using Cons.prems rest by (intro i64_id) (auto simp: e)
  have "\<exists>a' st'. grpc_insert_loop env lock_free now app shuffle todo False (n + lens bs) a1 st1 = (a', st', Some (False, n + lens bs + sent todo)) \<and>
    hot_inv k (hot_store st') \<and> (hot_store st')\<lparr>state := []\<rparr> = (hot_store st1)\<lparr>state := []\<rparr> \<and>
    (\<forall>uid. hot_blocks (hot_store st') uid = hot_blocks (hot_store st1) uid +
       mset (if uid_in app shuffle uid then batches (partition_id uid) todo else []))"
  proof (rule Cons.IH)
    show "held uid (hot_store st1) + sent todo < 2 ^ 63" for uid
      using ins Cons.prems(7) [of uid] rest st1(2) by (auto simp: e)
  qed (use ins Cons.prems rest st1(2) e in auto)
  then obtain a' st' where rec: "grpc_insert_loop env lock_free now app shuffle todo False (n + lens bs) a1 st1 = (a', st', Some (False, n + lens bs + sent todo))"
      "hot_inv k (hot_store st')" "(hot_store st')\<lparr>state := []\<rparr> = (hot_store st1)\<lparr>state := []\<rparr>"
      "\<And>uid. hot_blocks (hot_store st') uid = hot_blocks (hot_store st1) uid +
         mset (if uid_in app shuffle uid then batches (partition_id uid) todo else [])" by blast
  have "grpc_insert_loop env lock_free now app shuffle (e # todo) False n a st = (a', st', Some (False, n + sent (e # todo)))"
    using rec(1) st1(1) i by (simp add: e add.assoc)
  moreover have "uid = ?uid \<longleftrightarrow> uid_in app shuffle uid \<and> partition_id uid = p" for uid
    by (auto simp: uid_in_def)
  ultimately show ?case
    using rec(2-4) ins st1(2) by (auto simp: e)
qed simp

section \<open>A write settles its reservation\<close>

lemma grpc_settle_hot:
  "hot_store (grpc_settle n k st) = (hot_store st)\<lparr>budget :=
     (if i64 (n - k) \<noteq> 0 then dec_allocated (i64 (n - k)) (move_allocated_to_used k (budget (hot_store st)))
      else move_allocated_to_used k (budget (hot_store st)))\<rparr>"
  by (simp add: grpc_settle_def Let_def release_allocated_from_hot_store_def move_allocated_to_used_from_hot_store_def
      memory_dec_allocated_def memory_move_allocated_to_used_def)

lemma settle_budget:
  assumes "budget_inv b" and "0 \<le> sz" and "sz \<le> n" and "n \<le> allocated b"
  shows "(if i64 (n - sz) \<noteq> 0 then dec_allocated (i64 (n - sz)) (move_allocated_to_used sz b)
      else move_allocated_to_used sz b) = b\<lparr>allocated := allocated b - n, used := used b + sz\<rparr>"
proof -
  have mv: "move_allocated_to_used sz b = b\<lparr>allocated := allocated b - sz, used := used b + sz\<rparr>"
    using assms by (simp add: move_allocated_eq)
  have "n < 2 ^ 63" using assms(1,4) by (auto simp: budget_inv_def)
  then have i: "i64 (n - sz) = n - sz" "i64 (allocated b - n) = allocated b - n"
    using assms by (auto simp: budget_inv_def intro!: i64_id)
  then show ?thesis using assms(3,4) by (auto simp: mv dec_allocated_def)
qed

text \<open>
  C8. A write over gRPC settles its reservation exactly and keeps every block.  With a valid ticket that covers the data,
  the request succeeds, the ticket is gone, the whole reservation is taken off the reserved memory
  and the bytes sent are added to the used memory, and each partition has its old blocks and exactly the blocks sent for it,
  in whatever batches they came and whatever was put in flight meanwhile.
\<close>

theorem grpc_send_settles:
  fixes env :: "('t, 'c, 'f) Env" and m :: "('t, 'c, 'f) AppManager" and order lock_free now app shuffle tid sd
  defines "hot \<equiv> hot_store (m_store m)"
    and "res \<equiv> grpc_send_shuffle_data env order lock_free now app shuffle tid sd m"
  defines "hot' \<equiv> hot_store (m_store (fst res))"
  assumes "get_app app m = Some a" and "hot_inv (2 * length sd) hot" and "2 * length sd < 2 ^ 63"
    and "budget_inv (budget hot)" and "ticket_delete tid (ticket_manager hot) = (tm, Ok n)"
    and "mset (order (blocks_map sd)) = mset (blocks_map sd)"
    and "list_all (\<lambda>(p, bs). list_all (\<lambda>b. 0 \<le> length_of b) bs) sd" and "sent sd < 2 ^ 31"
    and "\<forall>uid. held uid hot + sent sd < 2 ^ 63" and "sent sd \<le> n" and "n \<le> allocated (budget hot)"
  shows "snd res = Ok SUCCESS \<and> ticket_manager hot' = tm \<and>
    budget hot' = (budget hot)\<lparr>allocated := allocated (budget hot) - n, used := used (budget hot) + sent sd\<rparr> \<and>
    (\<forall>uid. hot_blocks hot' uid = hot_blocks hot uid +
       mset (if uid_in app shuffle uid then batches (partition_id uid) sd else []))"
proof -
  let ?todo = "order (blocks_map sd)" and ?st = "(m_store m)\<lparr>hot_store := hot\<lparr>ticket_manager := tm\<rparr>\<rparr>"
  have todo: "sent ?todo = sent sd" "mset (batches p ?todo) = mset (batches p sd)" for p
    using batches_mset [OF assms(9)] blocks_map_spec [of sd] by (metis, metis)
  have len: "length ?todo \<le> length sd"
    using length_blocks_map [of sd] assms(9) by (metis size_mset)
  have "list_all (\<lambda>b. 0 \<le> length_of b) bs" if "(p, bs) \<in> set ?todo" for p bs
  proof -
    have "(p, bs) \<in> set (blocks_map sd)" using that assms(9) by (metis set_mset_mset)
    then have "bs = batches p sd"
      using blocks_map_spec [of sd p] batches_dm [of "blocks_map sd" p] by (simp add: dm_ok_def)
    then show ?thesis using assms(10) by (fastforce simp: batches_def list_all_iff)
  qed
  then have nn: "list_all (\<lambda>(p, bs). list_all (\<lambda>b. 0 \<le> length_of b) bs) ?todo" by (auto simp: list_all_iff)
  have inv: "hot_inv (2 * length ?todo + (2 * length sd - 2 * length ?todo)) (hot_store ?st)"
    using assms(5) len by (simp add: hot_inv_def)
  obtain a' st' where loop: "grpc_insert_loop env lock_free now app shuffle ?todo False 0 a ?st = (a', st', Some (False, sent sd))"
      "(hot_store st')\<lparr>state := []\<rparr> = hot\<lparr>ticket_manager := tm, state := []\<rparr>"
      "\<And>uid. hot_blocks (hot_store st') uid = hot_blocks hot uid + mset (if uid_in app shuffle uid then batches (partition_id uid) ?todo else [])"
    using grpc_insert_loop_keeps [where n = 0 and env = env and lock_free = lock_free and now = now and app = app and shuffle = shuffle
        and a = a, OF inv _ nn] assms(6,11,12) len
    by (auto simp: todo(1) hot_blocks_def held_def)
  have nonneg: "0 \<le> sent sd"
    using assms(10) by (fastforce simp: sent_def list_all_iff intro: weight_nonneg lens_nonneg)
  note settle = settle_budget [OF assms(7) nonneg assms(13,14)]
  define st'' where "st'' = grpc_settle n (sent sd) st'"
  have fields: "budget (hot_store st') = budget hot" "ticket_manager (hot_store st') = tm"
    using arg_cong [OF loop(2), of budget] arg_cong [OF loop(2), of ticket_manager] by simp_all
  have res: "res = (set_apps (dm_insert app a' (apps (m\<lparr>m_store := st''\<rparr>))) (m\<lparr>m_store := st''\<rparr>), Ok SUCCESS)"
    using assms(4,8) loop(1)
    by (simp add: res_def grpc_send_shuffle_data_def on_app_def app_release_ticket_def hybrid_release_ticket_def
        memory_release_ticket_def st''_def Let_def flip: hot_def)
  then have "hot' = hot_store st''" by (simp add: hot'_def)
  moreover have "budget (hot_store st'') = (budget hot)\<lparr>allocated := allocated (budget hot) - n, used := used (budget hot) + sent sd\<rparr>"
    using settle fields(1) by (simp add: st''_def grpc_settle_hot split: if_splits)
  moreover have "ticket_manager (hot_store st'') = tm" "hot_blocks (hot_store st'') = hot_blocks (hot_store st')"
    using fields(2) by (auto simp: st''_def grpc_settle_hot hot_blocks_def)
  ultimately show ?thesis using res loop(3) todo(2) by simp
qed

text \<open>The application \<open>a\<close> has reserved ten bytes with the ticket 1.\<close>

definition writing_manager :: "(int list, unit, mem_hdfs) AppManager" where
  "writing_manager = set_apps [(''a'', sample_app)] (new_app_manager sample_config (sample_hybrid\<lparr>hot_store :=
     fst (memory_require_buffer 0 \<lparr>q_uid = part ''a'' 1, q_size = 10\<rparr> sample_hot)\<rparr>))"

definition sample_sending :: "(int \<times> Block list) list" where
  "sample_sending = [(0, [sample_block 1 3]), (1, [sample_block 2 2]), (0, [sample_block 3 4])]"

theorem grpc_send_settles_witness:
  "let (m', r) = grpc_send_shuffle_data sample_env (\<lambda>x. x) (\<lambda>_. True) 5 ''a'' 0 1 sample_sending writing_manager;
       hot' = hot_store (m_store m')
   in r = Ok SUCCESS \<and> used (budget hot') = 9 \<and> allocated (budget hot') = 0 \<and>
      hot_blocks hot' (part ''a'' 0) = {#sample_block 1 3, sample_block 3 4#}"
proof -
  have hot: "hot_store (m_store writing_manager) = fst (memory_require_buffer 0 \<lparr>q_uid = part ''a'' 1, q_size = 10\<rparr> sample_hot)"
      "get_app ''a'' writing_manager = Some sample_app"
    by (simp_all add: writing_manager_def get_app_def new_app_manager_def with_app_manager_def sample_hybrid_def)
  let ?hot = "fst (memory_require_buffer 0 \<lparr>q_uid = part ''a'' 1, q_size = 10\<rparr> sample_hot)"
  have ev: "state ?hot = []" "budget_inv (budget ?hot)" "snd (ticket_delete 1 (ticket_manager ?hot)) = Ok 10" "used (budget ?hot) = 0"
      "allocated (budget ?hot) = 10" "sent sample_sending = 9" "length sample_sending = 3"
      "list_all (\<lambda>(p, bs). list_all (\<lambda>b. 0 \<le> length_of b) bs) sample_sending"
      "batches 0 sample_sending = [sample_block 1 3, sample_block 3 4]" "uid_in ''a'' 0 (part ''a'' 0)"
    by code_simp+
  obtain tm where tm: "ticket_delete 1 (ticket_manager ?hot) = (tm, Ok 10)" using ev(3) by (metis prod.collapse)
  have inv: "hot_inv (2 * length sample_sending) ?hot" by (simp add: hot_inv_def ev(1) dm_ok_def)
  show ?thesis
    using grpc_send_settles [of "''a''" writing_manager sample_app sample_sending 1 tm 10 "\<lambda>x. x" sample_env "\<lambda>_. True" 5 0]
    unfolding hot using ev tm inv
    by (simp add: case_prod_unfold Let_def held_def hot_blocks_def part_def)
qed

section \<open>Block ids of several partitions\<close>

text \<open>The blocks known for a partition of an application.\<close>

definition known_blocks :: "'t Treemap \<Rightarrow> string \<Rightarrow> int \<Rightarrow> 't App \<Rightarrow> int \<Rightarrow> int \<Rightarrow> bool" where
  "known_blocks tm app shuffle a p j \<longleftrightarrow>
     tm_contains tm (blocks_bitmap (meta_of tm \<lparr>app_id = app, shuffle_id = shuffle, partition_id = p\<rparr> a)) j"

lemma get_block_ids_bitmap_meta:
  "snd (get_block_ids_bitmap tm uid a) = blocks_bitmap (meta_of tm uid a) \<and> meta_of tm v (fst (get_block_ids_bitmap tm uid a)) = meta_of tm v a"
  by (rule get_partition_metaE [of tm uid a]; simp add: get_block_ids_bitmap_def)

context treemap
begin

lemma multi_part_loop_contains:
  "tm_contains tm (snd (multi_part_loop tm app shuffle ps t a)) j \<longleftrightarrow>
     tm_contains tm t j \<or> (\<exists>p \<in> set ps. known_blocks tm app shuffle a p j)"
proof (induction ps arbitrary: t a)
  case (Cons p ps)
  let ?uid = "\<lparr>app_id = app, shuffle_id = shuffle, partition_id = p\<rparr>"
  have "known_blocks tm app shuffle (fst (get_block_ids_bitmap tm ?uid a)) q i \<longleftrightarrow> known_blocks tm app shuffle a q i" for q i
    using get_block_ids_bitmap_meta [of tm ?uid a] by (simp add: known_blocks_def)
  with Cons show ?case
    using get_block_ids_bitmap_meta [of tm ?uid a]
    by (auto simp: case_prod_unfold Let_def fold_union_contains iter_contains known_blocks_def)
qed simp

lemma report_contains:
  "known_blocks tm app shuffle (report_block_ids tm now \<lparr>app_id = app, shuffle_id = shuffle, partition_id = p\<rparr> ids a) q j \<longleftrightarrow>
     known_blocks tm app shuffle a q j \<or> q = p \<and> j \<in> u64 ` set ids"
proof -
  let ?uid = "\<lparr>app_id = app, shuffle_id = shuffle, partition_id = p\<rparr>"
  obtain b where b: "get_partition_meta tm ?uid (app_heartbeat now a) = (b, meta_of tm ?uid (app_heartbeat now a))"
      "\<And>v. meta_of tm v b = meta_of tm v (app_heartbeat now a)"
    by (rule get_partition_metaE [of tm ?uid "app_heartbeat now a"]; blast)
  have hb: "meta_of tm w (app_heartbeat now a) = meta_of tm w a" for w
    by (simp add: meta_of_def app_heartbeat_def)
  show ?thesis
    by (auto simp: known_blocks_def report_block_ids_def b hb meta_of_put meta_report_block_ids_def fold_add_contains meta_key_def)
qed

lemma reports_contain:
  "known_blocks tm app shuffle
     (foldl (\<lambda>a (p, ids). report_block_ids tm now \<lparr>app_id = app, shuffle_id = shuffle, partition_id = p\<rparr> ids a) a reports) q j \<longleftrightarrow>
     known_blocks tm app shuffle a q j \<or> (\<exists>ids. (q, ids) \<in> set reports \<and> j \<in> u64 ` set ids)"
  by (induction reports arbitrary: a) (auto simp: report_contains)

end

text \<open>
  C28. A query for several partitions returns exactly the union of what is known for them: after a report, these are the blocks known before and
  the blocks reported for one of the partitions asked for, each as an unsigned number.
\<close>

theorem grpc_reported_blocks_union:
  fixes env :: "('t, 'c, 'f) Env"
  assumes "treemap (e_treemap env)" and "get_app app m = Some a"
    and "m' = fst (grpc_report_shuffle_result env now app shuffle reports m)"
  shows "\<exists>t. snd (grpc_get_shuffle_result_for_multi_part env app shuffle ps m') =
      (case tm_serialize (e_treemap env) t of Ok bs \<Rightarrow> Ok (SUCCESS, bs) | _ \<Rightarrow> Panic) \<and>
    (\<forall>j. tm_contains (e_treemap env) t j \<longleftrightarrow>
       (\<exists>p \<in> set ps. known_blocks (e_treemap env) app shuffle a p j \<or> (\<exists>ids. (p, ids) \<in> set reports \<and> j \<in> u64 ` set ids)))"
proof -
  let ?tm = "e_treemap env"
  define a1 where "a1 = foldl (\<lambda>a (p, ids). report_block_ids ?tm now \<lparr>app_id = app, shuffle_id = shuffle, partition_id = p\<rparr> ids a) a reports"
  have "get_app app m' = Some a1"
    using assms(2,3) by (simp add: grpc_report_shuffle_result_def on_app_def get_app_def a1_def dm_simps)
  then have "snd (grpc_get_shuffle_result_for_multi_part env app shuffle ps m') =
      (case tm_serialize ?tm (snd (multi_part_loop ?tm app shuffle ps (tm_default ?tm) a1)) of Ok bs \<Rightarrow> Ok (SUCCESS, bs) | _ \<Rightarrow> Panic)"
    by (simp add: grpc_get_shuffle_result_for_multi_part_def on_app_def case_prod_unfold Let_def)
  moreover have "tm_contains ?tm (snd (multi_part_loop ?tm app shuffle ps (tm_default ?tm) a1)) j \<longleftrightarrow>
      (\<exists>p \<in> set ps. known_blocks ?tm app shuffle a p j \<or> (\<exists>ids. (p, ids) \<in> set reports \<and> j \<in> u64 ` set ids))" for j
    by (simp add: treemap.multi_part_loop_contains [OF assms(1)] treemap.default_contains [OF assms(1)]
        treemap.reports_contain [OF assms(1)] a1_def)
  ultimately show ?thesis by blast
qed

theorem grpc_reported_blocks_union_witness:
  "\<exists>t. snd (grpc_get_shuffle_result_for_multi_part sample_env ''a'' 0 [1, 2]
      (fst (grpc_report_shuffle_result sample_env 7 ''a'' 0 [(1, [3]), (2, [-1]), (4, [5])] sample_manager))) =
      (case tm_serialize list_treemap t of Ok bs \<Rightarrow> Ok (SUCCESS, bs) | _ \<Rightarrow> Panic) \<and>
    tm_contains list_treemap t 3 \<and> \<not> tm_contains list_treemap t 5"
proof -
  have tm: "e_treemap sample_env = list_treemap" by (simp add: sample_env_def)
  have "get_app ''a'' sample_manager = Some sample_app" by (simp add: sample_manager_def get_app_def)
  moreover have "\<not> known_blocks list_treemap ''a'' 0 sample_app p j" for p j
    by (simp add: known_blocks_def meta_of_def sample_app_def new_meta_def list_treemap_def)
  ultimately show ?thesis
    using grpc_reported_blocks_union [OF list_tm.treemap_axioms [folded tm], of "''a''" sample_manager sample_app _ 7 0
        "[(1, [3]), (2, [-1]), (4, [5])]" "[1, 2]"]
    unfolding tm by (auto simp: u64_def)
qed

end
