(* ===== verification/Urpc_Command.thy ===== *)
theory Urpc_Command
  imports Grpc_Service Urpc_Stream
begin

text \<open>
  The commands of \<^verbatim>\<open>urpc/command.rs\<close> and the loop of a connection in \<^verbatim>\<open>urpc/server.rs\<close>.

  The texts of errors in the responses are those of \<open>Debug\<close>, an argument (\<open>dbg\<close>).  A write to the socket does not
  fail.  The choices that the code leaves open, and what the other connections do to the shared state meanwhile, come with
  the \<open>Turn\<close> in which a command runs.
\<close>

section \<open>Commands\<close>

datatype Command =
    Send SendDataRequestCommand
  | GetMem GetMemoryDataRequestCommand
  | GetLocalIndex GetLocalDataIndexRequestCommand
  | GetLocal GetLocalDataRequestCommand

definition from_frame :: "Frame \<Rightarrow> (Command, anyhow) outcome" where
  "from_frame frame = (case frame of
     Frame_SendShuffleData req \<Rightarrow> Ok (Send req)
   | Frame_GetMemoryData req \<Rightarrow> Ok (GetMem req)
   | Frame_GetLocalDataIndex req \<Rightarrow> Ok (GetLocalIndex req)
   | Frame_GetLocalData req \<Rightarrow> Ok (GetLocal req)
   | _ \<Rightarrow> Panic)"

text \<open>The formatting of errors and of quoted strings.\<close>

record formatter =
  dbg_error :: "worker_error \<Rightarrow> string"
  dbg_string :: "string \<Rightarrow> string"

text \<open>
  The clock, the iteration order of a map of blocks, whether the lock of the spill is free for a partition, the iteration
  order of the batches in flight, what the other connections did before, and whether the signal to stop wins the race
  against the next frame.
\<close>

record ('t, 'c, 'f) Turn =
  t_now :: int
  t_order :: "(int, Block list) dmap \<Rightarrow> (int \<times> Block list) list"
  t_lock_free :: "int \<Rightarrow> bool"
  t_flight :: "(int \<times> batch) list"
  t_others :: "('t, 'c, 'f) AppManager \<Rightarrow> ('t, 'c, 'f) AppManager"
  t_shutdown :: bool

definition no_such_app :: string where
  "no_such_app = ''No such app in server side''"

definition empty_index :: LocalDataIndex where
  "empty_index = \<lparr>index_data = [], data_file_len = 0\<rparr>"

definition write_response :: "codec \<Rightarrow> RpcResponseCommand \<Rightarrow> Connection \<Rightarrow> Connection \<times> (unit, anyhow) outcome" where
  "write_response c command conn = write_frame c (Frame_RpcResponse command) conn"

text \<open>Reading from memory: the bitmap of the request is not passed on.\<close>

definition get_memory_data_apply ::
    "formatter \<Rightarrow> codec \<Rightarrow> ('t, 'c, 'f) Turn \<Rightarrow> GetMemoryDataRequestCommand \<Rightarrow> ('t, 'c, 'f) AppManager \<Rightarrow> Connection \<Rightarrow>
     ('t, 'c, 'f) AppManager \<times> Connection \<times> (unit, anyhow) outcome" where
  "get_memory_data_apply dbg c turn req m conn =
     (case get_app (gm_app_id req) m of
        None \<Rightarrow> (m, write_response c \<lparr>rr_request_id = gm_request_id req, rr_status_code = status_code NO_REGISTER,
                   rr_ret_msg = no_such_app\<rparr> conn)
      | Some a \<Rightarrow>
          let uid = \<lparr>app_id = gm_app_id req, shuffle_id = gm_shuffle_id req, partition_id = gm_partition_id req\<rparr>;
              (m, r) = on_app (gm_app_id req) a (app_select (t_now turn) (t_flight turn) \<lparr>r_uid = uid,
                r_reading_options = MEMORY_LAST_BLOCK_ID_AND_MAX_SIZE (gm_last_block_id req) (gm_read_buffer_size req),
                r_task_ids = None\<rparr>) m;
              respond = (\<lambda>code msg d. write_frame c (Frame_GetMemoryDataResponse \<lparr>md_request_id = gm_request_id req,
                md_status_code = status_code code, md_ret_msg = msg, md_data = d\<rparr>) conn)
          in case r of
               Err e \<Rightarrow> (m, respond INTERNAL_ERROR_CODE (''Errors on getting memory data. err: '' @ dbg_error dbg e) (Mem_data empty_memory_data))
             | Ok res \<Rightarrow> (m, respond SUCCESS '''' res)
             | Panic \<Rightarrow> (m, conn, Panic))"

definition get_local_data_apply ::
    "formatter \<Rightarrow> codec \<Rightarrow> ('t, 'c, 'f) Turn \<Rightarrow> GetLocalDataRequestCommand \<Rightarrow> ('t, 'c, 'f) AppManager \<Rightarrow> Connection \<Rightarrow>
     ('t, 'c, 'f) AppManager \<times> Connection \<times> (unit, anyhow) outcome" where
  "get_local_data_apply dbg c turn req m conn =
     (let respond = (\<lambda>code msg bs. write_frame c (Frame_GetLocalDataResponse \<lparr>ld_request_id = gd_request_id req,
            ld_status_code = status_code code, ld_ret_msg = msg, ld_data = bs\<rparr>) conn)
      in case get_app (gd_app_id req) m of
           None \<Rightarrow> (m, respond NO_REGISTER no_such_app [])
         | Some a \<Rightarrow>
             let uid = \<lparr>app_id = gd_app_id req, shuffle_id = gd_shuffle_id req, partition_id = gd_partition_id req\<rparr>;
                 (m, r) = on_app (gd_app_id req) a (app_select (t_now turn) (t_flight turn) \<lparr>r_uid = uid,
                   r_reading_options = FILE_OFFSET_AND_LEN (gd_offset req) (gd_length req), r_task_ids = None\<rparr>) m
             in case r of
                  Err e \<Rightarrow> (m, respond INTERNAL_ERROR_CODE (''Errors on getting file data. err: '' @ dbg_error dbg e) [])
                | Ok (Local_data bs) \<Rightarrow> (m, respond SUCCESS '''' bs)
                | Ok _ \<Rightarrow> (m, respond INTERNAL_ERROR_CODE ''Incorrect local data type.'' [])
                | Panic \<Rightarrow> (m, conn, Panic))"

definition get_local_index_apply ::
    "formatter \<Rightarrow> codec \<Rightarrow> ('t, 'c, 'f) Turn \<Rightarrow> GetLocalDataIndexRequestCommand \<Rightarrow> ('t, 'c, 'f) AppManager \<Rightarrow> Connection \<Rightarrow>
     ('t, 'c, 'f) AppManager \<times> Connection \<times> (unit, anyhow) outcome" where
  "get_local_index_apply dbg c turn req m conn =
     (let respond = (\<lambda>code msg idx. write_frame c (Frame_GetLocalDataIndexResponse \<lparr>li_request_id = gi_request_id req,
            li_status_code = status_code code, li_ret_msg = msg, li_data_index = idx\<rparr>) conn)
      in case get_app (gi_app_id req) m of
           None \<Rightarrow> (m, respond NO_REGISTER no_such_app empty_index)
         | Some a \<Rightarrow>
             let uid = \<lparr>app_id = gi_app_id req, shuffle_id = gi_shuffle_id req, partition_id = gi_partition_id req\<rparr>;
                 (m, r) = on_app (gi_app_id req) a (app_list_index (t_now turn) uid) m
             in case r of
                  Err e \<Rightarrow> (m, respond INTERNAL_ERROR_CODE (''Errors on listing local index. err: '' @ dbg_error dbg e) empty_index)
                | Ok idx \<Rightarrow> (m, respond SUCCESS '''' idx)
                | Panic \<Rightarrow> (m, conn, Panic))"

text \<open>The loop over the partitions goes on after a failed insert; the message of the last failure is kept.\<close>

fun urpc_insert_loop ::
    "formatter \<Rightarrow> ('t, 'c, 'f) Env \<Rightarrow> (int \<Rightarrow> bool) \<Rightarrow> int \<Rightarrow> string \<Rightarrow> int \<Rightarrow> (int \<times> Block list) list \<Rightarrow> string option \<Rightarrow> int \<Rightarrow>
     't App \<Rightarrow> ('t, 'c, 'f) HybridStore \<Rightarrow> 't App \<times> ('t, 'c, 'f) HybridStore \<times> (string option \<times> int) option" where
  "urpc_insert_loop dbg env lock_free now app shuffle [] failure insert_len a st = (a, st, Some (failure, insert_len))"
| "urpc_insert_loop dbg env lock_free now app shuffle ((p, bs) # todo) failure insert_len a st =
     (let uid = \<lparr>app_id = app, shuffle_id = shuffle, partition_id = p\<rparr>;
          (a, st, r) = app_insert env (lock_free p) now (new_writing_ctx uid bs) a st
      in case r of
           Ok n \<Rightarrow> urpc_insert_loop dbg env lock_free now app shuffle todo failure (i64 (insert_len + n)) a st
         | Err e \<Rightarrow>
             urpc_insert_loop dbg env lock_free now app shuffle todo
               (Some (''Errors on inserting data for app: '' @ dbg_string dbg app @ ''. error:'' @ dbg_error dbg e)) insert_len a st
         | Panic \<Rightarrow> (a, st, None))"

text \<open>What was inserted becomes used memory; only a rest of the reservation is given back.\<close>

definition urpc_settle :: "int \<Rightarrow> int \<Rightarrow> ('t, 'c, 'f) HybridStore \<Rightarrow> ('t, 'c, 'f) HybridStore" where
  "urpc_settle ticket_len insert_len st =
     (let st = move_allocated_to_used_from_hot_store insert_len st;
          unused = i64 (ticket_len - insert_len)
      in if 0 < unused then release_allocated_from_hot_store unused st else st)"

definition urpc_send ::
    "formatter \<Rightarrow> ('t, 'c, 'f) Env \<Rightarrow> ('t, 'c, 'f) Turn \<Rightarrow> SendDataRequestCommand \<Rightarrow> ('t, 'c, 'f) AppManager \<Rightarrow>
     ('t, 'c, 'f) AppManager \<times> (StatusCode \<times> string, unit) outcome" where
  "urpc_send dbg env turn req m =
     (case get_app (sd_app_id req) m of
        None \<Rightarrow> (m, Ok (NO_REGISTER, no_such_app))
      | Some a \<Rightarrow>
          on_app (sd_app_id req) a (\<lambda>a st.
            case app_release_ticket (sd_ticket_id req) a st of
              (a, st, Ok ticket_len) \<Rightarrow>
                (case urpc_insert_loop dbg env (t_lock_free turn) (t_now turn) (sd_app_id req) (sd_shuffle_id req)
                        (t_order turn (sd_blocks req)) None 0 a st of
                   (a, st, Some (failure, insert_len)) \<Rightarrow>
                     (a, urpc_settle ticket_len insert_len st,
                      Ok (case failure of Some msg \<Rightarrow> (INTERNAL_ERROR_CODE, msg) | None \<Rightarrow> (SUCCESS, '''')))
                 | (a, st, None) \<Rightarrow> (a, st, Panic))
            | (a, st, Err _) \<Rightarrow> (a, st, Ok (INTERNAL_ERROR_CODE, ''No such ticket id. Maybe it has been out of date''))
            | (a, st, Panic) \<Rightarrow> (a, st, Panic)) m)"

definition send_data_apply ::
    "formatter \<Rightarrow> codec \<Rightarrow> ('t, 'c, 'f) Env \<Rightarrow> ('t, 'c, 'f) Turn \<Rightarrow> SendDataRequestCommand \<Rightarrow> ('t, 'c, 'f) AppManager \<Rightarrow>
     Connection \<Rightarrow> ('t, 'c, 'f) AppManager \<times> Connection \<times> (unit, anyhow) outcome" where
  "send_data_apply dbg c env turn req m conn =
     (case urpc_send dbg env turn req m of
        (m, Ok (code, msg)) \<Rightarrow>
          (m, write_response c \<lparr>rr_request_id = sd_request_id req, rr_status_code = status_code code, rr_ret_msg = msg\<rparr> conn)
      | (m, _) \<Rightarrow> (m, conn, Panic))"

fun command_apply ::
    "formatter \<Rightarrow> codec \<Rightarrow> ('t, 'c, 'f) Env \<Rightarrow> ('t, 'c, 'f) Turn \<Rightarrow> Command \<Rightarrow> ('t, 'c, 'f) AppManager \<Rightarrow> Connection \<Rightarrow>
     ('t, 'c, 'f) AppManager \<times> Connection \<times> (unit, anyhow) outcome" where
  "command_apply dbg c env turn (Send req) m conn = send_data_apply dbg c env turn req m conn"
| "command_apply dbg c env turn (GetMem req) m conn = get_memory_data_apply dbg c turn req m conn"
| "command_apply dbg c env turn (GetLocalIndex req) m conn = get_local_index_apply dbg c turn req m conn"
| "command_apply dbg c env turn (GetLocal req) m conn = get_local_data_apply dbg c turn req m conn"

section \<open>What a command does to its connection\<close>

fun command_id :: "Command \<Rightarrow> int" where
  "command_id (Send req) = sd_request_id req"
| "command_id (GetMem req) = gm_request_id req"
| "command_id (GetLocalIndex req) = gi_request_id req"
| "command_id (GetLocal req) = gd_request_id req"

fun response_id :: "Frame \<Rightarrow> int option" where
  "response_id (Frame_RpcResponse r) = Some (rr_request_id r)"
| "response_id (Frame_GetMemoryDataResponse r) = Some (md_request_id r)"
| "response_id (Frame_GetLocalDataIndexResponse r) = Some (li_request_id r)"
| "response_id (Frame_GetLocalDataResponse r) = Some (ld_request_id r)"
| "response_id _ = None"

text \<open>A command answers with one response, the one of its request, or panics before it writes anything.\<close>

definition answers :: "codec \<Rightarrow> int \<Rightarrow> Connection \<Rightarrow> Connection \<times> (unit, anyhow) outcome \<Rightarrow> bool" where
  "answers c i conn = (\<lambda>(conn', r).
     r = Panic \<and> conn' = conn \<or>
     r = Ok () \<and> (\<exists>f bs. response_id f = Some i \<and> frame_write c f = Ok bs \<and> conn' = conn\<lparr>out_bytes := out_bytes conn @ bs\<rparr>))"

lemma frame_write_no_error [simp]: "frame_write c f \<noteq> Err e"
  by (simp add: frame_write_def Let_def split: Frame.split ResponseData.split)

lemma write_frame_answers: "response_id f = Some i \<Longrightarrow> answers c i conn (write_frame c f conn)"
  by (cases "frame_write c f") (auto simp: answers_def write_frame_def)

lemma panic_answers [simp]: "answers c i conn (conn, Panic)"
  by (simp add: answers_def)

lemma command_answers: "answers c (command_id cmd) conn (snd (command_apply dbg c env turn cmd m conn))"
  by (cases cmd)
    (auto simp: send_data_apply_def get_memory_data_apply_def get_local_index_apply_def get_local_data_apply_def write_response_def
      Let_def case_prod_unfold write_frame_answers split: option.splits outcome.splits prod.splits ResponseData.splits)

section \<open>The loop of a connection\<close>

text \<open>A frame that was read has taken its header at least from what the socket still delivers.\<close>

lemma read_loop_consumes:
  "read_loop_frame c chunks buf = (chunks', buf', Ok (Some f)) \<Longrightarrow>
     length (buf' @ concat chunks') + HEADER_LEN \<le> length (buf @ concat chunks)"
proof (induction c chunks buf rule: read_loop_frame.induct)
  case (1 c buf)
  then show ?case
    by (auto simp: parse_frame_def check_eq frame_len_def end_of_stream_def split: prod.splits outcome.splits option.splits if_splits worker_error.splits)
next
  case (2 c chunk chunks buf)
  then show ?case
    by (auto simp: parse_frame_def check_eq frame_len_def end_of_stream_def split: prod.splits outcome.splits option.splits if_splits worker_error.splits)
qed

lemma read_frame_consumes:
  "read_frame c conn = (conn', Ok (Some f)) \<Longrightarrow> length (pending_bytes conn') < length (pending_bytes conn)"
  using read_loop_consumes [of c "in_chunks conn" "buffer conn"]
  by (fastforce simp: read_frame_def pending_bytes_def HEADER_LEN_def split: prod.splits)

lemma command_keeps_input: "pending_bytes (fst (snd (command_apply dbg c env turn cmd m conn))) = pending_bytes conn"
  using command_answers [of c cmd conn dbg env turn m] by (auto simp: answers_def pending_bytes_def)

lemma turn_consumes:
  assumes "read_frame c conn = (conn1, Ok (Some f))" and "command_apply dbg c env turn cmd m conn1 = (m', conn2, r)"
  shows "length (pending_bytes conn2) < length (pending_bytes conn)"
  using read_frame_consumes [OF assms(1)] command_keeps_input [of dbg c env turn cmd m conn1] assms(2) by simp

function handler_run ::
    "formatter \<Rightarrow> codec \<Rightarrow> ('t, 'c, 'f) Env \<Rightarrow> (nat \<Rightarrow> ('t, 'c, 'f) Turn) \<Rightarrow> nat \<Rightarrow> ('t, 'c, 'f) AppManager \<Rightarrow> Connection \<Rightarrow>
     ('t, 'c, 'f) AppManager \<times> Connection \<times> (unit, worker_error) outcome" where
  "handler_run dbg c env turns k m conn =
     (if t_shutdown (turns k) then (m, conn, Ok ())
      else case read_frame c conn of
        (conn, Ok None) \<Rightarrow> (m, conn, Ok ())
      | (conn, Ok (Some frame)) \<Rightarrow>
          (case from_frame frame of
             Ok cmd \<Rightarrow>
               (case command_apply dbg c env (turns k) cmd (t_others (turns k) m) conn of
                  (m, conn, Ok _) \<Rightarrow> handler_run dbg c env turns (Suc k) m conn
                | (m, conn, Err e) \<Rightarrow> (m, conn, Err (Other e))
                | (m, conn, Panic) \<Rightarrow> (m, conn, Panic))
           | Err e \<Rightarrow> (m, conn, Err (Other e))
           | Panic \<Rightarrow> (m, conn, Panic))
      | (conn, Err e) \<Rightarrow> (m, conn, Err e)
      | (conn, Panic) \<Rightarrow> (m, conn, Panic))"
  by pat_completeness auto

termination
  by (relation "measure (\<lambda>(_, _, _, _, _, _, conn). length (pending_bytes conn))") (auto intro: turn_consumes [OF sym sym])

declare handler_run.simps [simp del]

section \<open>The requests alone\<close>

text \<open>What a connection does, without sockets: requests one after the other, each with its bytes of response.\<close>

definition answer ::
    "formatter \<Rightarrow> codec \<Rightarrow> ('t, 'c, 'f) Env \<Rightarrow> ('t, 'c, 'f) Turn \<Rightarrow> Command \<Rightarrow> ('t, 'c, 'f) AppManager \<Rightarrow>
     ('t, 'c, 'f) AppManager \<times> bytes \<times> (unit, anyhow) outcome" where
  "answer dbg c env turn cmd m =
     (let (m, conn, r) = command_apply dbg c env turn cmd m \<lparr>in_chunks = [], buffer = [], out_bytes = []\<rparr> in (m, out_bytes conn, r))"

fun serve ::
    "formatter \<Rightarrow> codec \<Rightarrow> ('t, 'c, 'f) Env \<Rightarrow> (nat \<Rightarrow> ('t, 'c, 'f) Turn) \<Rightarrow> (unit, worker_error) outcome \<Rightarrow> nat \<Rightarrow> Frame list \<Rightarrow>
     ('t, 'c, 'f) AppManager \<Rightarrow> bytes \<Rightarrow> ('t, 'c, 'f) AppManager \<times> bytes \<times> (unit, worker_error) outcome" where
  "serve dbg c env turns ending k [] m out = (m, out, if t_shutdown (turns k) then Ok () else ending)"
| "serve dbg c env turns ending k (frame # frames) m out =
     (if t_shutdown (turns k) then (m, out, Ok ())
      else case from_frame frame of
        Ok cmd \<Rightarrow>
          (case answer dbg c env (turns k) cmd (t_others (turns k) m) of
             (m, bs, Ok _) \<Rightarrow> serve dbg c env turns ending (Suc k) frames m (out @ bs)
           | (m, bs, Err e) \<Rightarrow> (m, out, Err (Other e))
           | (m, bs, Panic) \<Rightarrow> (m, out, Panic))
      | Err e \<Rightarrow> (m, out, Err (Other e))
      | Panic \<Rightarrow> (m, out, Panic))"

lemma write_frame_out:
  "write_frame c f conn = (let (conn0, r) = write_frame c f \<lparr>in_chunks = [], buffer = [], out_bytes = []\<rparr>
     in (conn\<lparr>out_bytes := out_bytes conn @ out_bytes conn0\<rparr>, r))"
  by (cases "frame_write c f") (simp_all add: write_frame_def)

lemma command_apply_answer:
  "command_apply dbg c env turn cmd m conn =
     (let (m', bs, r) = answer dbg c env turn cmd m in (m', conn\<lparr>out_bytes := out_bytes conn @ bs\<rparr>, r))"
  by (cases cmd)
    (auto simp: answer_def send_data_apply_def get_memory_data_apply_def get_local_index_apply_def get_local_data_apply_def
      write_response_def Let_def case_prod_unfold write_frame_out [of c _ conn]
      split: option.splits outcome.splits prod.splits ResponseData.splits)

lemma answer_cases:
  "(\<exists>m'. answer dbg c env turn cmd m = (m', [], Panic)) \<or>
   (\<exists>m' f bs. answer dbg c env turn cmd m = (m', bs, Ok ()) \<and> response_id f = Some (command_id cmd) \<and> frame_write c f = Ok bs)"
  using command_answers [of c cmd "\<lparr>in_chunks = [], buffer = [], out_bytes = []\<rparr>" dbg env turn m]
  by (fastforce simp: answer_def answers_def split: prod.splits)

lemma handler_run_serve:
  assumes "list_all (\<lambda>(b, f). frame_at c b f) fs" and "pending_bytes conn = concat (map fst fs) @ p"
    and "p = [] \<or> (\<exists>q f. frame_at c (p @ q) f \<and> q \<noteq> [])" and "[] \<notin> set (in_chunks conn)"
  shows "\<exists>conn'. handler_run dbg c env turns k m conn =
    (let (m', out, r) = serve dbg c env turns (if p = [] then Ok () else Err STREAM_ABNORMAL) k (map snd fs) m (out_bytes conn)
     in (m', conn'\<lparr>out_bytes := out\<rparr>, r))"
  using assms
proof (induction fs arbitrary: k m conn)
  case Nil
  then obtain conn1 where "read_frame c conn = (conn1, end_of_stream p)" "out_bytes conn1 = out_bytes conn"
    using read_loop_end [of "buffer conn" "in_chunks conn" p c] by (simp add: read_frame_def pending_bytes_def)
  then show ?case
    by (cases "t_shutdown (turns k)")
      (auto simp: handler_run.simps [of dbg c env turns k m conn] end_of_stream_def intro: exI [of _ conn] exI [of _ conn1])
next
  case (Cons e fs)
  obtain conn1 where conn1: "read_frame c conn = (conn1, Ok (Some (snd e)))" "pending_bytes conn1 = concat (map fst fs) @ p"
      "[] \<notin> set (in_chunks conn1)" "out_bytes conn1 = out_bytes conn"
    using read_frame_complete [of c "fst e" "snd e" conn "concat (map fst fs) @ p"] Cons.prems by (auto simp: case_prod_unfold)
  let ?ending = "if p = [] then Ok () else Err STREAM_ABNORMAL"
  have step: "\<exists>conn'. handler_run dbg c env turns (Suc k) m' (conn1\<lparr>out_bytes := out\<rparr>) =
      (let (m', out, r) = serve dbg c env turns ?ending (Suc k) (map snd fs) m' out in (m', conn'\<lparr>out_bytes := out\<rparr>, r))" for m' out
    using Cons.IH [of "conn1\<lparr>out_bytes := out\<rparr>" "Suc k" m'] Cons.prems(1,3) conn1(2,3) by (simp add: pending_bytes_def)
  show ?case
  proof (cases "t_shutdown (turns k)")
    case True
    then show ?thesis by (auto simp: handler_run.simps [of dbg c env turns k m conn] intro: exI [of _ conn])
  next
    case False
    show ?thesis
    proof (cases "from_frame (snd e)")
      case (Ok cmd)
      then show ?thesis
        using False conn1(1,4) step answer_cases [of dbg c env "turns k" cmd "t_others (turns k) m"]
        by (auto simp: handler_run.simps [of dbg c env turns k m conn] command_apply_answer intro: exI [of _ conn1])
    qed (use False conn1(1,4) in \<open>auto simp: handler_run.simps [of dbg c env turns k m conn] intro: exI [of _ conn1]\<close>)
  qed
qed

text \<open>The bytes of the response to the request of a frame.\<close>

definition response_to :: "codec \<Rightarrow> Frame \<Rightarrow> bytes \<Rightarrow> bool" where
  "response_to c f bs \<longleftrightarrow>
     (\<exists>cmd resp. from_frame f = Ok cmd \<and> response_id resp = Some (command_id cmd) \<and> frame_write c resp = Ok bs)"

lemma serve_answers:
  fixes turns :: "nat \<Rightarrow> ('t, 'c, 'f) Turn"
  shows "\<exists>bss. fst (snd (serve dbg c env turns ending k frames m out)) = out @ concat bss \<and> length bss \<le> length frames \<and>
    list_all2 (response_to c) (take (length bss) frames) bss \<and>
    (snd (snd (serve dbg c env turns ending k frames m out)) \<noteq> Panic \<longrightarrow> (\<forall>j. \<not> t_shutdown (turns j)) \<longrightarrow>
       length bss = length frames)"
proof (induction frames arbitrary: k m out)
  case Nil
  then show ?case by (auto intro: exI [of _ "[]"])
next
  case (Cons f frames)
  show ?case
  proof (cases "t_shutdown (turns k) \<or> (\<forall>cmd. from_frame f \<noteq> Ok cmd)")
    case True
    moreover have "from_frame f \<noteq> Err e" for e by (simp add: from_frame_def split: Frame.split)
    ultimately show ?thesis by (intro exI [of _ "[]"]) (auto split: outcome.split)
  next
    case False
    then obtain cmd where cmd: "\<not> t_shutdown (turns k)" "from_frame f = Ok cmd" by auto
    show ?thesis
    proof (rule disjE [OF answer_cases [of dbg c env "turns k" cmd "t_others (turns k) m"]])
      assume "\<exists>m'. answer dbg c env (turns k) cmd (t_others (turns k) m) = (m', [], Panic)"
      then show ?thesis using cmd by (auto intro!: exI [of _ "[]"])
    next
      assume "\<exists>m' resp bs. answer dbg c env (turns k) cmd (t_others (turns k) m) = (m', bs, Ok ()) \<and>
        response_id resp = Some (command_id cmd) \<and> frame_write c resp = Ok bs"
      then obtain m' resp bs where ans: "answer dbg c env (turns k) cmd (t_others (turns k) m) = (m', bs, Ok ())"
        and "response_id resp = Some (command_id cmd)" "frame_write c resp = Ok bs" by blast
      then have "response_to c f bs" using cmd(2) by (auto simp: response_to_def)
      moreover obtain bss where "fst (snd (serve dbg c env turns ending (Suc k) frames m' (out @ bs))) = (out @ bs) @ concat bss"
          "length bss \<le> length frames" "list_all2 (response_to c) (take (length bss) frames) bss"
          "snd (snd (serve dbg c env turns ending (Suc k) frames m' (out @ bs))) \<noteq> Panic \<longrightarrow> (\<forall>j. \<not> t_shutdown (turns j)) \<longrightarrow>
             length bss = length frames"
        using Cons.IH [of "Suc k" m' "out @ bs"] by blast
      ultimately show ?thesis using cmd ans by (intro exI [of _ "bs # bss"]) simp
    qed
  qed
qed

section \<open>A connection is its requests\<close>

text \<open>
  C9. A connection over the binary protocol does exactly what its requests do one after the other, whatever the chunks in which the socket delivers them
  and whatever other connections do meanwhile: the handler always returns, it leaves the state and the bytes that the sequence of
  commands leaves, and it ends as the stream ends.  The bytes are one response per request, in the order of the requests and with their
  ids, for all requests unless the server is told to stop or a command panics.
\<close>

theorem urpc_handler_serves:
  fixes turns :: "nat \<Rightarrow> ('t, 'c, 'f) Turn"
  assumes "wire_codec c" and "list_all (sendable c) requests"
    and "pending_bytes conn = concat (map (\<lambda>(servers, f). enc_request c servers f) requests) @ tail" and "[] \<notin> set (in_chunks conn)"
    and "tail \<noteq> [] \<Longrightarrow> sendable c (servers, f) \<and> strict_prefix tail (enc_request c servers f)"
    and "handler_run dbg c env turns 0 m conn = (m', conn', r)"
  shows "serve dbg c env turns (if tail = [] then Ok () else Err STREAM_ABNORMAL) 0 (map snd requests) m (out_bytes conn) =
      (m', out_bytes conn', r) \<and>
    (\<exists>bss. out_bytes conn' = out_bytes conn @ concat bss \<and>
       list_all2 (response_to c) (take (length bss) (map snd requests)) bss \<and>
       (r \<noteq> Panic \<longrightarrow> (\<forall>j. \<not> t_shutdown (turns j)) \<longrightarrow> length bss = length requests))"
proof -
  let ?fs = "map (\<lambda>(servers, f). (enc_request c servers f, f)) requests"
  let ?ending = "if tail = [] then Ok () else Err STREAM_ABNORMAL"
  have "list_all (\<lambda>(b, f). frame_at c b f) ?fs"
    using assms(2) by (auto simp: list_all_iff intro: wire_codec.frame_at_enc_request [OF assms(1)])
  moreover have "pending_bytes conn = concat (map fst ?fs) @ tail" using assms(3) by (simp add: comp_def case_prod_unfold)
  moreover have "tail = [] \<or> (\<exists>q f. frame_at c (tail @ q) f \<and> q \<noteq> [])"
    using wire_codec.frame_at_prefix [OF assms(1,5)] by blast
  ultimately obtain conn1 where "handler_run dbg c env turns 0 m conn =
      (let (m', out, r) = serve dbg c env turns ?ending 0 (map snd ?fs) m (out_bytes conn) in (m', conn1\<lparr>out_bytes := out\<rparr>, r))"
    using handler_run_serve [OF _ _ _ assms(4)] by blast
  moreover have "map snd ?fs = map snd requests" by (simp add: case_prod_unfold)
  ultimately have "serve dbg c env turns ?ending 0 (map snd requests) m (out_bytes conn) = (m', out_bytes conn', r)"
    using assms(6) by (auto simp: case_prod_unfold Let_def comp_def)
  with serve_answers [of dbg c env turns ?ending 0 "map snd requests" m "out_bytes conn"] show ?thesis by auto
qed

definition plain_dbg :: formatter where
  "plain_dbg = \<lparr>dbg_error = (\<lambda>_. ''error''), dbg_string = (\<lambda>s. s)\<rparr>"

definition calm_turn :: "('t, 'c, 'f) Turn" where
  "calm_turn = \<lparr>t_now = 5, t_order = (\<lambda>x. x), t_lock_free = (\<lambda>_. True), t_flight = [], t_others = (\<lambda>m. m), t_shutdown = False\<rparr>"

definition empty_manager :: "(int list, unit, mem_hdfs) AppManager" where
  "empty_manager = new_app_manager sample_config sample_hybrid"

theorem urpc_handler_serves_witness:
  "let (m', conn', r) = handler_run plain_dbg be_codec sample_env (\<lambda>_. calm_turn) 0 empty_manager sample_connection
   in r = Err STREAM_ABNORMAL \<and>
      (\<exists>bs1 bs2. out_bytes conn' = bs1 @ bs2 \<and> response_to be_codec sample_get bs1 \<and> response_to be_codec sample_send bs2)"
proof -
  obtain m' conn' r where run: "handler_run plain_dbg be_codec sample_env (\<lambda>_. calm_turn) 0 empty_manager sample_connection = (m', conn', r)"
    by (cases "handler_run plain_dbg be_codec sample_env (\<lambda>_. calm_turn) 0 empty_manager sample_connection") auto
  have ok: "list_all (sendable be_codec) sample_requests" "sendable be_codec ([], sample_get)"
      "strict_prefix [0, 0, 0] (enc_request be_codec [] sample_get)" by code_simp+
  have fs: "map snd sample_requests = [sample_get, sample_send]" "length sample_requests = 2"
    by (simp_all add: sample_requests_def)
  have conn: "out_bytes sample_connection = []" "[] \<notin> set (in_chunks sample_connection)"
      "pending_bytes sample_connection = concat (map (\<lambda>(servers, f). enc_request be_codec servers f) sample_requests) @ [0, 0, 0]"
    by (auto simp: sample_connection_def pending_bytes_def concat_map_singleton)
  have "snd (snd (serve plain_dbg be_codec sample_env (\<lambda>_. calm_turn) (Err STREAM_ABNORMAL) 0 [sample_get, sample_send] empty_manager [])) =
      Err STREAM_ABNORMAL" by code_simp
  then have r: "r = Err STREAM_ABNORMAL" and "\<exists>bss. out_bytes conn' = concat bss \<and>
      list_all2 (response_to be_codec) (take (length bss) [sample_get, sample_send]) bss \<and> length bss = 2"
    using urpc_handler_serves [OF be.wire_codec_axioms ok(1) conn(3,2) _ run, of "[]" sample_get] ok(2,3)
    by (auto simp: fs conn(1) calm_turn_def)
  then obtain bs1 bs2 where "out_bytes conn' = bs1 @ bs2" "response_to be_codec sample_get bs1" "response_to be_codec sample_send bs2"
    by (auto simp: length_Suc_conv numeral_2_eq_2)
  then show ?thesis unfolding run using r by auto
qed

section \<open>The two protocols\<close>

text \<open>As long as no insert fails, the loops of the two protocols do the same, and the number of bytes inserted is that of the blocks.\<close>

lemma grpc_insert_loop_failed:
  "snd (snd (grpc_insert_loop env lock_free now app shuffle todo True n a st)) = Some (True, n)"
  by (induction todo) auto

lemma insert_loops_agree:
  assumes "grpc_insert_loop env lock_free now app shuffle todo False n a st = (a', st', Some (False, k))"
    and "list_all (\<lambda>(p, bs). list_all (\<lambda>b. 0 \<le> length_of b) bs) todo" and "0 \<le> n" and "n + sent todo < 2 ^ 31"
  shows "urpc_insert_loop dbg env lock_free now app shuffle todo None n a st = (a', st', Some (None, k)) \<and> k = n + sent todo"
  using assms
proof (induction todo arbitrary: n a st)
  case (Cons e todo)
  obtain p bs where e: "e = (p, bs)" by (cases e)
  let ?ctx = "new_writing_ctx \<lparr>app_id = app, shuffle_id = shuffle, partition_id = p\<rparr> bs"
  obtain a1 st1 r where ins: "app_insert env (lock_free p) now ?ctx a st = (a1, st1, r)" by (metis prod_cases3)
  have nn: "0 \<le> sent todo" "0 \<le> lens bs" "list_all (\<lambda>b. 0 \<le> length_of b) bs"
    using Cons.prems(2) by (auto simp: e sent_def list_all_iff intro!: weight_nonneg lens_nonneg)
  then have small: "lens bs < 2 ^ 31" "i64 (n + lens bs) = n + lens bs"
    using Cons.prems(3,4) by (auto simp: e intro!: i64_id)
  have "r = and_then (snd (hybrid_insert (lock_free p) ?ctx st)) (\<lambda>_. Ok (lens bs))"
    using ins app_insert_store [of env "lock_free p" now ?ctx a st] new_writing_ctx_honest(2) [OF nn(3) small(1)] nn(2) small(1)
    by (simp add: i32_id)
  moreover have "\<exists>x. r = Ok x"
    using Cons.prems(1) grpc_insert_loop_failed [of env lock_free now app shuffle todo n a1 st1] ins by (cases r) (auto simp: e)
  ultimately have "r = Ok (lens bs)" by (auto simp: and_then_eq_Ok)
  then show ?case
    using Cons.IH [of "n + lens bs" a1 st1] Cons.prems ins nn small(2) by (simp add: e add.assoc)
qed simp

lemma blocks_map_append:
  "distinct (map fst (m @ sd)) \<Longrightarrow> foldl (\<lambda>m (p, bs). extend_blocks p bs m) m sd = m @ sd"
proof (induction sd arbitrary: m)
  case (Cons e sd)
  have "dm_get m (fst e) = None" using Cons.prems by (auto simp: map_of_eq_None_iff)
  moreover have "dm_insert (fst e) (snd e) m = m @ [e]" using Cons.prems by (induction m) auto
  ultimately have "extend_blocks (fst e) (snd e) m = m @ [e]" by (simp add: extend_blocks_def)
  with Cons.IH [of "m @ [e]"] Cons.prems show ?case by (simp add: case_prod_unfold)
qed simp

lemma blocks_map_id: "dm_ok sd \<Longrightarrow> blocks_map sd = sd"
  using blocks_map_append [of "[]" sd] by (simp add: blocks_map_def dm_ok_def)

text \<open>
  C13. The two protocols write alike.  A request that succeeds over gRPC, with one batch of blocks for each partition and
  within its ticket, does the same over the binary protocol: it succeeds, and it leaves the same state of the whole server.
\<close>

theorem urpc_send_as_grpc:
  assumes "dm_ok (sd_blocks req)" and "mset (t_order turn (sd_blocks req)) = mset (sd_blocks req)"
    and "list_all (\<lambda>(p, bs). list_all (\<lambda>b. 0 \<le> length_of b) bs) (sd_blocks req)" and "sent (sd_blocks req) < 2 ^ 31"
    and "grpc_send_shuffle_data env (t_order turn) (t_lock_free turn) (t_now turn) (sd_app_id req) (sd_shuffle_id req)
      (sd_ticket_id req) (sd_blocks req) m = (m', Ok SUCCESS)"
    and "snd (ticket_delete (sd_ticket_id req) (ticket_manager (hot_store (m_store m)))) = Ok n"
    and "sent (sd_blocks req) \<le> n" and "n < 2 ^ 63"
  shows "urpc_send dbg env turn req m = (m', Ok (SUCCESS, ''''))"
proof -
  let ?sd = "sd_blocks req" and ?todo = "t_order turn (sd_blocks req)" and ?app = "sd_app_id req"
  have todo: "sent ?todo = sent ?sd" "set ?todo = set ?sd"
    using batches_mset [OF assms(2)] assms(2) mset_eq_setD by blast+
  have nn: "list_all (\<lambda>(p, bs). list_all (\<lambda>b. 0 \<le> length_of b) bs) ?todo" using assms(3) todo(2) by (simp add: list_all_iff)
  obtain a where a: "get_app ?app m = Some a"
    using assms(5) by (cases "get_app ?app m") (simp_all add: grpc_send_shuffle_data_def)
  obtain st1 where ticket: "app_release_ticket (sd_ticket_id req) a (m_store m) = (a, st1, Ok n)"
    using assms(6) by (cases "ticket_delete (sd_ticket_id req) (ticket_manager (hot_store (m_store m)))")
      (simp add: app_release_ticket_def hybrid_release_ticket_def memory_release_ticket_def)
  obtain a1 st2 r where loop: "grpc_insert_loop env (t_lock_free turn) (t_now turn) ?app (sd_shuffle_id req) ?todo False 0 a st1 = (a1, st2, r)"
    by (metis prod_cases3)
  then obtain k where r: "r = Some (False, k)"
    using assms(5) a ticket
    by (cases r) (auto simp: grpc_send_shuffle_data_def on_app_def blocks_map_id [OF assms(1)] Let_def split: if_splits)
  have k: "urpc_insert_loop dbg env (t_lock_free turn) (t_now turn) ?app (sd_shuffle_id req) ?todo None 0 a st1 = (a1, st2, Some (None, k))"
      "k = sent ?sd"
    using insert_loops_agree [OF loop [unfolded r] nn, of dbg] assms(4) todo(1) by simp_all
  have "0 \<le> sent ?sd" using assms(3) by (fastforce simp: sent_def list_all_iff intro: weight_nonneg lens_nonneg)
  then have "i64 (n - k) = n - k" using assms(7,8) k(2) by (intro i64_id) auto
  then have "urpc_settle n k st2 = grpc_settle n k st2" using assms(7) k(2) by (simp add: urpc_settle_def grpc_settle_def Let_def)
  then show ?thesis
    using assms(5) a ticket loop r k(1)
    by (simp add: grpc_send_shuffle_data_def urpc_send_def on_app_def blocks_map_id [OF assms(1)] Let_def)
qed

definition sample_write :: SendDataRequestCommand where
  "sample_write = \<lparr>sd_request_id = 8, sd_app_id = ''a'', sd_shuffle_id = 0,
     sd_blocks = [(0, [sample_block 1 3])], sd_ticket_id = 1, sd_timestamp = 6\<rparr>"

theorem urpc_send_as_grpc_witness:
  "let (m', r) = urpc_send plain_dbg sample_env calm_turn sample_write writing_manager
   in r = Ok (SUCCESS, '''') \<and> m' = fst (grpc_send_shuffle_data sample_env (\<lambda>x. x) (\<lambda>_. True) 5 ''a'' 0 1 (sd_blocks sample_write) writing_manager)"
proof -
  have ev: "dm_ok (sd_blocks sample_write)" "list_all (\<lambda>(p, bs). list_all (\<lambda>b. 0 \<le> length_of b) bs) (sd_blocks sample_write)"
      "sent (sd_blocks sample_write) = 3"
      "snd (grpc_send_shuffle_data sample_env (\<lambda>x. x) (\<lambda>_. True) 5 ''a'' 0 1 (sd_blocks sample_write) writing_manager) = Ok SUCCESS"
      "snd (ticket_delete 1 (ticket_manager (hot_store (m_store writing_manager)))) = Ok 10"
    by code_simp+
  have "grpc_send_shuffle_data sample_env (\<lambda>x. x) (\<lambda>_. True) 5 ''a'' 0 1 (sd_blocks sample_write) writing_manager =
      (fst (grpc_send_shuffle_data sample_env (\<lambda>x. x) (\<lambda>_. True) 5 ''a'' 0 1 (sd_blocks sample_write) writing_manager), Ok SUCCESS)"
    using ev(4) by (metis prod.collapse)
  then show ?thesis
    using urpc_send_as_grpc [of sample_write "calm_turn :: (int list, unit, mem_hdfs) Turn" sample_env writing_manager _ 10 plain_dbg] ev
    by (simp add: calm_turn_def sample_write_def)
qed

section \<open>Writes beyond the ticket\<close>

text \<open>
  A write of more bytes than its ticket reserved: over gRPC the reservations of the others are left as they were; over the
  binary protocol the excess is taken out of them.
\<close>

lemma urpc_overrun:
  fixes st :: "('t, 'c, 'f) HybridStore"
  defines "b \<equiv> budget (hot_store st)"
  assumes "budget_inv b" and "0 \<le> n" and "n < k" and "k \<le> allocated b"
  shows "budget (hot_store (grpc_settle n k st)) = b\<lparr>allocated := allocated b - n, used := used b + k\<rparr>"
    and "budget (hot_store (urpc_settle n k st)) = b\<lparr>allocated := allocated b - k, used := used b + k\<rparr>"
proof -
  have mv: "move_allocated_to_used k b = b\<lparr>allocated := allocated b - k, used := used b + k\<rparr>"
    using assms by (simp add: move_allocated_eq)
  have i: "i64 (n - k) = n - k" "i64 (allocated b - n) = allocated b - n"
    using assms(2-5) by (auto simp: budget_inv_def intro!: i64_id)
  show "budget (hot_store (grpc_settle n k st)) = b\<lparr>allocated := allocated b - n, used := used b + k\<rparr>"
    using assms(3-5) i by (auto simp: grpc_settle_hot mv dec_allocated_def simp flip: b_def)
  show "budget (hot_store (urpc_settle n k st)) = b\<lparr>allocated := allocated b - k, used := used b + k\<rparr>"
    using assms(4) i(1) mv by (simp add: urpc_settle_def Let_def move_allocated_to_used_from_hot_store_def
        memory_move_allocated_to_used_def flip: b_def)
qed

end
