(* ===== verification/Urpc_Server.thy ===== *)
theory Urpc_Server
  imports Urpc_Command
begin

text \<open>
  The listener of \<^verbatim>\<open>urpc/server.rs\<close> and the signal of \<^verbatim>\<open>urpc/shutdown.rs\<close>: accepting with a
  growing pause after failures, the limit on the connections, and the gauge of connections.
\<close>

section \<open>Shutdown\<close>

record Shutdown =
  is_shutdown :: bool

definition new_shutdown :: Shutdown where
  "new_shutdown = \<lparr>is_shutdown = False\<rparr>"

text \<open>The receiver waits for the signal or the end of the channel; either way it remembers it.\<close>

definition shutdown_recv :: "Shutdown \<Rightarrow> Shutdown" where
  "shutdown_recv s = (if is_shutdown s then s else s\<lparr>is_shutdown := True\<rparr>)"

section \<open>Accepting\<close>

text \<open>
  \<open>results\<close> are what the socket answers to one \<open>accept\<close> after the other.  The result is the number of calls, the
  seconds slept, and the socket or the error that is returned.
\<close>

partial_function (option) accept_loop :: "(nat \<Rightarrow> 's + 'e) \<Rightarrow> nat \<Rightarrow> int \<Rightarrow> int \<Rightarrow> (nat \<times> int \<times> ('s + 'e)) option" where
  "accept_loop results k backoff slept =
     (case results k of
        Inl socket \<Rightarrow> Some (Suc k, slept, Inl socket)
      | Inr err \<Rightarrow>
          if backoff > 64 then Some (Suc k, slept, Inr err)
          else accept_loop results (Suc k) (u64 (backoff * 2)) (slept + backoff))"

declare accept_loop.simps [code]

definition accept :: "(nat \<Rightarrow> 's + 'e) \<Rightarrow> (nat \<times> int \<times> ('s + 'e)) option" where
  "accept results = accept_loop results 0 1 0"

lemma accept_loop_socket:
  "isl (results k) \<or> 64 < backoff \<Longrightarrow> accept_loop results k backoff slept = Some (Suc k, slept, results k)"
  by (subst accept_loop.simps) (auto split: sum.split)

lemma accept_loop_again:
  "\<not> isl (results k) \<Longrightarrow> backoff \<le> 64 \<Longrightarrow> 0 \<le> backoff \<Longrightarrow>
     accept_loop results k backoff slept = accept_loop results (Suc k) (backoff * 2) (slept + backoff)"
  by (subst accept_loop.simps) (auto simp: u64_id split: sum.split)

lemma accept_loop_from:
  "k \<le> 7 \<Longrightarrow> accept_loop results k (2 ^ k) (2 ^ k - 1) =
     Some (let j = k + length (takeWhile (\<lambda>j. \<not> isl (results j)) [k..<7]) in (Suc j, 2 ^ j - 1, results j))"
proof (induction k rule: inc_induct)
  case base
  then show ?case by (simp add: accept_loop_socket)
next
  case (step k)
  have "(2 :: int) ^ k \<le> 2 ^ 6" using step.hyps by (intro power_increasing) auto
  then have small: "(2 :: int) ^ k \<le> 64" by simp
  have cons: "[k..<7] = k # [Suc k..<7]" using step.hyps by (simp add: upt_conv_Cons)
  show ?case
  proof (cases "isl (results k)")
    case False
    then show ?thesis
      using step.IH accept_loop_again [of results k "2 ^ k" "2 ^ k - 1"] small by (simp add: cons Let_def mult.commute)
  qed (simp add: accept_loop_socket cons)
qed

text \<open>
  C36. Accepting always comes to an end.  The loop returns the first socket it gets, or the error of the eighth failure in a row,
  after pauses of one, two, four, ... seconds that add up to at most 127 seconds; no error before the eighth is returned.
\<close>

theorem accept_terminates:
  "accept results = Some (let j = length (takeWhile (\<lambda>j. \<not> isl (results j)) [0..<7]) in (Suc j, 2 ^ j - 1, results j))"
  using accept_loop_from [of 0 results] by (simp add: accept_def)

section \<open>Connections\<close>

definition MAX_CONNECTIONS :: nat where
  "MAX_CONNECTIONS = 40000"

text \<open>
  \<open>waiting\<close> says that the listener holds a permit and waits in \<open>accept\<close>, \<open>connections\<close> counts the tasks that handle a
  connection, and \<open>gauge\<close> is the metric of connections.
\<close>

record Listener =
  limit_connections :: nat
  waiting :: bool
  connections :: nat
  gauge :: int
  stopped :: bool

definition new_listener :: Listener where
  "new_listener = \<lparr>limit_connections = MAX_CONNECTIONS, waiting = False, connections = 0, gauge = 0, stopped = False\<rparr>"

text \<open>
  A task that ends drops its permit; one that panics drops it as well, while it is unwound, but does not reach the decrement of the gauge.
\<close>

inductive listener_step :: "Listener \<Rightarrow> Listener \<Rightarrow> bool" where
  permit_taken: "\<not> stopped l \<Longrightarrow> \<not> waiting l \<Longrightarrow> 0 < limit_connections l \<Longrightarrow>
    listener_step l (l\<lparr>limit_connections := limit_connections l - 1, waiting := True\<rparr>)"
| accepted: "\<not> stopped l \<Longrightarrow> waiting l \<Longrightarrow> listener_step l (l\<lparr>waiting := False, connections := connections l + 1, gauge := gauge l + 1\<rparr>)"
| accept_failed: "\<not> stopped l \<Longrightarrow> waiting l \<Longrightarrow>
    listener_step l (l\<lparr>limit_connections := limit_connections l + 1, waiting := False, stopped := True\<rparr>)"
| handler_done: "0 < connections l \<Longrightarrow>
    listener_step l (l\<lparr>limit_connections := limit_connections l + 1, connections := connections l - 1, gauge := gauge l - 1\<rparr>)"
| handler_panics: "0 < connections l \<Longrightarrow>
    listener_step l (l\<lparr>limit_connections := limit_connections l + 1, connections := connections l - 1\<rparr>)"

inductive_cases listener_stepE: "listener_step l l'"

text \<open>
  There are never more connections than permits: in every reachable state the connections being handled, the free permits and the one the
  listener holds are the 40000 of the semaphore, however handlers end, and the gauge is never below the number of connections.
\<close>

lemma connections_bounded:
  assumes "listener_step\<^sup>*\<^sup>* new_listener l"
  shows "connections l + limit_connections l + (if waiting l then 1 else 0) = MAX_CONNECTIONS \<and> int (connections l) \<le> gauge l"
  using assms
proof (induction rule: rtranclp_induct)
  case (step l l')
  from step.hyps(2) step.IH show ?case by (cases rule: listener_step.cases) auto
qed (simp add: new_listener_def)

text \<open>A handler that panics leaves the gauge too high for good: here one connection is reported and none is open.\<close>

lemma panic_leaves_gauge:
  "\<exists>l. listener_step\<^sup>*\<^sup>* new_listener l \<and> connections l = 0 \<and> gauge l = 1"
proof -
  let ?l1 = "new_listener\<lparr>limit_connections := MAX_CONNECTIONS - 1, waiting := True\<rparr>"
  let ?l2 = "?l1\<lparr>waiting := False, connections := 1, gauge := 1\<rparr>"
  let ?l3 = "?l2\<lparr>limit_connections := MAX_CONNECTIONS, connections := 0\<rparr>"
  have "listener_step new_listener ?l1" using permit_taken [of new_listener] by (simp add: new_listener_def MAX_CONNECTIONS_def)
  moreover have "listener_step ?l1 ?l2" using accepted [of ?l1] by (simp add: new_listener_def)
  moreover have "listener_step ?l2 ?l3" using handler_panics [of ?l2] by (simp add: new_listener_def MAX_CONNECTIONS_def)
  ultimately have "listener_step\<^sup>*\<^sup>* new_listener ?l3" by (meson converse_rtranclp_into_rtranclp rtranclp.rtrancl_refl)
  then show ?thesis by (intro exI [of _ ?l3]) simp
qed

end
