(* ===== verification/Health.thy ===== *)
theory Health
  imports App_Manager
begin

text \<open>
  What the server tells the coordinators, and the policies for refusing requests: \<^verbatim>\<open>health_service.rs\<close>, the
  request of \<^verbatim>\<open>heartbeat.rs\<close>, and \<^verbatim>\<open>reject/mod.rs\<close>.
\<close>

section \<open>Health\<close>

definition store_is_healthy :: "('t, 'c, 'f) AppManager \<Rightarrow> bool" where
  "store_is_healthy m = hybrid_is_healthy (m_store m)"

definition mem_snapshot :: "('t, 'c, 'f) HybridStore \<Rightarrow> CapacitySnapshot" where
  "mem_snapshot st = memory_snapshot (hot_store st)"

definition store_memory_snapshot :: "('t, 'c, 'f) AppManager \<Rightarrow> CapacitySnapshot" where
  "store_memory_snapshot m = mem_snapshot (m_store m)"

definition get_spill_event_num :: "('t, 'c, 'f) HybridStore \<Rightarrow> int" where
  "get_spill_event_num st = memory_spill_event_num st"

definition store_memory_spill_event_num :: "('t, 'c, 'f) AppManager \<Rightarrow> int" where
  "store_memory_spill_event_num m = get_spill_event_num (m_store m)"

record HealthService =
  alive_app_number_limit :: "nat option"

definition service_is_healthy :: "HealthService \<Rightarrow> ('t, 'c, 'f) AppManager \<Rightarrow> bool" where
  "service_is_healthy h m =
     (if \<not> store_is_healthy m then False
      else case alive_app_number_limit h of
        Some n \<Rightarrow> if get_alive_app_number m > n then False else True
      | None \<Rightarrow> True)"

section \<open>Heartbeats\<close>

definition DEFAULT_SHUFFLE_SERVER_TAG :: string where
  "DEFAULT_SHUFFLE_SERVER_TAG = ''ss_v4''"

record ShuffleServerHeartBeatRequest =
  hb_used_memory :: int
  hb_pre_allocated_memory :: int
  hb_available_memory :: int
  hb_event_num_in_flush :: int
  hb_tags :: "string list"
  hb_is_healthy :: bool
  hb_status :: int

definition heartbeat_request :: "HealthService \<Rightarrow> string list option \<Rightarrow> ('t, 'c, 'f) AppManager \<Rightarrow> ShuffleServerHeartBeatRequest" where
  "heartbeat_request h tags m =
     (let all_tags = [DEFAULT_SHUFFLE_SERVER_TAG] @ (case tags of None \<Rightarrow> [] | Some ts \<Rightarrow> ts);
          healthy = service_is_healthy h m;
          s = store_memory_snapshot m
      in \<lparr>hb_used_memory = snap_used s, hb_pre_allocated_memory = snap_allocated s,
          hb_available_memory = i64 (i64 (snap_capacity s - snap_used s) - snap_allocated s),
          hb_event_num_in_flush = i32 (store_memory_spill_event_num m), hb_tags = all_tags, hb_is_healthy = healthy, hb_status = 0\<rparr>)"

section \<open>Refusing requests\<close>

text \<open>A policy may change the marks of huge partitions of the application that it looks at.\<close>

definition huge_partition_policy ::
    "('t, 'c, 'f) Env \<Rightarrow> PartitionedUId \<Rightarrow> ('t, 'c, 'f) AppManager \<Rightarrow> ('t, 'c, 'f) AppManager \<times> (unit, worker_error) outcome" where
  "huge_partition_policy env uid m =
     (case get_app (app_id uid) m of
        None \<Rightarrow> (m, Err APP_IS_NOT_FOUND)
      | Some a \<Rightarrow>
          on_app (app_id uid) a (\<lambda>a st.
            let (a, limited) = is_backpressure_for_huge_partition (e_treemap env) uid a st
            in (a, st, and_then (from_anyhow limited) (\<lambda>b. if b then Err MEMORY_USAGE_LIMITED_BY_HUGE_PARTITION else Ok ()))) m)"

definition disk_unhealthy_policy ::
    "('t, 'c, 'f) Env \<Rightarrow> PartitionedUId \<Rightarrow> ('t, 'c, 'f) AppManager \<Rightarrow> ('t, 'c, 'f) AppManager \<times> (unit, worker_error) outcome" where
  "disk_unhealthy_policy env uid m = (m, Ok ())"

definition service_unhealthy_policy ::
    "('t, 'c, 'f) Env \<Rightarrow> PartitionedUId \<Rightarrow> ('t, 'c, 'f) AppManager \<Rightarrow> ('t, 'c, 'f) AppManager \<times> (unit, worker_error) outcome" where
  "service_unhealthy_policy env uid m = (m, Ok ())"

fun policies_loop ::
    "(('t, 'c, 'f) AppManager \<Rightarrow> ('t, 'c, 'f) AppManager \<times> (unit, worker_error) outcome) list \<Rightarrow>
     ('t, 'c, 'f) AppManager \<Rightarrow> ('t, 'c, 'f) AppManager \<times> (unit, worker_error) outcome" where
  "policies_loop [] m = (m, Ok ())"
| "policies_loop (policy # policies) m = (case policy m of (m, Ok _) \<Rightarrow> policies_loop policies m | (m, r) \<Rightarrow> (m, r))"

definition should_allow ::
    "('t, 'c, 'f) Env \<Rightarrow> PartitionedUId \<Rightarrow> ('t, 'c, 'f) AppManager \<Rightarrow> ('t, 'c, 'f) AppManager \<times> (unit, worker_error) outcome" where
  "should_allow env uid m =
     policies_loop [service_unhealthy_policy env uid, disk_unhealthy_policy env uid, huge_partition_policy env uid] m"

section \<open>What a heartbeat says is true\<close>



section \<open>The policy and the reservation\<close>

text \<open>
  The policy of huge partitions refuses a request exactly when the reservation itself would for that reason.
\<close>

lemma is_huge_partition_heartbeat: "snd (is_huge_partition tm uid (app_heartbeat now a)) = snd (is_huge_partition tm uid a)"
  by (simp add: is_huge_partition_def app_heartbeat_def get_partition_meta_def put_meta_def Let_def split: option.split)

lemma is_huge_partition_limit:
  "huge_partition_memory_max_available_size (fst (is_huge_partition tm uid a)) = huge_partition_memory_max_available_size a"
  by (simp add: is_huge_partition_def get_partition_meta_def put_meta_def add_huge_partition_metric_def Let_def split: option.split)

lemma policy_agrees_with_require:
  assumes "get_app (app_id uid) m = Some a"
  shows "snd (should_allow env uid m) = Err MEMORY_USAGE_LIMITED_BY_HUGE_PARTITION \<longleftrightarrow>
    snd (snd (app_require_buffer (e_treemap env) now \<lparr>q_uid = uid, q_size = n\<rparr> a (m_store m))) = Err MEMORY_USAGE_LIMITED_BY_HUGE_PARTITION"
proof -
  have limited: "snd (is_backpressure_for_huge_partition tm uid (app_heartbeat now a) st) = snd (is_backpressure_for_huge_partition tm uid a st)"
    for tm :: "'a Treemap" and st :: "('a, 'b, 'c) HybridStore"
    using is_huge_partition_heartbeat [of tm uid now a] is_huge_partition_limit [of tm uid a] is_huge_partition_limit [of tm uid "app_heartbeat now a"]
    by (simp add: is_backpressure_for_huge_partition_def case_prod_unfold Let_def) (simp add: app_heartbeat_def)
  have "snd (hybrid_require_buffer now ctx st) \<noteq> Err MEMORY_USAGE_LIMITED_BY_HUGE_PARTITION" for ctx and st :: "('a, 'b, 'c) HybridStore"
    by (simp add: hybrid_require_buffer_def memory_require_buffer_def case_prod_unfold Let_def)
  then show ?thesis
    using assms limited [of "e_treemap env" "m_store m"]
    by (auto simp: should_allow_def service_unhealthy_policy_def disk_unhealthy_policy_def huge_partition_policy_def on_app_def
        app_require_buffer_def case_prod_unfold Let_def from_anyhow_def split: outcome.splits bool.splits)
qed

end
