(* ===== verification/Util.thy ===== *)
theory Util
  imports Worker_Types Text
begin

text \<open>
  Helpers of \<^verbatim>\<open>util.rs\<close>: the checksum of block data, which is computed in chunks, and the name of a server.

  The checksum itself is the \<open>crc32fast\<close> crate's, so its hasher is an argument; \<open>streaming_hasher\<close> is what the crate documents
  of it: feeding two pieces is feeding their concatenation.  \<open>crc32\<close> is the CRC-32 of IEEE 802.3 computed bit by bit and
  shows that the assumptions can hold.
\<close>

unbundle bit_operations_syntax

section \<open>Checksums\<close>

record 'h Hasher =
  hasher_new :: 'h
  hasher_update :: "bytes \<Rightarrow> 'h \<Rightarrow> 'h"
  hasher_finalize :: "'h \<Rightarrow> int"

locale streaming_hasher =
  fixes h :: "'h Hasher"
  assumes update_nothing: "hasher_finalize h (hasher_update h [] s) = hasher_finalize h s"
    and update_update: "hasher_finalize h (hasher_update h b (hasher_update h a s)) = hasher_finalize h (hasher_update h (a @ b) s)"
    and finalize_range: "0 \<le> hasher_finalize h s" "hasher_finalize h s < 2 ^ 32"

definition LENGTH_PER_CRC :: nat where
  "LENGTH_PER_CRC = 4 * 1024"

function crc_loop :: "'h Hasher \<Rightarrow> bytes \<Rightarrow> nat \<Rightarrow> 'h \<Rightarrow> 'h" where
  "crc_loop h bs i s =
     (if i < length bs then
        let len = min LENGTH_PER_CRC (length bs - i)
        in crc_loop h bs (i + LENGTH_PER_CRC) (hasher_update h (take len (drop i bs)) s)
      else s)"
  by pat_completeness auto
termination
  by (relation "measure (\<lambda>(h, bs, i, s). length bs - i)") (auto simp: LENGTH_PER_CRC_def)

declare crc_loop.simps [simp del]

definition get_crc :: "'h Hasher \<Rightarrow> bytes \<Rightarrow> int" where
  "get_crc h bs = i64 (hasher_finalize h (crc_loop h bs 0 (hasher_new h)))"

text \<open>The checksum of the data in one piece.\<close>

definition checksum :: "'h Hasher \<Rightarrow> bytes \<Rightarrow> int" where
  "checksum h bs = hasher_finalize h (hasher_update h bs (hasher_new h))"

context streaming_hasher
begin

lemma crc_loop_rest: "hasher_finalize h (crc_loop h bs i s) = hasher_finalize h (hasher_update h (drop i bs) s)"
proof (induction "length bs - i" arbitrary: i s rule: less_induct)
  case less
  show ?case
  proof (cases "i < length bs")
    case True
    let ?n = LENGTH_PER_CRC
    have chunk: "take (min ?n (length bs - i)) (drop i bs) = take ?n (drop i bs)" by (simp add: min_def)
    have "take ?n (drop i bs) @ drop (i + ?n) bs = drop i bs"
      using append_take_drop_id [of ?n "drop i bs"] by (simp add: add.commute)
    moreover have "length bs - (i + ?n) < length bs - i" using True by (simp add: LENGTH_PER_CRC_def)
    ultimately show ?thesis
      using True less [of "i + ?n"] by (simp add: crc_loop.simps [of h bs i] chunk update_update)
  qed (simp add: crc_loop.simps [of h bs i] update_nothing)
qed

lemma get_crc_checksum: "get_crc h bs = checksum h bs"
  using finalize_range [of "hasher_update h bs (hasher_new h)"] by (simp add: get_crc_def checksum_def crc_loop_rest i64_id)

end

text \<open>The CRC-32 of IEEE 802.3, reflected, one bit at a time.\<close>

definition crc_bit :: "32 word \<Rightarrow> 32 word" where
  "crc_bit s = (if bit s 0 then drop_bit 1 s XOR 0xEDB88320 else drop_bit 1 s)"

definition crc_byte :: "32 word \<Rightarrow> byte \<Rightarrow> 32 word" where
  "crc_byte s b = (crc_bit ^^ 8) (s XOR ucast b)"

definition crc32 :: "32 word Hasher" where
  "crc32 = \<lparr>hasher_new = - 1, hasher_update = (\<lambda>bs s. foldl crc_byte s bs), hasher_finalize = (\<lambda>s. uint (NOT s))\<rparr>"

interpretation crc32: streaming_hasher crc32
  using uint_lt2p [where 'a = 32] by unfold_locales (simp_all add: crc32_def)

section \<open>Names of servers\<close>

text \<open>\<open>get_local_ip\<close> asks the environment or a socket; its result, as text, is an argument.\<close>

definition generate_worker_uid :: "(string, unit) outcome \<Rightarrow> int \<Rightarrow> int option \<Rightarrow> (string, unit) outcome" where
  "generate_worker_uid local_ip grpc_port urpc_port =
     (case local_ip of
        Ok ip \<Rightarrow>
          (case urpc_port of
             None \<Rightarrow> Ok (ip @ ''-'' @ show_int grpc_port)
           | Some p \<Rightarrow> Ok (ip @ ''-'' @ show_int grpc_port @ ''-'' @ show_int p))
      | _ \<Rightarrow> Panic)"

definition gen_worker_uid :: "(string, unit) outcome \<Rightarrow> int \<Rightarrow> (string, unit) outcome" where
  "gen_worker_uid local_ip grpc_port = generate_worker_uid local_ip grpc_port None"

text \<open>
  The addresses as text have no minus sign and ports are not negative, so the parts of a name can be told apart: servers
  that differ in the address or in a port have different names.
\<close>

lemma split_name: "c \<notin> set a \<Longrightarrow> c \<notin> set b \<Longrightarrow> a @ c # x = b @ c # y \<Longrightarrow> a = b \<and> x = y"
proof (induction a arbitrary: b)
  case Nil
  then show ?case by (cases b) auto
next
  case (Cons d a)
  then show ?case by (cases b) auto
qed

lemma show_port: "0 \<le> p \<Longrightarrow> CHR ''-'' \<notin> set (show_int p)"
  using show_nat_digits [of "nat p"] by (auto simp: show_int_def list_all_iff)

lemma worker_uid_inject:
  assumes "CHR ''-'' \<notin> set ip" and "CHR ''-'' \<notin> set ip'" and "0 \<le> g" and "0 \<le> g'"
    and "\<forall>p. u = Some p \<longrightarrow> 0 \<le> p" and "\<forall>p. u' = Some p \<longrightarrow> 0 \<le> p"
  shows "generate_worker_uid (Ok ip) g u = generate_worker_uid (Ok ip') g' u' \<longleftrightarrow> ip = ip' \<and> g = g' \<and> u = u'"
proof
  assume eq: "generate_worker_uid (Ok ip) g u = generate_worker_uid (Ok ip') g' u'"
  let ?rest = "\<lambda>g u. show_int g @ (case u of None \<Rightarrow> [] | Some p \<Rightarrow> ''-'' @ show_int p)"
  have "ip @ CHR ''-'' # ?rest g u = ip' @ CHR ''-'' # ?rest g' u'"
    using eq by (auto simp: generate_worker_uid_def split: option.splits)
  then have ip: "ip = ip'" and rest: "?rest g u = ?rest g' u'" using split_name [OF assms(1,2)] by simp_all
  have no: "CHR ''-'' \<notin> set (show_int g)" "CHR ''-'' \<notin> set (show_int g')" using assms(3,4) show_port by auto
  have "g = g' \<and> u = u'"
  proof (cases "u = None \<or> u' = None")
    case True
    have "CHR ''-'' \<in> set (?rest g u) \<longleftrightarrow> u \<noteq> None" "CHR ''-'' \<in> set (?rest g' u') \<longleftrightarrow> u' \<noteq> None"
      using no by (auto split: option.splits)
    with True rest show ?thesis by auto
  next
    case False
    then obtain p q where u: "u = Some p" "u' = Some q" by auto
    have "show_int g @ CHR ''-'' # show_int p = show_int g' @ CHR ''-'' # show_int q" using rest by (simp add: u)
    from split_name [OF no this] show ?thesis by (simp add: u)
  qed
  with ip show "ip = ip' \<and> g = g' \<and> u = u'" by simp
qed simp

end
