(* ===== verification/Cli_Tool.thy ===== *)
theory Cli_Tool
  imports Util Localfile
begin

text \<open>
  The offline checker of shuffle files (\<^verbatim>\<open>cli_tool.rs\<close>): it compares the length of a data file with its index, and the checksum
  of every block with the one in the index.  What it prints is collected in a list; a panic keeps what was printed before.
\<close>

section \<open>The tool\<close>

datatype report =
  Length_differs int int \<comment> \<open>sum of the lengths in the index, length of the data file\<close>
| Crc_differs int int int nat nat \<comment> \<open>block, checksum in the index and of the data, number of entries, position\<close>

fun sum_of_lengths :: "codec \<Rightarrow> nat \<Rightarrow> bytes \<Rightarrow> int \<Rightarrow> int" where
  "sum_of_lengths c 0 index expected_len = expected_len"
| "sum_of_lengths c (Suc n) index expected_len =
     sum_of_lengths c n (drop 40 index) (u64 (expected_len + u64 (seg_length (decode_entry c index))))"

text \<open>\<open>Bytes::slice\<close> panics, here \<open>None\<close>, when the range is not inside the bytes.\<close>

definition bytes_slice :: "int \<Rightarrow> int \<Rightarrow> bytes \<Rightarrow> bytes option" where
  "bytes_slice start ending bs =
     (if start \<le> ending \<and> ending \<le> int (length bs) then Some (slice start (ending - start) bs) else None)"

fun check_blocks ::
    "codec \<Rightarrow> 'h Hasher \<Rightarrow> bytes \<Rightarrow> nat \<Rightarrow> nat \<Rightarrow> nat \<Rightarrow> bytes \<Rightarrow> report list \<Rightarrow> report list \<times> (unit, 'e) outcome" where
  "check_blocks c h bs batch 0 idx index out = (out, Ok ())"
| "check_blocks c h bs batch (Suc n) idx index out =
     (let s = decode_entry c index
      in case bytes_slice (u64 (seg_offset s)) (u64 (i64 (seg_offset s + seg_length s))) bs of
           Some partial \<Rightarrow>
             let data_crc = get_crc h partial
             in check_blocks c h bs batch n (Suc idx) (drop 40 index)
                  (if seg_crc s \<noteq> data_crc then out @ [Crc_differs (seg_block_id s) (seg_crc s) data_crc batch idx] else out)
         | None \<Rightarrow> (out, Panic))"

definition check_files :: "codec \<Rightarrow> 'h Hasher \<Rightarrow> bytes \<Rightarrow> bytes \<Rightarrow> report list \<times> (unit, 'e) outcome" where
  "check_files c h index bs =
     (let batch = length index div 40; expected_len = sum_of_lengths c batch index 0
      in if expected_len \<noteq> int (length bs) then ([Length_differs expected_len (int (length bs))], Ok ())
         else check_blocks c h bs batch batch 0 index [])"

text \<open>The arguments of the command line are optional for the parser and required by \<open>unwrap\<close>.\<close>

definition r1_tool ::
    "codec \<Rightarrow> 'h Hasher \<Rightarrow> (string \<Rightarrow> (bytes, 'e) outcome) \<Rightarrow> string option \<Rightarrow> string option \<Rightarrow> report list \<times> (unit, 'e) outcome" where
  "r1_tool c h read_file index_file_path data_file_path =
     (case (index_file_path, data_file_path) of
        (Some ip, Some dp) \<Rightarrow>
          run_then ([], read_file ip) (\<lambda>index out.
            run_then (out, read_file dp) (\<lambda>bs out. check_files c h index bs))
      | _ \<Rightarrow> ([], Panic))"

section \<open>What it reports\<close>

text \<open>The blocks whose checksum is not that of their data, with their positions.\<close>

definition wrong_crcs :: "'h Hasher \<Rightarrow> nat \<Rightarrow> nat \<Rightarrow> Block list \<Rightarrow> report list" where
  "wrong_crcs h batch idx bs =
     concat (map (\<lambda>(i, b). if crc b \<noteq> checksum h (data b) then [Crc_differs (block_id b) (crc b) (checksum h (data b)) batch i] else [])
       (zip [idx..<idx + length bs] bs))"

lemma wrong_crcs_simps:
  "wrong_crcs h batch idx [] = []"
  "wrong_crcs h batch idx (b # bs) =
     (if crc b \<noteq> checksum h (data b) then [Crc_differs (block_id b) (crc b) (checksum h (data b)) batch idx] else []) @
     wrong_crcs h batch (Suc idx) bs"
  by (simp_all add: wrong_crcs_def upt_conv_Cons del: upt_Suc)

lemma wrong_crcs_empty: "wrong_crcs h batch idx bs = [] \<longleftrightarrow> list_all (\<lambda>b. crc b = checksum h (data b)) bs"
  by (induction bs arbitrary: idx) (simp_all add: wrong_crcs_simps)

lemma sum_of_lengths_index:
  assumes "wire_codec c" and "list_all block_ok bs" and "0 \<le> off" and "off + int (length (payload bs)) < 2 ^ 63"
    and "0 \<le> acc" and "acc + int (length (payload bs)) < 2 ^ 63"
  shows "sum_of_lengths c (length bs) (index_bytes c off bs) acc = acc + int (length (payload bs))"
  using assms(2-)
proof (induction bs arbitrary: off acc)
  case (Cons b bs)
  have len: "length_of b = int (length (data b))" and ok: "block_ok b" using Cons.prems(1) by (auto simp: block_ok_def)
  let ?tail = "index_bytes c (off + int (length (data b))) bs"
  have dec: "decode_entry c (index_entry c off b @ ?tail) = segment_of b off"
    using Cons.prems by (intro wire_codec.decode_entry_index_entry [OF assms(1) ok]) (simp add: is_i64_def)
  have "u64 (acc + u64 (length_of b)) = acc + length_of b" using Cons.prems len by (simp add: u64_id)
  with Cons.IH [of "off + length_of b" "acc + length_of b"] Cons.prems len show ?case
    by (simp add: dec wire_codec.length_index_entry [OF assms(1)] segment_of_def del: decode_entry.simps)
qed simp

lemma check_blocks_index:
  assumes "wire_codec c" and "streaming_hasher h" and "list_all block_ok bs" and "int (length (pre @ payload bs)) < 2 ^ 63"
  shows "check_blocks c h (pre @ payload bs) batch (length bs) idx (index_bytes c (int (length pre)) bs) out =
    (out @ wrong_crcs h batch idx bs, Ok ())"
  using assms(3-)
proof (induction bs arbitrary: pre idx out)
  case (Cons b bs)
  have len: "length_of b = int (length (data b))" and ok: "block_ok b" using Cons.prems(1) by (auto simp: block_ok_def)
  let ?off = "int (length pre)"
  let ?tail = "index_bytes c (?off + int (length (data b))) bs"
  have dec: "decode_entry c (index_entry c ?off b @ ?tail) = segment_of b ?off"
    using Cons.prems by (intro wire_codec.decode_entry_index_entry [OF assms(1) ok]) (simp add: is_i64_def)
  have wrap: "u64 ?off = ?off" "u64 (?off + int (length (data b))) = ?off + int (length (data b))"
    using Cons.prems by (simp_all add: u64_id)
  have part: "bytes_slice (u64 ?off) (u64 (?off + int (length (data b)))) (pre @ data b @ payload bs) = Some (data b)"
    unfolding wrap by (simp add: bytes_slice_def slice_def)
  have crc: "get_crc h (data b) = checksum h (data b)" by (rule streaming_hasher.get_crc_checksum [OF assms(2)])
  show ?case
    using Cons.IH [of "pre @ data b" "Suc idx"] Cons.prems len
    by (simp add: dec wire_codec.length_index_entry [OF assms(1)] segment_of_def part crc wrong_crcs_simps Let_def del: decode_entry.simps)
qed (simp add: wrong_crcs_simps)

lemma length_index_bytes: "wire_codec c \<Longrightarrow> length (index_bytes c off bs) = 40 * length bs"
  by (induction bs arbitrary: off) (simp_all add: wire_codec.length_index_entry)

lemma check_files_exact:
  assumes "wire_codec c" and "streaming_hasher h" and "list_all block_ok bs" and "int (length (payload bs)) < 2 ^ 63"
  shows "check_files c h (index_bytes c 0 bs) (payload bs) = (wrong_crcs h (length bs) 0 bs, Ok ())"
  using sum_of_lengths_index [OF assms(1,3), of 0 0] assms(4)
  by (simp add: check_files_def length_index_bytes [OF assms(1)] Let_def check_blocks_index [OF assms(1-3), of "[]", simplified])

lemma check_files_truncated:
  assumes "wire_codec c" and "list_all block_ok bs" and "int (length (payload bs)) < 2 ^ 63" and "length bytes \<noteq> length (payload bs)"
  shows "check_files c h (index_bytes c 0 bs) bytes = ([Length_differs (int (length (payload bs))) (int (length bytes))], Ok ())"
  using sum_of_lengths_index [OF assms(1,2), of 0 0] assms(3,4)
  by (simp add: check_files_def length_index_bytes [OF assms(1)] Let_def)

text \<open>Reading a whole file from the tree of a disk.\<close>

definition fs_read :: "tree \<Rightarrow> string \<Rightarrow> (bytes, unit) outcome" where
  "fs_read t p = (case fs_get t (comps p) of Some (File b) \<Rightarrow> Ok b | _ \<Rightarrow> Err ())"

text \<open>
  C16. The checker is exact on the files that the server writes.  After any sequence of writes to usable local disks, run on the
  index and the data file of a partition it reports precisely the blocks whose checksum field is not the checksum of
  their data, in the order they were written; so it reports nothing exactly when all checksums are right.  The
  checksum that it computes in chunks is that of the whole data.
\<close>

theorem checker_exact:
  assumes "wire_codec c" and "streaming_hasher h" and "lf_ok c (\<lambda>_. None) st" and "quiet st" and "writes_ok ws"
    and "int (length (payload (concat (map snd ws)))) < 2 ^ 63" and "plain_name (app_id uid)" and "blocks_for uid ws \<noteq> []"
  shows "\<exists>st' d out. insert_all c get_hash ws st = (st', Ok ()) \<and> d \<in> set (local_disks st') \<and>
    r1_tool c h (fs_read (files d)) (Some (index_path uid)) (Some (data_path uid)) = (out, Ok ()) \<and>
    out = wrong_crcs h (length (blocks_for uid ws)) 0 (blocks_for uid ws) \<and>
    (out = [] \<longleftrightarrow> list_all (\<lambda>b. crc b = checksum h (data b)) (blocks_for uid ws))"
proof -
  let ?bs = "blocks_for uid ws"
  have "int (length (payload (written (\<lambda>_. None) uid))) + int (length (payload (concat (map snd ws)))) < 2 ^ 63" for uid
    using assms(6) by (simp add: written_def)
  then obtain st' W' where st': "insert_all c get_hash ws st = (st', Ok ())" "lf_ok c W' st'"
    and w: "\<And>uid. written W' uid = blocks_for uid ws"
    using insert_all_quiet [OF assms(3-5), of get_hash] by (auto simp: written_def)
  have "W' uid \<noteq> None" using w [of uid] assms(8) by (cases "W' uid") (auto simp: written_def)
  note f = lf_ok_written [OF st'(2) assms(7), unfolded w]
  obtain l :: LockedObj where l: "lock_disk l < length (local_disks st')"
      "fs_get (files (local_disks st' ! lock_disk l)) (data_comps uid) = Some (File (payload ?bs))"
      "fs_get (files (local_disks st' ! lock_disk l)) (index_comps uid) = Some (File (index_bytes c 0 ?bs))"
    using f(3) [OF \<open>W' uid \<noteq> None\<close>] unfolding part_ok_def Let_def by blast
  then have "r1_tool c h (fs_read (files (local_disks st' ! lock_disk l))) (Some (index_path uid)) (Some (data_path uid)) =
      (wrong_crcs h (length ?bs) 0 ?bs, Ok ())"
    using f(1,2) comps_paths [OF assms(7)]
    by (simp add: r1_tool_def fs_read_def check_files_exact [OF assms(1,2)])
  with st'(1) l(1) show ?thesis by (auto simp: wrong_crcs_empty intro: nth_mem)
qed

theorem checker_exact_witness:
  "\<exists>st' (d :: Disk). insert_all be_codec partition_id sample_writes sample_localfile = (st', Ok ()) \<and>
    r1_tool be_codec crc32 (fs_read (files d)) (Some (index_path (part ''a'' 0))) (Some (data_path (part ''a'' 0))) =
      (wrong_crcs crc32 2 0 [sample_block 1 3, sample_block 3 4], Ok ())"
proof -
  have "plain_name (app_id (part ''a'' 0))" by (simp add: part_def plain_name_def)
  moreover have bs: "blocks_for (part ''a'' 0) sample_writes = [sample_block 1 3, sample_block 3 4]"
    by (simp add: sample_writes_def part_def)
  ultimately obtain st' and d :: Disk where "insert_all be_codec partition_id sample_writes sample_localfile = (st', Ok ())"
      "r1_tool be_codec crc32 (fs_read (files d)) (Some (index_path (part ''a'' 0))) (Some (data_path (part ''a'' 0))) =
       (wrong_crcs crc32 (length [sample_block 1 3, sample_block 3 4]) 0 [sample_block 1 3, sample_block 3 4], Ok ())"
    using checker_exact [OF be.wire_codec_axioms crc32.streaming_hasher_axioms lf_ok_fresh(1) [OF sample_localfile_from]
        sample_localfile_quiet sample_writes_ok, of "part ''a'' 0" partition_id, unfolded bs] by blast
  then show ?thesis by (simp add: numeral_2_eq_2) blast
qed

end
