(* ===== verification/Hadoop_Client.thy ===== *)
theory Hadoop_Client
  imports Hdfs
begin

text \<open>
  The two clients of the remote file system behind \<open>HdfsDelegator\<close>: \<^verbatim>\<open>store/hadoop/hdfs_native.rs\<close> and
  \<^verbatim>\<open>store/hadoop/hdrs.rs\<close>.  They wrap the crates \<open>hdfs_native\<close> and \<open>hdrs\<close>, which are arguments: records of operations on an
  unknown file system.  The locales \<open>native_fs\<close> and \<open>hdrs_fs\<close> state what is relied on of the crates, and \<open>sublocale\<close> turns
  each into the contract \<open>hdfs_delegator\<close> of the remote store, so that all lemmas of the store hold over either client.
\<close>

section \<open>The root of a client\<close>

record Url =
  url_scheme :: string
  url_host :: "string option"
  url_port :: "nat option"
  url_path :: string

record 'k HadoopClient =
  inner_client :: 'k
  inner_root :: string

text \<open>\<open>url.host().unwrap()\<close> panics without a host.  The port is not part of the header.\<close>

definition url_header :: "Url \<Rightarrow> (string, 'e) outcome" where
  "url_header u = (case url_host u of Some host \<Rightarrow> Ok (url_scheme u @ ''://'' @ host) | None \<Rightarrow> Panic)"

definition wrap_root :: "'k HadoopClient \<Rightarrow> string \<Rightarrow> string" where
  "wrap_root cl path = inner_root cl @ ''/'' @ path"

lemma wrap_root_inject [simp]: "wrap_root cl p = wrap_root cl q \<longleftrightarrow> p = q"
  by (simp add: wrap_root_def)

section \<open>The native client\<close>

record ('k, 'w, 'f) NativeFs =
  nf_new :: "string \<Rightarrow> (string, string) dmap \<Rightarrow> ('k, anyhow) outcome"
  nf_create :: "'k \<Rightarrow> string \<Rightarrow> 'f \<Rightarrow> 'f \<times> ('w, anyhow) outcome"
  nf_append :: "'k \<Rightarrow> string \<Rightarrow> 'f \<Rightarrow> 'f \<times> ('w, anyhow) outcome"
  nf_write :: "'w \<Rightarrow> bytes \<Rightarrow> 'f \<Rightarrow> 'f \<times> (int, anyhow) outcome"
  nf_close :: "'w \<Rightarrow> 'f \<Rightarrow> 'f \<times> (unit, anyhow) outcome"
  nf_get_file_info :: "'k \<Rightarrow> string \<Rightarrow> 'f \<Rightarrow> (int, anyhow) outcome"
  nf_mkdirs :: "'k \<Rightarrow> string \<Rightarrow> int \<Rightarrow> bool \<Rightarrow> 'f \<Rightarrow> 'f \<times> (unit, anyhow) outcome"
  nf_delete :: "'k \<Rightarrow> string \<Rightarrow> bool \<Rightarrow> 'f \<Rightarrow> 'f \<times> (bool, anyhow) outcome"

definition native_new ::
    "('k, 'w, 'f) NativeFs \<Rightarrow> (string \<Rightarrow> (Url, anyhow) outcome) \<Rightarrow> string \<Rightarrow> (string, string) dmap \<Rightarrow> ('k HadoopClient, anyhow) outcome" where
  "native_new fs url_parse root_url configs =
     and_then (url_parse root_url) (\<lambda>url.
     and_then (url_header url) (\<lambda>header.
     and_then (nf_new fs header configs) (\<lambda>client.
       Ok \<lparr>inner_client = client, inner_root = url_path url\<rparr>)))"

definition native_touch :: "('k, 'w, 'f) NativeFs \<Rightarrow> 'k HadoopClient \<Rightarrow> string \<Rightarrow> 'f \<Rightarrow> 'f \<times> (unit, anyhow) outcome" where
  "native_touch fs cl file_path f =
     run_then (nf_create fs (inner_client cl) (wrap_root cl file_path) f) (\<lambda>w f. nf_close fs w f)"

text \<open>\<open>From<HdfsError>\<close> makes every error of the crate \<open>WorkerError::Other\<close>.\<close>

definition native_append ::
    "('k, 'w, 'f) NativeFs \<Rightarrow> 'k HadoopClient \<Rightarrow> string \<Rightarrow> BytesWrapper \<Rightarrow> 'f \<Rightarrow> 'f \<times> (unit, worker_error) outcome" where
  "native_append fs cl file_path d f =
     (let (f', r) =
        run_then (nf_append fs (inner_client cl) (wrap_root cl file_path) f) (\<lambda>w f.
        run_then (nf_write fs w (wrapper_freeze d) f) (\<lambda>_ f. nf_close fs w f))
      in (f', map_err Other r))"

definition native_len :: "('k, 'w, 'f) NativeFs \<Rightarrow> 'k HadoopClient \<Rightarrow> string \<Rightarrow> 'f \<Rightarrow> (int, anyhow) outcome" where
  "native_len fs cl file_path f = and_then (nf_get_file_info fs (inner_client cl) (wrap_root cl file_path) f) (\<lambda>n. Ok (u64 n))"

definition native_create_dir :: "('k, 'w, 'f) NativeFs \<Rightarrow> 'k HadoopClient \<Rightarrow> string \<Rightarrow> 'f \<Rightarrow> 'f \<times> (unit, anyhow) outcome" where
  "native_create_dir fs cl dir f = nf_mkdirs fs (inner_client cl) (wrap_root cl dir) 777 True f"

definition native_delete_dir :: "('k, 'w, 'f) NativeFs \<Rightarrow> 'k HadoopClient \<Rightarrow> string \<Rightarrow> 'f \<Rightarrow> 'f \<times> (unit, anyhow) outcome" where
  "native_delete_dir fs cl dir f =
     run_then (nf_delete fs (inner_client cl) (wrap_root cl dir) True f) (\<lambda>_ f. (f, Ok ()))"

definition native_ops ::
    "('k, 'w, 'f) NativeFs \<Rightarrow> (string \<Rightarrow> (Url, anyhow) outcome) \<Rightarrow> ('k HadoopClient, 'f) HdfsDelegator" where
  "native_ops fs url_parse = \<lparr>hd_touch = native_touch fs, hd_append = native_append fs, hd_create_dir = native_create_dir fs,
     hd_delete_dir = native_delete_dir fs, hd_connect = native_new fs url_parse\<rparr>"

section \<open>The client over libhdfs\<close>

record OpenOptions =
  opt_create :: bool
  opt_write :: bool
  opt_append :: bool

record ('k, 'w, 'f) HdrsFs =
  hf_connect :: "string \<Rightarrow> (string, string) dmap \<Rightarrow> ('k, io_error_kind) outcome"
  hf_open :: "'k \<Rightarrow> OpenOptions \<Rightarrow> string \<Rightarrow> 'f \<Rightarrow> 'f \<times> ('w, io_error_kind) outcome"
  hf_write_all :: "'w \<Rightarrow> bytes \<Rightarrow> 'f \<Rightarrow> 'f \<times> (unit, io_error_kind) outcome"
  hf_flush :: "'w \<Rightarrow> 'f \<Rightarrow> 'f \<times> (unit, io_error_kind) outcome"
  hf_metadata_len :: "'k \<Rightarrow> string \<Rightarrow> 'f \<Rightarrow> (int, io_error_kind) outcome"
  hf_create_dir :: "'k \<Rightarrow> string \<Rightarrow> 'f \<Rightarrow> 'f \<times> (unit, io_error_kind) outcome"
  hf_remove_dir_all :: "'k \<Rightarrow> string \<Rightarrow> 'f \<Rightarrow> 'f \<times> (unit, io_error_kind) outcome"

definition io_anyhow :: "('a, io_error_kind) outcome \<Rightarrow> ('a, anyhow) outcome" where
  "io_anyhow = map_err (\<lambda>_. Any_io)"

definition hdrs_new ::
    "('k, 'w, 'f) HdrsFs \<Rightarrow> (string \<Rightarrow> (Url, anyhow) outcome) \<Rightarrow> string \<Rightarrow> (string, string) dmap \<Rightarrow> ('k HadoopClient, anyhow) outcome" where
  "hdrs_new fs url_parse root_url configs =
     and_then (url_parse root_url) (\<lambda>url.
     and_then (url_header url) (\<lambda>header.
     and_then (io_anyhow (hf_connect fs header configs)) (\<lambda>client.
       Ok \<lparr>inner_client = client, inner_root = url_path url\<rparr>)))"

definition hdrs_touch :: "('k, 'w, 'f) HdrsFs \<Rightarrow> 'k HadoopClient \<Rightarrow> string \<Rightarrow> 'f \<Rightarrow> 'f \<times> (unit, anyhow) outcome" where
  "hdrs_touch fs cl file_path f =
     (let (f', r) =
        run_then (hf_open fs (inner_client cl) \<lparr>opt_create = True, opt_write = True, opt_append = False\<rparr> (wrap_root cl file_path) f)
          (\<lambda>w f. hf_flush fs w f)
      in (f', io_anyhow r))"

definition hdrs_append ::
    "('k, 'w, 'f) HdrsFs \<Rightarrow> 'k HadoopClient \<Rightarrow> string \<Rightarrow> BytesWrapper \<Rightarrow> 'f \<Rightarrow> 'f \<times> (unit, worker_error) outcome" where
  "hdrs_append fs cl file_path d f =
     (let (f', r) =
        run_then (hf_open fs (inner_client cl) \<lparr>opt_create = False, opt_write = False, opt_append = True\<rparr> (wrap_root cl file_path) f)
          (\<lambda>w f. run_then (hf_write_all fs w (wrapper_freeze d) f) (\<lambda>_ f. hf_flush fs w f))
      in (f', map_err from_io_error r))"

definition hdrs_len :: "('k, 'w, 'f) HdrsFs \<Rightarrow> 'k HadoopClient \<Rightarrow> string \<Rightarrow> 'f \<Rightarrow> (int, anyhow) outcome" where
  "hdrs_len fs cl file_path f = io_anyhow (hf_metadata_len fs (inner_client cl) (wrap_root cl file_path) f)"

definition hdrs_create_dir :: "('k, 'w, 'f) HdrsFs \<Rightarrow> 'k HadoopClient \<Rightarrow> string \<Rightarrow> 'f \<Rightarrow> 'f \<times> (unit, anyhow) outcome" where
  "hdrs_create_dir fs cl dir f = apsnd io_anyhow (hf_create_dir fs (inner_client cl) (wrap_root cl dir) f)"

definition hdrs_delete_dir :: "('k, 'w, 'f) HdrsFs \<Rightarrow> 'k HadoopClient \<Rightarrow> string \<Rightarrow> 'f \<Rightarrow> 'f \<times> (unit, anyhow) outcome" where
  "hdrs_delete_dir fs cl dir f = apsnd io_anyhow (hf_remove_dir_all fs (inner_client cl) (wrap_root cl dir) f)"

definition hdrs_ops ::
    "('k, 'w, 'f) HdrsFs \<Rightarrow> (string \<Rightarrow> (Url, anyhow) outcome) \<Rightarrow> ('k HadoopClient, 'f) HdfsDelegator" where
  "hdrs_ops fs url_parse = \<lparr>hd_touch = hdrs_touch fs, hd_append = hdrs_append fs, hd_create_dir = hdrs_create_dir fs,
     hd_delete_dir = hdrs_delete_dir fs, hd_connect = hdrs_new fs url_parse\<rparr>"

section \<open>The clients keep the contract of the remote store\<close>

text \<open>What a file holds as a client sees it: paths are relative to the root of the client.\<close>

definition rooted :: "('k \<Rightarrow> 'f \<Rightarrow> string \<Rightarrow> bytes option) \<Rightarrow> 'k HadoopClient \<Rightarrow> 'f \<Rightarrow> string \<Rightarrow> bytes option" where
  "rooted content cl f p = content (inner_client cl) f (wrap_root cl p)"

text \<open>
  What is relied on of the crate \<open>hdfs_native\<close>.  Creating, opening and directories touch no other file, opening for append changes
  nothing, a created file is empty, and once it is closed a file ends with what was written to it.
\<close>

locale native_fs =
  fixes fs :: "('k, 'w, 'f) NativeFs" and content :: "'k \<Rightarrow> 'f \<Rightarrow> string \<Rightarrow> bytes option" and writes :: "'w \<Rightarrow> 'k \<times> string"
  assumes create_opens: "snd (nf_create fs k p f) = Ok w \<Longrightarrow> writes w = (k, p)"
    and create_other: "q \<noteq> p \<Longrightarrow> content k (fst (nf_create fs k p f)) q = content k f q"
    and create_fails: "\<not> is_ok (snd (nf_create fs k p f)) \<Longrightarrow> content k (fst (nf_create fs k p f)) p = content k f p"
    and create_empty: "snd (nf_create fs k p f) = Ok w \<Longrightarrow> file_bytes (content k (fst (nf_close fs w (fst (nf_create fs k p f)))) p) = []"
    and append_opens: "snd (nf_append fs k p f) = Ok w \<Longrightarrow> writes w = (k, p)"
    and append_same: "content k (fst (nf_append fs k p f)) q = content k f q"
    and write_other: "writes w = (k, p) \<Longrightarrow> q \<noteq> p \<Longrightarrow> content k (fst (nf_write fs w bs f)) q = content k f q"
    and close_other: "writes w = (k, p) \<Longrightarrow> q \<noteq> p \<Longrightarrow> content k (fst (nf_close fs w f)) q = content k f q"
    and write_close: "writes w = (k, p) \<Longrightarrow> is_ok (snd (nf_write fs w bs f)) \<Longrightarrow> is_ok (snd (nf_close fs w (fst (nf_write fs w bs f)))) \<Longrightarrow>
      content k (fst (nf_close fs w (fst (nf_write fs w bs f)))) p = Some (file_bytes (content k f p) @ bs)"
    and no_panic: "snd (nf_append fs k p f) \<noteq> Panic" "snd (nf_write fs w bs f) \<noteq> Panic" "snd (nf_close fs w f) \<noteq> Panic"
    and mkdirs_same: "content k (fst (nf_mkdirs fs k d m b f)) q = content k f q"

text \<open>The same of the crate \<open>hdrs\<close>, where \<open>flush\<close> takes the place of \<open>close\<close>; creating a file that exists may keep it.\<close>

locale hdrs_fs =
  fixes fs :: "('k, 'w, 'f) HdrsFs" and content :: "'k \<Rightarrow> 'f \<Rightarrow> string \<Rightarrow> bytes option" and writes :: "'w \<Rightarrow> 'k \<times> string"
  assumes open_opens: "snd (hf_open fs k opts p f) = Ok w \<Longrightarrow> writes w = (k, p)"
    and open_other: "q \<noteq> p \<Longrightarrow> content k (fst (hf_open fs k opts p f)) q = content k f q"
    and open_fails: "\<not> is_ok (snd (hf_open fs k opts p f)) \<Longrightarrow> content k (fst (hf_open fs k opts p f)) p = content k f p"
    and create_empty: "opt_create opts \<Longrightarrow> opt_write opts \<Longrightarrow> file_bytes (content k f p) = [] \<Longrightarrow> snd (hf_open fs k opts p f) = Ok w \<Longrightarrow>
      file_bytes (content k (fst (hf_flush fs w (fst (hf_open fs k opts p f)))) p) = []"
    and append_same: "opt_append opts \<Longrightarrow> content k (fst (hf_open fs k opts p f)) q = content k f q"
    and write_other: "writes w = (k, p) \<Longrightarrow> q \<noteq> p \<Longrightarrow> content k (fst (hf_write_all fs w bs f)) q = content k f q"
    and flush_other: "writes w = (k, p) \<Longrightarrow> q \<noteq> p \<Longrightarrow> content k (fst (hf_flush fs w f)) q = content k f q"
    and write_flush: "writes w = (k, p) \<Longrightarrow> is_ok (snd (hf_write_all fs w bs f)) \<Longrightarrow> is_ok (snd (hf_flush fs w (fst (hf_write_all fs w bs f)))) \<Longrightarrow>
      content k (fst (hf_flush fs w (fst (hf_write_all fs w bs f)))) p = Some (file_bytes (content k f p) @ bs)"
    and no_panic: "snd (hf_open fs k opts p f) \<noteq> Panic" "snd (hf_write_all fs w bs f) \<noteq> Panic" "snd (hf_flush fs w f) \<noteq> Panic"
    and create_dir_same: "content k (fst (hf_create_dir fs k d f)) q = content k f q"

text \<open>A sequence of steps, seen from its first step.\<close>

lemma run_then_fst_snd:
  "run_then m g = (case snd m of Ok x \<Rightarrow> g x (fst m) | Err e \<Rightarrow> (fst m, Err e) | Panic \<Rightarrow> (fst m, Panic))"
  by (cases "(m, g)" rule: run_then.cases) auto

text \<open>Create and finish: other files stay, and an empty file stays empty.\<close>

lemma create_through:
  fixes view :: "'f \<Rightarrow> string \<Rightarrow> bytes option"
  assumes "\<And>q. q \<noteq> p \<Longrightarrow> view (fst (opn f)) q = view f q"
    and "\<not> is_ok (snd (opn f)) \<Longrightarrow> view (fst (opn f)) p = view f p"
    and "\<And>h f q. snd (opn f) = Ok h \<Longrightarrow> q \<noteq> p \<Longrightarrow> view (fst (fin h (fst (opn f)))) q = view (fst (opn f)) q"
    and "\<And>h. snd (opn f) = Ok h \<Longrightarrow> file_bytes (view f p) = [] \<Longrightarrow> file_bytes (view (fst (fin h (fst (opn f)))) p) = []"
  shows "q \<noteq> p \<Longrightarrow> view (fst (run_then (opn f) fin)) q = view f q"
    and "file_bytes (view f p) = [] \<Longrightarrow> file_bytes (view (fst (run_then (opn f) fin)) p) = []"
  using assms by (auto simp: run_then_fst_snd split: outcome.split)

text \<open>Open, write, finish: other files stay, and after success the file has the new bytes at its end.\<close>

lemma write_through:
  fixes view :: "'f \<Rightarrow> string \<Rightarrow> bytes option"
  assumes "\<And>q. view (fst (opn f)) q = view f q"
    and "\<And>h f1 q. snd (opn f) = Ok h \<Longrightarrow> q \<noteq> p \<Longrightarrow> view (fst (wr h f1)) q = view f1 q"
    and "\<And>h f1 q. snd (opn f) = Ok h \<Longrightarrow> q \<noteq> p \<Longrightarrow> view (fst (fin h f1)) q = view f1 q"
    and "\<And>h f1. snd (opn f) = Ok h \<Longrightarrow> is_ok (snd (wr h f1)) \<Longrightarrow> is_ok (snd (fin h (fst (wr h f1)))) \<Longrightarrow>
      view (fst (fin h (fst (wr h f1)))) p = Some (file_bytes (view f1 p) @ bs)"
    and "run_then (opn f) (\<lambda>h f. run_then (wr h f) (\<lambda>_ f. fin h f)) = (f', r)"
  shows "q \<noteq> p \<Longrightarrow> view f' q = view f q" and "is_ok r \<Longrightarrow> view f' p = Some (file_bytes (view f p) @ bs)"
proof -
  let ?run = "run_then (opn f) (\<lambda>h f. run_then (wr h f) (\<lambda>_ f. fin h f))"
  have r: "f' = fst ?run" "r = snd ?run" using assms(5) by simp_all
  show "view f' q = view f q" if "q \<noteq> p"
    unfolding r using that assms(1-3) by (auto simp: run_then_fst_snd split: outcome.split)
  show "view f' p = Some (file_bytes (view f p) @ bs)" if ok: "is_ok r"
  proof (cases "snd (opn f)")
    case (Ok h)
    note w = assms(4) [OF Ok, of "fst (opn f)"] assms(1)
    show ?thesis using r ok w Ok by (cases "snd (wr h (fst (opn f)))") (auto simp: run_then_fst_snd)
  qed (use r ok in \<open>auto simp: run_then_fst_snd\<close>)
qed

lemma write_through_returns:
  assumes "snd (opn f) \<noteq> Panic" and "\<And>h f. snd (wr h f) \<noteq> Panic" and "\<And>h f. snd (fin h f) \<noteq> Panic"
  shows "snd (run_then (opn f) (\<lambda>h f. run_then (wr h f) (\<lambda>_ f. fin h f))) \<noteq> Panic"
  using assms by (auto simp: run_then_fst_snd split: outcome.split)

context native_fs
begin

lemma delegator: "hdfs_delegator (native_ops fs url_parse) (rooted content)"
proof
  fix cl :: "'k HadoopClient" and p f f' q and r :: "(unit, anyhow) outcome"
  let ?k = "inner_client cl" and ?p = "wrap_root cl p"
  assume "hd_touch (native_ops fs url_parse) cl p f = (f', r)"
  then have t: "f' = fst (run_then (nf_create fs ?k ?p f) (nf_close fs))"
    by (simp add: native_ops_def native_touch_def)
  note through = create_through [of ?p "content ?k" "nf_create fs ?k ?p" f "nf_close fs"]
  show "rooted content cl f' q = rooted content cl f q" if "q \<noteq> p"
    using through(1) that unfolding rooted_def t by (simp add: create_other create_fails create_empty close_other create_opens)
  show "file_bytes (rooted content cl f' p) = []" if "file_bytes (rooted content cl f p) = []"
    using through(2) that unfolding rooted_def t by (simp add: create_other create_fails create_empty close_other create_opens)
next
  fix cl :: "'k HadoopClient" and p w f f' q and e :: "(unit, worker_error) outcome"
  let ?k = "inner_client cl" and ?p = "wrap_root cl p" and ?bs = "wrapper_freeze w"
  let ?run = "run_then (nf_append fs ?k ?p f) (\<lambda>h f. run_then (nf_write fs h ?bs f) (\<lambda>_ f. nf_close fs h f))"
  have app: "hd_append (native_ops fs url_parse) cl p w f = (fst ?run, map_err Other (snd ?run))"
    by (simp add: native_ops_def native_append_def split_beta)
  note through = write_through [where view = "content ?k" and opn = "nf_append fs ?k ?p" and wr = "\<lambda>h. nf_write fs h ?bs" and
    fin = "nf_close fs" and p = ?p and bs = ?bs, OF append_same write_other close_other write_close prod.collapse [symmetric]]
  show "rooted content cl f' q = rooted content cl f q"
    if "hd_append (native_ops fs url_parse) cl p w f = (f', e)" "q \<noteq> p"
    using that through(1) by (auto simp: app rooted_def append_opens)
  show "rooted content cl f' p = Some (file_bytes (rooted content cl f p) @ wrapper_freeze w)"
    if "hd_append (native_ops fs url_parse) cl p w f = (f', Ok ())"
    using that through(2) by (cases "snd ?run") (auto simp: app rooted_def append_opens)
  show "hd_append (native_ops fs url_parse) cl p w f \<noteq> (f', Panic)"
    using write_through_returns [of "nf_append fs ?k ?p" f "\<lambda>h. nf_write fs h ?bs" "nf_close fs"] no_panic
    by (cases "snd ?run") (auto simp: app)
next
  show "rooted content cl f' q = rooted content cl f q" if "hd_create_dir (native_ops fs url_parse) cl d f = (f', r)" for cl d f f' r q
    using that mkdirs_same [of "inner_client cl" "wrap_root cl d" 777 True f]
    by (simp add: native_ops_def native_create_dir_def rooted_def)
qed

end

sublocale native_fs \<subseteq> native: hdfs_delegator "native_ops fs url_parse" "rooted content" for url_parse
  by (rule delegator)

context hdrs_fs
begin

lemma delegator: "hdfs_delegator (hdrs_ops fs url_parse) (rooted content)"
proof
  fix cl :: "'k HadoopClient" and p f f' q and r :: "(unit, anyhow) outcome"
  let ?k = "inner_client cl" and ?p = "wrap_root cl p" and ?o = "\<lparr>opt_create = True, opt_write = True, opt_append = False\<rparr>"
  assume "hd_touch (hdrs_ops fs url_parse) cl p f = (f', r)"
  then have t: "f' = fst (run_then (hf_open fs ?k ?o ?p f) (hf_flush fs))"
    by (simp add: hdrs_ops_def hdrs_touch_def split_beta)
  note through = create_through [of ?p "content ?k" "hf_open fs ?k ?o ?p" f "hf_flush fs"]
  show "rooted content cl f' q = rooted content cl f q" if "q \<noteq> p"
    using through(1) that unfolding rooted_def t by (simp add: open_other open_fails create_empty flush_other open_opens)
  show "file_bytes (rooted content cl f' p) = []" if "file_bytes (rooted content cl f p) = []"
    using through(2) that unfolding rooted_def t by (simp add: open_other open_fails create_empty flush_other open_opens)
next
  fix cl :: "'k HadoopClient" and p w f f' q and e :: "(unit, worker_error) outcome"
  let ?k = "inner_client cl" and ?p = "wrap_root cl p" and ?bs = "wrapper_freeze w"
    and ?o = "\<lparr>opt_create = False, opt_write = False, opt_append = True\<rparr>"
  let ?run = "run_then (hf_open fs ?k ?o ?p f) (\<lambda>h f. run_then (hf_write_all fs h ?bs f) (\<lambda>_ f. hf_flush fs h f))"
  have app: "hd_append (hdrs_ops fs url_parse) cl p w f = (fst ?run, map_err from_io_error (snd ?run))"
    by (simp add: hdrs_ops_def hdrs_append_def split_beta)
  note through = write_through [where view = "content ?k" and opn = "hf_open fs ?k ?o ?p" and wr = "\<lambda>h. hf_write_all fs h ?bs" and
    fin = "hf_flush fs" and p = ?p and bs = ?bs, OF append_same write_other flush_other write_flush prod.collapse [symmetric]]
  show "rooted content cl f' q = rooted content cl f q"
    if "hd_append (hdrs_ops fs url_parse) cl p w f = (f', e)" "q \<noteq> p"
    using that through(1) by (auto simp: app rooted_def open_opens)
  show "rooted content cl f' p = Some (file_bytes (rooted content cl f p) @ wrapper_freeze w)"
    if "hd_append (hdrs_ops fs url_parse) cl p w f = (f', Ok ())"
    using that through(2) by (cases "snd ?run") (auto simp: app rooted_def open_opens)
  show "hd_append (hdrs_ops fs url_parse) cl p w f \<noteq> (f', Panic)"
    using write_through_returns [of "hf_open fs ?k ?o ?p" f "\<lambda>h. hf_write_all fs h ?bs" "hf_flush fs"] no_panic
    by (cases "snd ?run") (auto simp: app)
next
  show "rooted content cl f' q = rooted content cl f q" if "hd_create_dir (hdrs_ops fs url_parse) cl d f = (f', r)" for cl d f f' r q
    using that create_dir_same [of "inner_client cl" "wrap_root cl d" f]
    by (auto simp: hdrs_ops_def hdrs_create_dir_def rooted_def apsnd_def map_prod_def split: prod.splits)
qed

end

sublocale hdrs_fs \<subseteq> libhdfs: hdfs_delegator "hdrs_ops fs url_parse" "rooted content" for url_parse
  by (rule delegator)

section \<open>Errors, modes and addresses\<close>

text \<open>The native client reports every failed write as \<open>Other\<close>, so over it the store never sees that memory ran out.\<close>

lemma native_errors_other: "snd (hd_append (native_ops fs url_parse) cl p w f) = Err e \<Longrightarrow> \<exists>x. e = Other x"
  by (auto simp: native_ops_def native_append_def split_beta elim!: map_err.elims)

lemma hdrs_out_of_memory:
  "snd (hf_open fs (inner_client cl) \<lparr>opt_create = False, opt_write = False, opt_append = True\<rparr> (wrap_root cl p) f) = Err Kind_OutOfMemory \<Longrightarrow>
   snd (hd_append (hdrs_ops fs url_parse) cl p w f) = Err (OUT_OF_MEMORY Any_io)"
  by (simp add: hdrs_ops_def hdrs_append_def run_then_fst_snd from_io_error_def)

text \<open>Mode bits of a file: for the owner, the group and others, read is 4, write is 2 and enter is 1.\<close>

definition owner_bits :: "int \<Rightarrow> int" where
  "owner_bits mode = mode div 64 mod 8"

definition everyone :: int where
  "everyone = 7 * 64 + 7 * 8 + 7"

text \<open>
  The decimal number 777 as mode bits lets the owner of a directory read it, but neither write to it nor enter
  it; the mode that allows everything is the octal 777.
\<close>

lemma create_dir_mode:
  "hd_create_dir (native_ops fs url_parse) cl d f = nf_mkdirs fs (inner_client cl) (wrap_root cl d) 777 True f \<and>
   owner_bits 777 = 4 \<and> everyone \<noteq> 777"
  by (simp add: native_ops_def native_create_dir_def owner_bits_def everyone_def)

text \<open>The port of the address of a remote storage makes no difference.\<close>

lemma port_ignored:
  assumes "url_parse a = Ok u" and "url_parse b = Ok (u\<lparr>url_port := port\<rparr>)"
  shows "hd_connect (native_ops fs url_parse) a conf = hd_connect (native_ops fs url_parse) b conf"
    and "hd_connect (hdrs_ops gs url_parse) a conf = hd_connect (hdrs_ops gs url_parse) b conf"
  using assms by (simp_all add: native_ops_def native_new_def hdrs_ops_def hdrs_new_def url_header_def split: option.split)

section \<open>File systems in memory\<close>

text \<open>Files by path; the handle of an open file is its path.  A file that exists cannot be created again.\<close>

type_synonym files = "(string, bytes) dmap"

definition mem_open_new :: "string \<Rightarrow> 'e \<Rightarrow> files \<Rightarrow> files \<times> (string, 'e) outcome" where
  "mem_open_new p e f = (if dm_contains f p then (f, Err e) else (dm_insert p [] f, Ok p))"

definition mem_open_old :: "string \<Rightarrow> 'e \<Rightarrow> files \<Rightarrow> files \<times> (string, 'e) outcome" where
  "mem_open_old p e f = (f, if dm_contains f p then Ok p else Err e)"

definition mem_write :: "string \<Rightarrow> bytes \<Rightarrow> 'a \<Rightarrow> files \<Rightarrow> files \<times> ('a, 'e) outcome" where
  "mem_write h bs n f = (dm_insert h (file_bytes (dm_get f h) @ bs) f, Ok n)"

definition mem_native :: "(unit, string, files) NativeFs" where
  "mem_native = \<lparr>nf_new = (\<lambda>header conf. Ok ()), nf_create = (\<lambda>k p. mem_open_new p Any_io), nf_append = (\<lambda>k p. mem_open_old p Any_io),
     nf_write = (\<lambda>h bs. mem_write h bs (int (length bs))), nf_close = (\<lambda>h f. (f, Ok ())),
     nf_get_file_info = (\<lambda>k p f. case dm_get f p of Some b \<Rightarrow> Ok (int (length b)) | None \<Rightarrow> Err Any_io),
     nf_mkdirs = (\<lambda>k d m b f. (f, Ok ())), nf_delete = (\<lambda>k d b f. (filter (\<lambda>e. \<not> starts_with (fst e) d) f, Ok True))\<rparr>"

definition mem_hdrs :: "(unit, string, files) HdrsFs" where
  "mem_hdrs = \<lparr>hf_connect = (\<lambda>header conf. Ok ()),
     hf_open = (\<lambda>k opts p. if opt_append opts then mem_open_old p Kind_other else mem_open_new p Kind_other),
     hf_write_all = (\<lambda>h bs. mem_write h bs ()), hf_flush = (\<lambda>h f. (f, Ok ())),
     hf_metadata_len = (\<lambda>k p f. case dm_get f p of Some b \<Rightarrow> Ok (int (length b)) | None \<Rightarrow> Err Kind_other),
     hf_create_dir = (\<lambda>k d f. (f, Ok ())), hf_remove_dir_all = (\<lambda>k d f. (filter (\<lambda>e. \<not> starts_with (fst e) d) f, Ok ()))\<rparr>"

lemmas mem_fs_simps = mem_native_def mem_hdrs_def mem_open_new_def mem_open_old_def mem_write_def file_bytes_def dm_simps

definition mem_view :: "unit \<Rightarrow> files \<Rightarrow> string \<Rightarrow> bytes option" where
  "mem_view k f = dm_get f"

interpretation mem_native: native_fs mem_native mem_view "Pair ()"
  by unfold_locales (auto simp: mem_fs_simps mem_view_def split: if_splits)

interpretation mem_hdrs: hdrs_fs mem_hdrs mem_view "Pair ()"
  by unfold_locales (auto simp: mem_fs_simps mem_view_def split: if_splits)

text \<open>
  C19. Both clients implement what the remote store is verified against.  Over a file system that does what its crate
  documents, creating, appending and making directories through the client, with all paths under the root of the client, change
  no other file, leave an empty file empty, and an append that reports success has added exactly its bytes at the end; it never
  panics.
\<close>

theorem clients_implement_delegator:
  "(native_fs nfs content nwrites \<longrightarrow> hdfs_delegator (native_ops nfs url_parse) (rooted content)) \<and>
   (hdrs_fs hfs content' hwrites \<longrightarrow> hdfs_delegator (hdrs_ops hfs url_parse) (rooted content'))"
  by (blast intro: native_fs.delegator hdrs_fs.delegator)

definition sample_client :: "unit HadoopClient" where
  "sample_client = \<lparr>inner_client = (), inner_root = ''/r''\<rparr>"

theorem clients_implement_delegator_witness:
  "rooted mem_view sample_client
     (fst (hd_append (native_ops mem_native (\<lambda>_. Err Any_io)) sample_client ''a'' (Direct [1, 2]) [(''/r/a'', [7])])) ''a'' = Some [7, 1, 2] \<and>
   rooted mem_view sample_client
     (fst (hd_append (hdrs_ops mem_hdrs (\<lambda>_. Err Any_io)) sample_client ''a'' (Direct [1, 2]) [(''/r/a'', [7])])) ''a'' = Some [7, 1, 2]"
proof -
  let ?n = "native_ops mem_native (\<lambda>_. Err Any_io)" and ?h = "hdrs_ops mem_hdrs (\<lambda>_. Err Any_io)"
  have c: "hdfs_delegator ?n (rooted mem_view)" "hdfs_delegator ?h (rooted mem_view)"
    using clients_implement_delegator [of mem_native mem_view "Pair ()" "\<lambda>_. Err Any_io" mem_hdrs mem_view "Pair ()"]
      mem_native.native_fs_axioms mem_hdrs.hdrs_fs_axioms by blast+
  have a: "hd_append ?n sample_client ''a'' (Direct [1, 2]) [(''/r/a'', [7])] = ([(''/r/a'', [7, 1, 2])], Ok ())"
    "hd_append ?h sample_client ''a'' (Direct [1, 2]) [(''/r/a'', [7])] = ([(''/r/a'', [7, 1, 2])], Ok ())"
    by code_simp+
  have "file_bytes (rooted mem_view sample_client [(''/r/a'', [7])] ''a'') = [7]" by code_simp
  with hdfs_delegator.append_ok [OF c(1) a(1)] hdfs_delegator.append_ok [OF c(2) a(2)] show ?thesis by (simp add: a)
qed

end
