(* ===== verification/Metric_Registry.thy ===== *)
theory Metric_Registry
  imports Readable_Size
begin

text \<open>
  The metrics of the server and their registration: \<^verbatim>\<open>metric.rs\<close> and the handler of \<^verbatim>\<open>http/metrics.rs\<close>.

  A metric is a \<open>Lazy\<close> static: it is created at its first use, and some macros register it in a registry at that moment,
  \<open>register_*_vec_with_registry!\<close> in the \<open>REGISTRY\<close> of the server and \<open>register_*_vec!\<close> in the default registry of the crate.
  \<open>register_custom_metrics\<close> adds most of them to \<open>REGISTRY\<close> when the server starts.  A registry is the \<open>prometheus\<close> crate's, so
  its operations are an argument; \<open>prometheus_registry\<close> is what the crate documents: a name can be registered once.
\<close>

section \<open>Registries\<close>

record 'r RegistryOps =
  reg_new :: 'r
  reg_register :: "string \<Rightarrow> 'r \<Rightarrow> ('r, string) outcome"
  reg_names :: "'r \<Rightarrow> string list" \<comment> \<open>the registered families, in the order of \<open>gather\<close>\<close>

locale prometheus_registry =
  fixes ops :: "'r RegistryOps"
  assumes new_empty: "reg_names ops (reg_new ops) = []"
    and register_new: "n \<notin> set (reg_names ops r) \<Longrightarrow>
      \<exists>r'. reg_register ops n r = Ok r' \<and> mset (reg_names ops r') = add_mset n (mset (reg_names ops r))"
    and register_again: "n \<in> set (reg_names ops r) \<Longrightarrow> \<exists>e. reg_register ops n r = Err e"

definition list_registry :: "string list RegistryOps" where
  "list_registry = \<lparr>reg_new = [], reg_register = (\<lambda>n r. if n \<in> set r then Err ''AlreadyReg'' else Ok (r @ [n])), reg_names = (\<lambda>r. r)\<rparr>"

interpretation list_registry: prometheus_registry list_registry
  by unfold_locales (auto simp: list_registry_def)

section \<open>Metrics\<close>

datatype metric_kind = IntCounter | IntGauge | Histogram | IntCounterVec | IntGaugeVec | GaugeVec | HistogramVec

datatype home = Nowhere | In_REGISTRY | In_default \<comment> \<open>where the creation registers\<close>

record Metric =
  metric_kind :: metric_kind
  metric_name :: string
  metric_labels :: "string list"
  metric_buckets :: "rat list"
  metric_home :: home

definition plain :: "metric_kind \<Rightarrow> string \<Rightarrow> Metric" where
  "plain k n = \<lparr>metric_kind = k, metric_name = n, metric_labels = [], metric_buckets = [], metric_home = Nowhere\<rparr>"

definition histogram :: "string \<Rightarrow> rat list \<Rightarrow> Metric" where
  "histogram n bs = (plain Histogram n)\<lparr>metric_buckets := bs\<rparr>"

definition histogram_vec_with_registry :: "string \<Rightarrow> rat list \<Rightarrow> string list \<Rightarrow> Metric" where
  "histogram_vec_with_registry n bs ls = (plain HistogramVec n)\<lparr>metric_labels := ls, metric_buckets := bs, metric_home := In_REGISTRY\<rparr>"

definition registered_vec :: "metric_kind \<Rightarrow> string \<Rightarrow> string list \<Rightarrow> Metric" where
  "registered_vec k n ls = (plain k n)\<lparr>metric_labels := ls, metric_home := In_default\<rparr>"

definition DEFAULT_BUCKETS :: "rat list" where
  "DEFAULT_BUCKETS = [0.001, 0.005, 0.01, 0.025, 0.05, 0.1, 0.25, 0.5, 1, 2.5, 5, 10, 20, 40, 60, 80,
     100, 120, 200, 300, 400, 800, 1600, 3200, 6400, 12800]"

definition SPILL_BATCH_SIZE_BUCKETS :: "rat list" where
  "SPILL_BATCH_SIZE_BUCKETS = [1, 128, 512] @ map of_int
     [size_kb 1, size_kb 10, size_kb 100, size_mb 1, size_mb 10, size_mb 100, size_gb 1, size_gb 10, size_gb 100]"

definition TOTAL_RECEIVED_DATA :: Metric where
  "TOTAL_RECEIVED_DATA = plain IntCounter ''total_received_data''"

definition TOTAL_READ_DATA :: Metric where
  "TOTAL_READ_DATA = plain IntCounter ''total_read_data''"

definition TOTAL_READ_DATA_FROM_MEMORY :: Metric where
  "TOTAL_READ_DATA_FROM_MEMORY = plain IntCounter ''total_read_data_from_memory''"

definition TOTAL_READ_DATA_FROM_LOCALFILE :: Metric where
  "TOTAL_READ_DATA_FROM_LOCALFILE = plain IntCounter ''total_read_data_from_localfile''"

definition TOTAL_READ_INDEX_FROM_LOCALFILE :: Metric where
  "TOTAL_READ_INDEX_FROM_LOCALFILE = plain IntCounter ''total_read_index_from_localfile''"

definition TOTAL_MEMORY_SPILL_BYTES :: Metric where
  "TOTAL_MEMORY_SPILL_BYTES = plain IntCounter ''memory_spill_total_bytes''"

definition MEMORY_BUFFER_SPILL_BATCH_SIZE_HISTOGRAM :: Metric where
  "MEMORY_BUFFER_SPILL_BATCH_SIZE_HISTOGRAM = histogram ''memory_spill_batch_size_histogram'' SPILL_BATCH_SIZE_BUCKETS"

definition GAUGE_MEMORY_SPILL_IN_QUEUE_BYTES :: Metric where
  "GAUGE_MEMORY_SPILL_IN_QUEUE_BYTES = plain IntGauge ''memory_spill_in_queue_bytes''"

definition GRPC_GET_MEMORY_DATA_TRANSPORT_TIME :: Metric where
  "GRPC_GET_MEMORY_DATA_TRANSPORT_TIME = histogram ''grpc_get_memory_data_transport_time'' DEFAULT_BUCKETS"

definition GRPC_GET_MEMORY_DATA_PROCESS_TIME :: Metric where
  "GRPC_GET_MEMORY_DATA_PROCESS_TIME = histogram ''grpc_get_memory_data_process_time'' DEFAULT_BUCKETS"

definition GRPC_GET_MEMORY_DATA_FREEZE_PROCESS_TIME :: Metric where
  "GRPC_GET_MEMORY_DATA_FREEZE_PROCESS_TIME = histogram ''grpc_get_memory_data_freeze_process_time'' DEFAULT_BUCKETS"

definition GRPC_GET_LOCALFILE_DATA_TRANSPORT_TIME :: Metric where
  "GRPC_GET_LOCALFILE_DATA_TRANSPORT_TIME = histogram ''grpc_get_localfile_data_transport_time'' DEFAULT_BUCKETS"

definition GRPC_GET_LOCALFILE_DATA_PROCESS_TIME :: Metric where
  "GRPC_GET_LOCALFILE_DATA_PROCESS_TIME = histogram ''grpc_get_localfile_data_process_time'' DEFAULT_BUCKETS"

definition GRPC_SEND_DATA_TRANSPORT_TIME :: Metric where
  "GRPC_SEND_DATA_TRANSPORT_TIME = histogram ''grpc_send_data_transport_time'' DEFAULT_BUCKETS"

definition GRPC_SEND_DATA_PROCESS_TIME :: Metric where
  "GRPC_SEND_DATA_PROCESS_TIME = histogram ''grpc_send_data_process_time'' DEFAULT_BUCKETS"

definition GRPC_BUFFER_REQUIRE_PROCESS_TIME :: Metric where
  "GRPC_BUFFER_REQUIRE_PROCESS_TIME = histogram ''grpc_buffer_require_process_time'' DEFAULT_BUCKETS"

definition GRPC_LATENCY_TIME_SEC :: Metric where
  "GRPC_LATENCY_TIME_SEC = histogram_vec_with_registry ''grpc_duration_seconds'' DEFAULT_BUCKETS [''path'']"

definition LOCALFILE_DISK_STAT_OPERATION_DURATION :: Metric where
  "LOCALFILE_DISK_STAT_OPERATION_DURATION = histogram_vec_with_registry ''localfile_disk_stat_operation_duration'' DEFAULT_BUCKETS [''root'']"

definition LOCALFILE_DISK_APPEND_OPERATION_DURATION :: Metric where
  "LOCALFILE_DISK_APPEND_OPERATION_DURATION = histogram_vec_with_registry ''localfile_disk_append_operation_duration'' DEFAULT_BUCKETS [''root'']"

definition LOCALFILE_DISK_READ_OPERATION_DURATION :: Metric where
  "LOCALFILE_DISK_READ_OPERATION_DURATION = histogram_vec_with_registry ''localfile_disk_read_operation_duration'' DEFAULT_BUCKETS [''root'']"

definition LOCALFILE_DISK_DELETE_OPERATION_DURATION :: Metric where
  "LOCALFILE_DISK_DELETE_OPERATION_DURATION = histogram_vec_with_registry ''localfile_disk_delete_operation_duration'' DEFAULT_BUCKETS [''root'']"

definition TOTAL_LOCAL_DISK_APPEND_OPERATION_COUNTER :: Metric where
  "TOTAL_LOCAL_DISK_APPEND_OPERATION_COUNTER = registered_vec IntCounterVec ''localfile_disk_append_operation_counter'' [''root'']"

definition TOTAL_LOCAL_DISK_APPEND_OPERATION_BYTES_COUNTER :: Metric where
  "TOTAL_LOCAL_DISK_APPEND_OPERATION_BYTES_COUNTER = registered_vec IntCounterVec ''localfile_disk_append_operation_bytes_counter'' [''root'']"

definition TOTAL_LOCAL_DISK_READ_OPERATION_COUNTER :: Metric where
  "TOTAL_LOCAL_DISK_READ_OPERATION_COUNTER = registered_vec IntCounterVec ''localfile_disk_read_operation_counter'' [''root'']"

definition TOTAL_LOCAL_DISK_READ_OPERATION_BYTES_COUNTER :: Metric where
  "TOTAL_LOCAL_DISK_READ_OPERATION_BYTES_COUNTER = registered_vec IntCounterVec ''localfile_disk_read_operation_bytes_counter'' [''root'']"

definition URPC_REQUEST_PROCESSING_LATENCY :: Metric where
  "URPC_REQUEST_PROCESSING_LATENCY = histogram_vec_with_registry ''urpc_request_processing_latency'' DEFAULT_BUCKETS [''path'']"

definition URPC_REQUEST_PARSING_LATENCY :: Metric where
  "URPC_REQUEST_PARSING_LATENCY = histogram_vec_with_registry ''urpc_request_parsing_latency'' DEFAULT_BUCKETS [''path'']"

definition URPC_SEND_DATA_TRANSPORT_TIME :: Metric where
  "URPC_SEND_DATA_TRANSPORT_TIME = histogram ''urpc_send_data_transport_time'' DEFAULT_BUCKETS"

definition URPC_GET_LOCALFILE_DATA_TRANSPORT_TIME :: Metric where
  "URPC_GET_LOCALFILE_DATA_TRANSPORT_TIME = histogram ''urpc_get_localfile_data_transport_time'' DEFAULT_BUCKETS"

definition URPC_CONNECTION_NUMBER :: Metric where
  "URPC_CONNECTION_NUMBER = plain IntGauge ''urpc_connection_number''"

definition TOTAL_MEMORY_USED :: Metric where
  "TOTAL_MEMORY_USED = plain IntCounter ''total_memory_used''"

definition TOTAL_LOCALFILE_USED :: Metric where
  "TOTAL_LOCALFILE_USED = plain IntCounter ''total_localfile_used''"

definition TOTAL_HDFS_USED :: Metric where
  "TOTAL_HDFS_USED = plain IntCounter ''total_hdfs_used''"

definition GAUGE_MEMORY_USED :: Metric where
  "GAUGE_MEMORY_USED = plain IntGauge ''memory_used''"

definition GAUGE_MEMORY_ALLOCATED :: Metric where
  "GAUGE_MEMORY_ALLOCATED = plain IntGauge ''memory_allocated''"

definition GAUGE_MEMORY_CAPACITY :: Metric where
  "GAUGE_MEMORY_CAPACITY = plain IntGauge ''memory_capacity''"

definition TOTAL_MEMORY_SPILL_IN_FLUSHING_OPERATION :: Metric where
  "TOTAL_MEMORY_SPILL_IN_FLUSHING_OPERATION = registered_vec IntCounterVec ''total_memory_spill_in_flushing_operations'' [''storage_type'']"

definition TOTAL_MEMORY_SPILL_OPERATION_FAILED :: Metric where
  "TOTAL_MEMORY_SPILL_OPERATION_FAILED = plain IntCounter ''total_memory_spill_failed''"

definition TOTAL_MEMORY_SPILL_TO_LOCALFILE_OPERATION_FAILED :: Metric where
  "TOTAL_MEMORY_SPILL_TO_LOCALFILE_OPERATION_FAILED = plain IntCounter ''total_memory_to_localfile_spill_failed''"

definition TOTAL_MEMORY_SPILL_TO_HDFS_OPERATION_FAILED :: Metric where
  "TOTAL_MEMORY_SPILL_TO_HDFS_OPERATION_FAILED = plain IntCounter ''total_memory_to_hdfs_spill_failed''"

definition TOTAL_MEMORY_SPILL_TO_LOCALFILE :: Metric where
  "TOTAL_MEMORY_SPILL_TO_LOCALFILE = plain IntCounter ''total_memory_spill_to_localfile''"

definition TOTAL_MEMORY_SPILL_TO_HDFS :: Metric where
  "TOTAL_MEMORY_SPILL_TO_HDFS = plain IntCounter ''total_memory_spill_to_hdfs''"

definition GAUGE_MEMORY_SPILL_IN_FLUSHING_OPERATION :: Metric where
  "GAUGE_MEMORY_SPILL_IN_FLUSHING_OPERATION = registered_vec IntGaugeVec ''memory_spill_in_flushing_operations'' [''storage_type'']"

definition GAUGE_MEMORY_SPILL_TO_LOCALFILE :: Metric where
  "GAUGE_MEMORY_SPILL_TO_LOCALFILE = plain IntGauge ''memory_spill_to_localfile''"

definition GAUGE_MEMORY_SPILL_TO_HDFS :: Metric where
  "GAUGE_MEMORY_SPILL_TO_HDFS = plain IntGauge ''memory_spill_to_hdfs''"

definition TOTAL_APP_NUMBER :: Metric where
  "TOTAL_APP_NUMBER = plain IntCounter ''total_app_number''"

definition TOTAL_PARTITION_NUMBER :: Metric where
  "TOTAL_PARTITION_NUMBER = plain IntCounter ''total_partition_number''"

definition TOTAL_HUGE_PARTITION_NUMBER :: Metric where
  "TOTAL_HUGE_PARTITION_NUMBER = plain IntCounter ''total_huge_partition_number''"

definition GAUGE_APP_NUMBER :: Metric where
  "GAUGE_APP_NUMBER = plain IntGauge ''app_number''"

definition GAUGE_PARTITION_NUMBER :: Metric where
  "GAUGE_PARTITION_NUMBER = plain IntGauge ''partition_number''"

definition GAUGE_HUGE_PARTITION_NUMBER :: Metric where
  "GAUGE_HUGE_PARTITION_NUMBER = registered_vec IntGaugeVec ''huge_partition_number'' [''app_id'']"

definition TOTAL_REQUIRE_BUFFER_FAILED :: Metric where
  "TOTAL_REQUIRE_BUFFER_FAILED = plain IntCounter ''total_require_buffer_failed''"

definition TOTAL_HUGE_PARTITION_REQUIRE_BUFFER_FAILED :: Metric where
  "TOTAL_HUGE_PARTITION_REQUIRE_BUFFER_FAILED = plain IntCounter ''total_huge_partition_require_buffer_failed''"

definition GAUGE_LOCAL_DISK_CAPACITY :: Metric where
  "GAUGE_LOCAL_DISK_CAPACITY = registered_vec IntGaugeVec ''local_disk_capacity'' [''root'']"

definition GAUGE_LOCAL_DISK_USED :: Metric where
  "GAUGE_LOCAL_DISK_USED = registered_vec IntGaugeVec ''local_disk_used'' [''root'']"

definition GAUGE_LOCAL_DISK_USED_RATIO :: Metric where
  "GAUGE_LOCAL_DISK_USED_RATIO = registered_vec GaugeVec ''local_disk_used_ratio'' [''root'']"

definition GAUGE_LOCAL_DISK_IS_HEALTHY :: Metric where
  "GAUGE_LOCAL_DISK_IS_HEALTHY = registered_vec IntGaugeVec ''local_disk_is_healthy'' [''root'']"

definition SERVICE_IS_HEALTHY :: Metric where
  "SERVICE_IS_HEALTHY = plain IntGauge ''service_is_healthy''"

definition GAUGE_RUNTIME_ALIVE_THREAD_NUM :: Metric where
  "GAUGE_RUNTIME_ALIVE_THREAD_NUM = registered_vec IntGaugeVec ''runtime_thread_alive_gauge'' [''name'']"

definition GAUGE_RUNTIME_IDLE_THREAD_NUM :: Metric where
  "GAUGE_RUNTIME_IDLE_THREAD_NUM = registered_vec IntGaugeVec ''runtime_thread_idle_gauge'' [''name'']"

definition GAUGE_TOPN_APP_RESIDENT_BYTES :: Metric where
  "GAUGE_TOPN_APP_RESIDENT_BYTES = registered_vec IntGaugeVec ''topN_app_resident_bytes'' [''app_id'']"

definition TOTAL_APP_FLUSHED_BYTES :: Metric where
  "TOTAL_APP_FLUSHED_BYTES = registered_vec IntCounterVec ''app_flushed_bytes'' [''app_id'', ''storage_type'']"

definition MEMORY_SPILL_IN_FLUSHING_BYTES_HISTOGRAM :: Metric where
  "MEMORY_SPILL_IN_FLUSHING_BYTES_HISTOGRAM = histogram_vec_with_registry ''memory_spill_in_flushing_bytes_histogram'' SPILL_BATCH_SIZE_BUCKETS [''storage_type'']"

definition GAUGE_MEMORY_SPILL_IN_FLUSHING_BYTES :: Metric where
  "GAUGE_MEMORY_SPILL_IN_FLUSHING_BYTES = registered_vec IntGaugeVec ''memory_spill_in_flushing_bytes'' [''storage_type'']"

definition GAUGE_MEMORY_SPILL_LOCALFILE_IN_FLUSHING_BYTES :: Metric where
  "GAUGE_MEMORY_SPILL_LOCALFILE_IN_FLUSHING_BYTES = plain IntGauge ''memory_spill_localfile_in_flushing_bytes''"

definition GAUGE_MEMORY_SPILL_HDFS_IN_FLUSHING_BYTES :: Metric where
  "GAUGE_MEMORY_SPILL_HDFS_IN_FLUSHING_BYTES = plain IntGauge ''memory_spill_hdfs_in_flushing_bytes''"

definition TOTAL_GRPC_REQUEST :: Metric where
  "TOTAL_GRPC_REQUEST = plain IntCounter ''total_grpc_request_number''"

definition GAUGE_GRPC_REQUEST_QUEUE_SIZE :: Metric where
  "GAUGE_GRPC_REQUEST_QUEUE_SIZE = plain IntGauge ''grpc_request_number''"

definition TOTAL_SPILL_EVENTS_DROPPED :: Metric where
  "TOTAL_SPILL_EVENTS_DROPPED = plain IntCounter ''total_spill_events_dropped''"

definition TOTAL_SPILL_EVENTS_DROPPED_WITH_APP_NOT_FOUND :: Metric where
  "TOTAL_SPILL_EVENTS_DROPPED_WITH_APP_NOT_FOUND = plain IntCounter ''total_spill_events_dropped_with_app_not_found''"

definition TOTAL_EVICT_TIMEOUT_TICKETS_NUM :: Metric where
  "TOTAL_EVICT_TIMEOUT_TICKETS_NUM = plain IntCounter ''total_evict_timeout_tickets_num''"

definition GAUGE_ALLOCATOR_ALLOCATED_SIZE :: Metric where
  "GAUGE_ALLOCATOR_ALLOCATED_SIZE = plain IntGauge ''allocator_allocated_size''"

definition GAUGE_EVENT_BUS_QUEUE_PENDING_SIZE :: Metric where
  "GAUGE_EVENT_BUS_QUEUE_PENDING_SIZE = registered_vec IntGaugeVec ''eventbus_queue_pending_size'' [''name'']"

definition GAUGE_EVENT_BUS_QUEUE_HANDLING_SIZE :: Metric where
  "GAUGE_EVENT_BUS_QUEUE_HANDLING_SIZE = registered_vec IntGaugeVec ''eventbus_queue_handling_size'' [''name'']"

definition TOTAL_EVENT_BUS_EVENT_PUBLISHED_SIZE :: Metric where
  "TOTAL_EVENT_BUS_EVENT_PUBLISHED_SIZE = registered_vec IntCounterVec ''eventbus_total_published_event_size'' [''name'']"

definition TOTAL_EVENT_BUS_EVENT_HANDLED_SIZE :: Metric where
  "TOTAL_EVENT_BUS_EVENT_HANDLED_SIZE = registered_vec IntCounterVec ''eventbus_total_handled_event_size'' [''name'']"

definition EVENT_BUS_HANDLE_DURATION :: Metric where
  "EVENT_BUS_HANDLE_DURATION = histogram_vec_with_registry ''eventbus_handle_operation_duration'' DEFAULT_BUCKETS [''name'']"

section \<open>Creation and registration\<close>

record 'r MetricState =
  registry :: 'r
  default_registry :: 'r
  created :: "string list" \<comment> \<open>names of the statics that are initialised\<close>

definition no_metrics :: "'r RegistryOps \<Rightarrow> 'r MetricState" where
  "no_metrics ops = \<lparr>registry = reg_new ops, default_registry = reg_new ops, created = []\<rparr>"

text \<open>
  The crate refuses a metric whose name has other characters than letters, digits, underscores and colons or starts with a digit, and
  a histogram whose buckets are not increasing.
\<close>

definition name_start :: "char \<Rightarrow> bool" where
  "name_start c \<longleftrightarrow> (let n = (of_char c :: nat) in (65 \<le> n \<and> n \<le> 90) \<or> (97 \<le> n \<and> n \<le> 122) \<or> n = 95 \<or> n = 58)"

definition name_ok :: "string \<Rightarrow> bool" where
  "name_ok n \<longleftrightarrow> n \<noteq> [] \<and> name_start (hd n) \<and> list_all (\<lambda>c. name_start c \<or> is_digit c) n"

definition creatable :: "Metric \<Rightarrow> bool" where
  "creatable m \<longleftrightarrow> name_ok (metric_name m) \<and> sorted_wrt (<) (metric_buckets m)"

text \<open>The first use of a static; every failure is an \<open>unwrap\<close> or an \<open>expect\<close>.\<close>

definition use_metric :: "'r RegistryOps \<Rightarrow> Metric \<Rightarrow> 'r MetricState \<Rightarrow> ('r MetricState, unit) outcome" where
  "use_metric ops m st =
     (if metric_name m \<in> set (created st) then Ok st
      else if \<not> creatable m then Panic
      else
        let st' = st\<lparr>created := metric_name m # created st\<rparr>
        in case metric_home m of
             Nowhere \<Rightarrow> Ok st'
           | In_REGISTRY \<Rightarrow> (case reg_register ops (metric_name m) (registry st) of Ok r \<Rightarrow> Ok (st'\<lparr>registry := r\<rparr>) | _ \<Rightarrow> Panic)
           | In_default \<Rightarrow>
               (case reg_register ops (metric_name m) (default_registry st) of Ok r \<Rightarrow> Ok (st'\<lparr>default_registry := r\<rparr>) | _ \<Rightarrow> Panic))"

text \<open>\<open>REGISTRY.register(Box::new(m.clone())).expect(..)\<close>: the clone is the first use.\<close>

definition register_in_REGISTRY :: "'r RegistryOps \<Rightarrow> Metric \<Rightarrow> 'r MetricState \<Rightarrow> ('r MetricState, unit) outcome" where
  "register_in_REGISTRY ops m st =
     and_then (use_metric ops m st) (\<lambda>st.
       case reg_register ops (metric_name m) (registry st) of Ok r \<Rightarrow> Ok (st\<lparr>registry := r\<rparr>) | _ \<Rightarrow> Panic)"

fun each_metric :: "('s \<Rightarrow> Metric \<Rightarrow> ('s, unit) outcome) \<Rightarrow> Metric list \<Rightarrow> 's \<Rightarrow> ('s, unit) outcome" where
  "each_metric f [] st = Ok st"
| "each_metric f (m # ms) st = and_then (f st m) (each_metric f ms)"

definition custom_metrics :: "Metric list" where
  "custom_metrics = [
     GAUGE_MEMORY_SPILL_IN_FLUSHING_BYTES, TOTAL_MEMORY_SPILL_IN_FLUSHING_OPERATION,
     GAUGE_MEMORY_SPILL_IN_FLUSHING_OPERATION, SERVICE_IS_HEALTHY, GAUGE_MEMORY_SPILL_IN_QUEUE_BYTES,
     TOTAL_MEMORY_SPILL_BYTES, GAUGE_EVENT_BUS_QUEUE_PENDING_SIZE, GAUGE_EVENT_BUS_QUEUE_HANDLING_SIZE,
     TOTAL_EVENT_BUS_EVENT_PUBLISHED_SIZE, TOTAL_EVENT_BUS_EVENT_HANDLED_SIZE,
     MEMORY_BUFFER_SPILL_BATCH_SIZE_HISTOGRAM, GAUGE_ALLOCATOR_ALLOCATED_SIZE, TOTAL_GRPC_REQUEST,
     GAUGE_GRPC_REQUEST_QUEUE_SIZE, TOTAL_SPILL_EVENTS_DROPPED, TOTAL_SPILL_EVENTS_DROPPED_WITH_APP_NOT_FOUND,
     GAUGE_TOPN_APP_RESIDENT_BYTES, TOTAL_APP_FLUSHED_BYTES, TOTAL_READ_DATA_FROM_LOCALFILE,
     TOTAL_READ_INDEX_FROM_LOCALFILE, TOTAL_READ_DATA_FROM_MEMORY, GAUGE_LOCAL_DISK_CAPACITY, GAUGE_LOCAL_DISK_USED,
     GAUGE_LOCAL_DISK_USED_RATIO, GAUGE_LOCAL_DISK_IS_HEALTHY, GAUGE_RUNTIME_ALIVE_THREAD_NUM,
     GAUGE_RUNTIME_IDLE_THREAD_NUM, TOTAL_RECEIVED_DATA, TOTAL_READ_DATA, TOTAL_MEMORY_USED, TOTAL_LOCALFILE_USED,
     TOTAL_HDFS_USED, TOTAL_MEMORY_SPILL_OPERATION_FAILED, TOTAL_MEMORY_SPILL_TO_LOCALFILE_OPERATION_FAILED,
     TOTAL_MEMORY_SPILL_TO_HDFS_OPERATION_FAILED, TOTAL_APP_NUMBER, TOTAL_PARTITION_NUMBER,
     TOTAL_HUGE_PARTITION_NUMBER, TOTAL_REQUIRE_BUFFER_FAILED, TOTAL_HUGE_PARTITION_REQUIRE_BUFFER_FAILED,
     TOTAL_MEMORY_SPILL_TO_LOCALFILE, TOTAL_MEMORY_SPILL_TO_HDFS, GAUGE_MEMORY_USED, GAUGE_MEMORY_ALLOCATED,
     GAUGE_MEMORY_CAPACITY, GAUGE_APP_NUMBER, GAUGE_PARTITION_NUMBER, GAUGE_HUGE_PARTITION_NUMBER,
     GAUGE_MEMORY_SPILL_TO_LOCALFILE, GAUGE_MEMORY_SPILL_TO_HDFS, GRPC_BUFFER_REQUIRE_PROCESS_TIME,
     GRPC_SEND_DATA_TRANSPORT_TIME, GRPC_SEND_DATA_PROCESS_TIME, GRPC_GET_MEMORY_DATA_PROCESS_TIME,
     GRPC_GET_MEMORY_DATA_FREEZE_PROCESS_TIME, GRPC_GET_LOCALFILE_DATA_TRANSPORT_TIME,
     GRPC_GET_LOCALFILE_DATA_PROCESS_TIME, GRPC_GET_MEMORY_DATA_TRANSPORT_TIME, URPC_SEND_DATA_TRANSPORT_TIME,
     URPC_GET_LOCALFILE_DATA_TRANSPORT_TIME, URPC_CONNECTION_NUMBER, TOTAL_EVICT_TIMEOUT_TICKETS_NUM]"

definition register_custom_metrics :: "'r RegistryOps \<Rightarrow> 'r MetricState \<Rightarrow> ('r MetricState, unit) outcome" where
  "register_custom_metrics ops = each_metric (\<lambda>st m. register_in_REGISTRY ops m st) custom_metrics"

record MetricsConfig =
  push_gateway_endpoint :: "string option"
  push_interval_sec :: int
  metric_conf_labels :: "(string, string) dmap option"

text \<open>\<open>MetricService::init\<close>, and whether it starts the task that pushes to a gateway.\<close>

definition metric_service_init ::
    "'r RegistryOps \<Rightarrow> MetricsConfig option \<Rightarrow> 'r MetricState \<Rightarrow> ('r MetricState \<times> bool, unit) outcome" where
  "metric_service_init ops conf st =
     (case conf of
        None \<Rightarrow> Ok (st, False)
      | Some cfg \<Rightarrow> and_then (register_custom_metrics ops st) (\<lambda>st. Ok (st, push_gateway_endpoint cfg \<noteq> None)))"

text \<open>
  What a registry gathers: its families that have samples.  A vector has none before a label is used; a metric in two registries
  has the same samples in both.
\<close>

definition gather :: "'r RegistryOps \<Rightarrow> (string \<Rightarrow> bool) \<Rightarrow> 'r \<Rightarrow> string list" where
  "gather ops sampled r = filter sampled (reg_names ops r)"

text \<open>One round of the pushing task: its families and the labels that come with them.\<close>

definition push_round ::
    "'r RegistryOps \<Rightarrow> (string \<Rightarrow> bool) \<Rightarrow> string \<Rightarrow> MetricsConfig \<Rightarrow> 'r MetricState \<Rightarrow> string list \<times> (string, string) dmap" where
  "push_round ops sampled server_id cfg st =
     (gather ops sampled (registry st) @ gather ops sampled (default_registry st),
      let own = dm_insert ''worker_id'' server_id []
      in case metric_conf_labels cfg of Some ls \<Rightarrow> foldl (\<lambda>all (k, v). dm_insert k v all) own ls | None \<Rightarrow> own)"

text \<open>The page \<open>/metrics\<close>: the text of both registries; what cannot be encoded is left out.\<close>

definition metrics_page :: "'r RegistryOps \<Rightarrow> (string \<Rightarrow> bool) \<Rightarrow> (string list \<Rightarrow> string option) \<Rightarrow> 'r MetricState \<Rightarrow> string" where
  "metrics_page ops sampled encode st =
     (let txt = \<lambda>r. case encode (gather ops sampled r) of Some s \<Rightarrow> s | None \<Rightarrow> []
      in txt (registry st) @ txt (default_registry st))"

section \<open>All statics\<close>

definition statics :: "Metric list" where
  "statics = [
     TOTAL_RECEIVED_DATA, TOTAL_READ_DATA, TOTAL_READ_DATA_FROM_MEMORY, TOTAL_READ_DATA_FROM_LOCALFILE,
     TOTAL_READ_INDEX_FROM_LOCALFILE, TOTAL_MEMORY_SPILL_BYTES, MEMORY_BUFFER_SPILL_BATCH_SIZE_HISTOGRAM,
     GAUGE_MEMORY_SPILL_IN_QUEUE_BYTES, GRPC_GET_MEMORY_DATA_TRANSPORT_TIME, GRPC_GET_MEMORY_DATA_PROCESS_TIME,
     GRPC_GET_MEMORY_DATA_FREEZE_PROCESS_TIME, GRPC_GET_LOCALFILE_DATA_TRANSPORT_TIME,
     GRPC_GET_LOCALFILE_DATA_PROCESS_TIME, GRPC_SEND_DATA_TRANSPORT_TIME, GRPC_SEND_DATA_PROCESS_TIME,
     GRPC_BUFFER_REQUIRE_PROCESS_TIME, GRPC_LATENCY_TIME_SEC, LOCALFILE_DISK_STAT_OPERATION_DURATION,
     LOCALFILE_DISK_APPEND_OPERATION_DURATION, LOCALFILE_DISK_READ_OPERATION_DURATION,
     LOCALFILE_DISK_DELETE_OPERATION_DURATION, TOTAL_LOCAL_DISK_APPEND_OPERATION_COUNTER,
     TOTAL_LOCAL_DISK_APPEND_OPERATION_BYTES_COUNTER, TOTAL_LOCAL_DISK_READ_OPERATION_COUNTER,
     TOTAL_LOCAL_DISK_READ_OPERATION_BYTES_COUNTER, URPC_REQUEST_PROCESSING_LATENCY, URPC_REQUEST_PARSING_LATENCY,
     URPC_SEND_DATA_TRANSPORT_TIME, URPC_GET_LOCALFILE_DATA_TRANSPORT_TIME, URPC_CONNECTION_NUMBER,
     TOTAL_MEMORY_USED, TOTAL_LOCALFILE_USED, TOTAL_HDFS_USED, GAUGE_MEMORY_USED, GAUGE_MEMORY_ALLOCATED,
     GAUGE_MEMORY_CAPACITY, TOTAL_MEMORY_SPILL_IN_FLUSHING_OPERATION, TOTAL_MEMORY_SPILL_OPERATION_FAILED,
     TOTAL_MEMORY_SPILL_TO_LOCALFILE_OPERATION_FAILED, TOTAL_MEMORY_SPILL_TO_HDFS_OPERATION_FAILED,
     TOTAL_MEMORY_SPILL_TO_LOCALFILE, TOTAL_MEMORY_SPILL_TO_HDFS, GAUGE_MEMORY_SPILL_IN_FLUSHING_OPERATION,
     GAUGE_MEMORY_SPILL_TO_LOCALFILE, GAUGE_MEMORY_SPILL_TO_HDFS, TOTAL_APP_NUMBER, TOTAL_PARTITION_NUMBER,
     TOTAL_HUGE_PARTITION_NUMBER, GAUGE_APP_NUMBER, GAUGE_PARTITION_NUMBER, GAUGE_HUGE_PARTITION_NUMBER,
     TOTAL_REQUIRE_BUFFER_FAILED, TOTAL_HUGE_PARTITION_REQUIRE_BUFFER_FAILED, GAUGE_LOCAL_DISK_CAPACITY,
     GAUGE_LOCAL_DISK_USED, GAUGE_LOCAL_DISK_USED_RATIO, GAUGE_LOCAL_DISK_IS_HEALTHY, SERVICE_IS_HEALTHY,
     GAUGE_RUNTIME_ALIVE_THREAD_NUM, GAUGE_RUNTIME_IDLE_THREAD_NUM, GAUGE_TOPN_APP_RESIDENT_BYTES,
     TOTAL_APP_FLUSHED_BYTES, MEMORY_SPILL_IN_FLUSHING_BYTES_HISTOGRAM, GAUGE_MEMORY_SPILL_IN_FLUSHING_BYTES,
     GAUGE_MEMORY_SPILL_LOCALFILE_IN_FLUSHING_BYTES, GAUGE_MEMORY_SPILL_HDFS_IN_FLUSHING_BYTES, TOTAL_GRPC_REQUEST,
     GAUGE_GRPC_REQUEST_QUEUE_SIZE, TOTAL_SPILL_EVENTS_DROPPED, TOTAL_SPILL_EVENTS_DROPPED_WITH_APP_NOT_FOUND,
     TOTAL_EVICT_TIMEOUT_TICKETS_NUM, GAUGE_ALLOCATOR_ALLOCATED_SIZE, GAUGE_EVENT_BUS_QUEUE_PENDING_SIZE,
     GAUGE_EVENT_BUS_QUEUE_HANDLING_SIZE, TOTAL_EVENT_BUS_EVENT_PUBLISHED_SIZE, TOTAL_EVENT_BUS_EVENT_HANDLED_SIZE,
     EVENT_BUS_HANDLE_DURATION]"

lemmas static_defs = plain_def histogram_def histogram_vec_with_registry_def registered_vec_def
  TOTAL_RECEIVED_DATA_def TOTAL_READ_DATA_def TOTAL_READ_DATA_FROM_MEMORY_def TOTAL_READ_DATA_FROM_LOCALFILE_def TOTAL_READ_INDEX_FROM_LOCALFILE_def TOTAL_MEMORY_SPILL_BYTES_def MEMORY_BUFFER_SPILL_BATCH_SIZE_HISTOGRAM_def GAUGE_MEMORY_SPILL_IN_QUEUE_BYTES_def GRPC_GET_MEMORY_DATA_TRANSPORT_TIME_def GRPC_GET_MEMORY_DATA_PROCESS_TIME_def GRPC_GET_MEMORY_DATA_FREEZE_PROCESS_TIME_def GRPC_GET_LOCALFILE_DATA_TRANSPORT_TIME_def GRPC_GET_LOCALFILE_DATA_PROCESS_TIME_def GRPC_SEND_DATA_TRANSPORT_TIME_def GRPC_SEND_DATA_PROCESS_TIME_def GRPC_BUFFER_REQUIRE_PROCESS_TIME_def GRPC_LATENCY_TIME_SEC_def LOCALFILE_DISK_STAT_OPERATION_DURATION_def LOCALFILE_DISK_APPEND_OPERATION_DURATION_def LOCALFILE_DISK_READ_OPERATION_DURATION_def LOCALFILE_DISK_DELETE_OPERATION_DURATION_def TOTAL_LOCAL_DISK_APPEND_OPERATION_COUNTER_def TOTAL_LOCAL_DISK_APPEND_OPERATION_BYTES_COUNTER_def TOTAL_LOCAL_DISK_READ_OPERATION_COUNTER_def TOTAL_LOCAL_DISK_READ_OPERATION_BYTES_COUNTER_def URPC_REQUEST_PROCESSING_LATENCY_def URPC_REQUEST_PARSING_LATENCY_def URPC_SEND_DATA_TRANSPORT_TIME_def URPC_GET_LOCALFILE_DATA_TRANSPORT_TIME_def URPC_CONNECTION_NUMBER_def TOTAL_MEMORY_USED_def TOTAL_LOCALFILE_USED_def TOTAL_HDFS_USED_def GAUGE_MEMORY_USED_def GAUGE_MEMORY_ALLOCATED_def GAUGE_MEMORY_CAPACITY_def TOTAL_MEMORY_SPILL_IN_FLUSHING_OPERATION_def TOTAL_MEMORY_SPILL_OPERATION_FAILED_def TOTAL_MEMORY_SPILL_TO_LOCALFILE_OPERATION_FAILED_def TOTAL_MEMORY_SPILL_TO_HDFS_OPERATION_FAILED_def TOTAL_MEMORY_SPILL_TO_LOCALFILE_def TOTAL_MEMORY_SPILL_TO_HDFS_def GAUGE_MEMORY_SPILL_IN_FLUSHING_OPERATION_def GAUGE_MEMORY_SPILL_TO_LOCALFILE_def GAUGE_MEMORY_SPILL_TO_HDFS_def TOTAL_APP_NUMBER_def TOTAL_PARTITION_NUMBER_def TOTAL_HUGE_PARTITION_NUMBER_def GAUGE_APP_NUMBER_def GAUGE_PARTITION_NUMBER_def GAUGE_HUGE_PARTITION_NUMBER_def TOTAL_REQUIRE_BUFFER_FAILED_def TOTAL_HUGE_PARTITION_REQUIRE_BUFFER_FAILED_def GAUGE_LOCAL_DISK_CAPACITY_def GAUGE_LOCAL_DISK_USED_def GAUGE_LOCAL_DISK_USED_RATIO_def GAUGE_LOCAL_DISK_IS_HEALTHY_def SERVICE_IS_HEALTHY_def GAUGE_RUNTIME_ALIVE_THREAD_NUM_def GAUGE_RUNTIME_IDLE_THREAD_NUM_def GAUGE_TOPN_APP_RESIDENT_BYTES_def TOTAL_APP_FLUSHED_BYTES_def MEMORY_SPILL_IN_FLUSHING_BYTES_HISTOGRAM_def GAUGE_MEMORY_SPILL_IN_FLUSHING_BYTES_def GAUGE_MEMORY_SPILL_LOCALFILE_IN_FLUSHING_BYTES_def GAUGE_MEMORY_SPILL_HDFS_IN_FLUSHING_BYTES_def TOTAL_GRPC_REQUEST_def GAUGE_GRPC_REQUEST_QUEUE_SIZE_def TOTAL_SPILL_EVENTS_DROPPED_def TOTAL_SPILL_EVENTS_DROPPED_WITH_APP_NOT_FOUND_def TOTAL_EVICT_TIMEOUT_TICKETS_NUM_def GAUGE_ALLOCATOR_ALLOCATED_SIZE_def GAUGE_EVENT_BUS_QUEUE_PENDING_SIZE_def GAUGE_EVENT_BUS_QUEUE_HANDLING_SIZE_def TOTAL_EVENT_BUS_EVENT_PUBLISHED_SIZE_def TOTAL_EVENT_BUS_EVENT_HANDLED_SIZE_def EVENT_BUS_HANDLE_DURATION_def

lemma statics_distinct: "distinct (map metric_name statics)"
  by (simp add: statics_def static_defs)

lemma custom_distinct: "distinct (map metric_name custom_metrics)"
  by (simp add: custom_metrics_def static_defs)

lemma custom_statics: "set custom_metrics \<subseteq> set statics"
  by (simp add: custom_metrics_def statics_def)

lemma custom_home: "list_all (\<lambda>m. metric_home m \<noteq> In_REGISTRY) custom_metrics"
  by (simp add: custom_metrics_def static_defs)

lemma statics_buckets: "list_all (\<lambda>m. metric_buckets m \<in> {[], DEFAULT_BUCKETS, SPILL_BATCH_SIZE_BUCKETS}) statics"
  by (simp add: statics_def static_defs)

lemma name_chars:
  "name_start CHR ''a''" "name_start CHR ''b''" "name_start CHR ''c''" "name_start CHR ''d''" "name_start CHR ''e''" "name_start CHR ''f''" "name_start CHR ''g''"
  "name_start CHR ''h''" "name_start CHR ''i''" "name_start CHR ''j''" "name_start CHR ''k''" "name_start CHR ''l''" "name_start CHR ''m''" "name_start CHR ''n''"
  "name_start CHR ''o''" "name_start CHR ''p''" "name_start CHR ''q''" "name_start CHR ''r''" "name_start CHR ''s''" "name_start CHR ''t''" "name_start CHR ''u''"
  "name_start CHR ''v''" "name_start CHR ''w''" "name_start CHR ''x''" "name_start CHR ''y''" "name_start CHR ''z''" "name_start CHR ''_''" "name_start CHR ''N''"
  by (simp_all add: name_start_def)

lemma statics_names: "list_all (\<lambda>m. name_ok (metric_name m)) statics"
  by (simp add: statics_def static_defs name_ok_def name_chars)

lemma buckets_increasing: "sorted_wrt (<) DEFAULT_BUCKETS" "sorted_wrt (<) SPILL_BATCH_SIZE_BUCKETS"
  by (simp_all add: DEFAULT_BUCKETS_def SPILL_BATCH_SIZE_BUCKETS_def size_kb_def size_mb_def size_gb_def KIB_def MIB_def GIB_def u64_def)

lemma statics_creatable: "m \<in> set statics \<Longrightarrow> creatable m"
  using statics_names statics_buckets buckets_increasing by (fastforce simp: creatable_def list_all_iff)

lemma static_eq: "m \<in> set statics \<Longrightarrow> m' \<in> set statics \<Longrightarrow> metric_name m' = metric_name m \<Longrightarrow> m' = m"
  using statics_distinct by (auto simp: distinct_map dest: inj_onD)

end
