(* ===== verification/Metric_Export.thy ===== *)
theory Metric_Export
  imports Metric_Registry
begin

text \<open>
  What \<^verbatim>\<open>metric.rs\<close> exports: the state of the two registries after the start of the server, and how often a metric is in what
  is pushed to a gateway or shown on the page.
\<close>

section \<open>What is registered where\<close>

lemma static_iff: "m \<in> set statics \<Longrightarrow> m' \<in> set statics \<Longrightarrow> metric_name m' = metric_name m \<longleftrightarrow> m' = m"
  using static_eq by blast

text \<open>
  The default registry has the created metrics whose creation registers there, \<open>REGISTRY\<close> those whose creation
  registers there and the ones in \<open>R\<close>, which were added by hand; each once.
\<close>

definition registered :: "'r RegistryOps \<Rightarrow> Metric set \<Rightarrow> 'r MetricState \<Rightarrow> bool" where
  "registered ops R st \<longleftrightarrow>
     distinct (reg_names ops (registry st)) \<and> distinct (reg_names ops (default_registry st)) \<and>
     (\<forall>m \<in> set statics.
        (metric_name m \<in> set (reg_names ops (default_registry st)) \<longleftrightarrow> metric_home m = In_default \<and> metric_name m \<in> set (created st)) \<and>
        (metric_name m \<in> set (reg_names ops (registry st)) \<longleftrightarrow>
           metric_home m = In_REGISTRY \<and> metric_name m \<in> set (created st) \<or> m \<in> R))"

text \<open>A step that concerns one metric only.\<close>

lemma registered_step:
  assumes "registered ops R st" and "m \<in> set statics" and "distinct (reg_names ops (registry st'))" and "distinct (reg_names ops (default_registry st'))"
    and "set (reg_names ops (registry st')) = set (reg_names ops (registry st)) \<union> A"
    and "set (reg_names ops (default_registry st')) = set (reg_names ops (default_registry st)) \<union> B"
    and "A \<subseteq> {metric_name m}" and "B \<subseteq> {metric_name m}" and "set (created st') = insert (metric_name m) (set (created st))"
    and "metric_name m \<in> set (reg_names ops (default_registry st')) \<longleftrightarrow> metric_home m = In_default"
    and "metric_name m \<in> set (reg_names ops (registry st')) \<longleftrightarrow> metric_home m = In_REGISTRY \<or> m \<in> R'" and "R' - {m} = R - {m}"
  shows "registered ops R' st'"
  unfolding registered_def
proof (intro conjI ballI)
  fix x assume x: "x \<in> set statics"
  have other: "metric_name x \<notin> A" "metric_name x \<notin> B" "x \<in> R' \<longleftrightarrow> x \<in> R" if "x \<noteq> m"
    using that static_iff [OF assms(2) x] assms(7,8,12) by auto
  show "metric_name x \<in> set (reg_names ops (default_registry st')) \<longleftrightarrow> metric_home x = In_default \<and> metric_name x \<in> set (created st')"
    using assms(1,6,9,10) x other static_iff [OF assms(2) x] by (cases "x = m") (simp_all add: registered_def)
  show "metric_name x \<in> set (reg_names ops (registry st')) \<longleftrightarrow>
      metric_home x = In_REGISTRY \<and> metric_name x \<in> set (created st') \<or> x \<in> R'"
    using assms(1,5,9,11) x other static_iff [OF assms(2) x] by (cases "x = m") (simp_all add: registered_def)
qed (rule assms(3,4))+

context prometheus_registry
begin

lemma register_fresh:
  assumes "n \<notin> set (reg_names ops r)" and "distinct (reg_names ops r)"
  obtains r' where "reg_register ops n r = Ok r'" "distinct (reg_names ops r')" "set (reg_names ops r') = insert n (set (reg_names ops r))"
proof -
  obtain r' where r': "reg_register ops n r = Ok r'" "mset (reg_names ops r') = add_mset n (mset (reg_names ops r))"
    using register_new [OF assms(1)] by blast
  then have "mset (reg_names ops r') = mset (n # reg_names ops r)" by simp
  then have "distinct (reg_names ops r')" "set (reg_names ops r') = insert n (set (reg_names ops r))"
    using assms mset_eq_imp_distinct_iff mset_eq_setD by (metis distinct.simps(2), metis list.simps(15))
  with r'(1) show ?thesis by (rule that)
qed

lemma use_registered:
  assumes "registered ops R st" and "m \<in> set statics" and "\<forall>x \<in> R. metric_home x \<noteq> In_REGISTRY"
  shows "\<exists>st'. use_metric ops m st = Ok st' \<and> registered ops R st' \<and> set (created st') = insert (metric_name m) (set (created st))"
proof (cases "metric_name m \<in> set (created st)")
  case True
  then show ?thesis using assms(1) by (auto simp: use_metric_def)
next
  case False
  let ?n = "metric_name m" and ?st = "st\<lparr>created := metric_name m # created st\<rparr>"
  have d: "distinct (reg_names ops (registry st))" "distinct (reg_names ops (default_registry st))"
    "?n \<notin> set (reg_names ops (default_registry st))" "?n \<in> set (reg_names ops (registry st)) \<longleftrightarrow> m \<in> R"
    using assms(1,2) False by (simp_all add: registered_def)
  note step = registered_step [OF assms(1,2), where R' = R]
  show ?thesis
  proof (cases "metric_home m")
    case Nowhere
    have "registered ops R ?st" by (rule step [where A = "{}" and B = "{}"]) (use d Nowhere in simp_all)
    with False Nowhere show ?thesis by (simp add: use_metric_def statics_creatable [OF assms(2)])
  next
    case In_REGISTRY
    then have "?n \<notin> set (reg_names ops (registry st))" using d(4) assms(3) by auto
    then obtain r where r: "reg_register ops ?n (registry st) = Ok r" "distinct (reg_names ops r)"
        "set (reg_names ops r) = insert ?n (set (reg_names ops (registry st)))"
      using register_fresh [OF _ d(1)] by blast
    have "registered ops R (?st\<lparr>registry := r\<rparr>)" by (rule step [where A = "{?n}" and B = "{}"]) (use d r In_REGISTRY in simp_all)
    with False In_REGISTRY r(1) show ?thesis by (simp add: use_metric_def statics_creatable [OF assms(2)])
  next
    case In_default
    obtain r where r: "reg_register ops ?n (default_registry st) = Ok r" "distinct (reg_names ops r)"
        "set (reg_names ops r) = insert ?n (set (reg_names ops (default_registry st)))"
      using register_fresh [OF d(3,2)] by blast
    have "registered ops R (?st\<lparr>default_registry := r\<rparr>)" by (rule step [where A = "{}" and B = "{?n}"]) (use d r In_default in simp_all)
    with False In_default r(1) show ?thesis by (simp add: use_metric_def statics_creatable [OF assms(2)])
  qed
qed

lemma by_hand_registered:
  assumes "registered ops R st" and "m \<in> set custom_metrics" and "m \<notin> R" and "\<forall>x \<in> R. metric_home x \<noteq> In_REGISTRY"
  shows "\<exists>st'. register_in_REGISTRY ops m st = Ok st' \<and> registered ops (insert m R) st' \<and>
    set (created st') = insert (metric_name m) (set (created st))"
proof -
  let ?n = "metric_name m"
  have m: "m \<in> set statics" "metric_home m \<noteq> In_REGISTRY" using assms(2) custom_statics custom_home by (auto simp: list_all_iff)
  obtain st1 where st1: "use_metric ops m st = Ok st1" "registered ops R st1" "set (created st1) = insert ?n (set (created st))"
    using use_registered [OF assms(1) m(1) assms(4)] by blast
  have d: "distinct (reg_names ops (registry st1))" "distinct (reg_names ops (default_registry st1))"
    "?n \<notin> set (reg_names ops (registry st1))" "?n \<in> set (reg_names ops (default_registry st1)) \<longleftrightarrow> metric_home m = In_default"
    using st1(2,3) m assms(3) by (simp_all add: registered_def)
  obtain r where r: "reg_register ops ?n (registry st1) = Ok r" "distinct (reg_names ops r)"
      "set (reg_names ops r) = insert ?n (set (reg_names ops (registry st1)))"
    using register_fresh [OF d(3,1)] by blast
  have "registered ops (insert m R) (st1\<lparr>registry := r\<rparr>)"
    by (rule registered_step [OF st1(2) m(1), where A = "{?n}" and B = "{}"]) (use d r st1(3) in auto)
  with st1 r(1) show ?thesis by (simp add: register_in_REGISTRY_def)
qed

lemma all_used:
  assumes "set ms \<subseteq> set statics" and "registered ops R st" and "\<forall>x \<in> R. metric_home x \<noteq> In_REGISTRY"
  shows "\<exists>st'. each_metric (\<lambda>st m. use_metric ops m st) ms st = Ok st' \<and> registered ops R st' \<and>
    set (created st') = metric_name ` set ms \<union> set (created st)"
  using assms(1,2)
proof (induction ms arbitrary: st)
  case (Cons m ms)
  then obtain st1 where st1: "use_metric ops m st = Ok st1" "registered ops R st1" "set (created st1) = insert (metric_name m) (set (created st))"
    using use_registered [OF _ _ assms(3)] by (metis insert_subset list.simps(15))
  then obtain st' where "each_metric (\<lambda>st m. use_metric ops m st) ms st1 = Ok st'" "registered ops R st'"
      "set (created st') = metric_name ` set ms \<union> set (created st1)"
    using Cons.IH [of st1] Cons.prems(1) by auto
  with st1 show ?case by simp
qed simp

lemma all_by_hand:
  assumes "set ms \<subseteq> set custom_metrics" and "registered ops R st" and "\<forall>x \<in> R. metric_home x \<noteq> In_REGISTRY" and "distinct ms" and "R \<inter> set ms = {}"
  shows "\<exists>st'. each_metric (\<lambda>st m. register_in_REGISTRY ops m st) ms st = Ok st' \<and> registered ops (R \<union> set ms) st' \<and>
    set (created st') = metric_name ` set ms \<union> set (created st)"
  using assms
proof (induction ms arbitrary: R st)
  case (Cons m ms)
  have m: "m \<in> set custom_metrics" "m \<notin> R" "metric_home m \<noteq> In_REGISTRY"
    using Cons.prems custom_home by (auto simp: list_all_iff)
  obtain st1 where st1: "register_in_REGISTRY ops m st = Ok st1" "registered ops (insert m R) st1"
      "set (created st1) = insert (metric_name m) (set (created st))"
    using by_hand_registered [OF Cons.prems(2) m(1,2) Cons.prems(3)] by blast
  then obtain st' where "each_metric (\<lambda>st m. register_in_REGISTRY ops m st) ms st1 = Ok st'" "registered ops (insert m R \<union> set ms) st'"
      "set (created st') = metric_name ` set ms \<union> set (created st1)"
    using Cons.IH [of "insert m R" st1] Cons.prems m(3) by auto
  with st1 show ?case by simp
qed simp

lemma by_hand_again:
  assumes "registered ops R st" and "m \<in> R" and "m \<in> set statics" and "metric_name m \<in> set (created st)"
  shows "register_in_REGISTRY ops m st = Panic"
proof -
  have "metric_name m \<in> set (reg_names ops (registry st))" using assms(1-3) by (simp add: registered_def)
  from register_again [OF this] assms(4) show ?thesis by (auto simp: register_in_REGISTRY_def use_metric_def)
qed

lemma new_registered: "registered ops {} (no_metrics ops)"
  by (simp add: registered_def no_metrics_def new_empty)

end

lemma count_filter_distinct: "distinct xs \<Longrightarrow> P n \<Longrightarrow> count_list (filter P xs) n = of_bool (n \<in> set xs)"
  by (induction xs) auto

text \<open>
  C35. The metrics are exported as often as they are registered.  Whatever metrics the server has used before, it starts without
  a panic, and a second start in the same process panics.  After the start the families that are pushed, and those on the
  page, contain a metric that has samples once for its registration at the start and once for the registration by its own creation,
  so the vectors of \<open>register_*_vec!\<close> that are also registered by hand come twice, and a metric with neither is never exported.
\<close>

theorem metrics_exported:
  assumes "prometheus_registry ops" and "set used \<subseteq> set statics"
  shows "\<exists>st st'. each_metric (\<lambda>st m. use_metric ops m st) used (no_metrics ops) = Ok st \<and>
    metric_service_init ops (Some cfg) st = Ok (st', push_gateway_endpoint cfg \<noteq> None) \<and>
    metric_service_init ops (Some cfg) st' = Panic \<and>
    (\<forall>m \<in> set statics. sampled (metric_name m) \<longrightarrow>
       count_list (fst (push_round ops sampled server_id cfg st')) (metric_name m) =
         of_bool (m \<in> set custom_metrics) + of_bool (metric_home m \<noteq> Nowhere \<and> m \<in> set used \<union> set custom_metrics)) \<and>
    (\<exists>own general. fst (push_round ops sampled server_id cfg st') = own @ general \<and>
       metrics_page ops sampled (\<lambda>ms. Some (encode ms)) st' = encode own @ encode general)"
proof -
  obtain st where st: "each_metric (\<lambda>st m. use_metric ops m st) used (no_metrics ops) = Ok st" "registered ops {} st"
      "set (created st) = metric_name ` set used"
    using prometheus_registry.all_used [OF assms(1,2) prometheus_registry.new_registered [OF assms(1)]] by (auto simp: no_metrics_def)
  have d: "distinct custom_metrics" using custom_distinct by (simp add: distinct_map)
  obtain st' where st': "register_custom_metrics ops st = Ok st'" "registered ops (set custom_metrics) st'"
      "set (created st') = metric_name ` (set custom_metrics \<union> set used)"
    using prometheus_registry.all_by_hand [OF assms(1) order.refl st(2) _ d] st(3) by (auto simp: register_custom_metrics_def image_Un)
  have count: "count_list (fst (push_round ops sampled server_id cfg st')) (metric_name m) =
      of_bool (m \<in> set custom_metrics) + of_bool (metric_home m \<noteq> Nowhere \<and> m \<in> set used \<union> set custom_metrics)"
    if m: "m \<in> set statics" "sampled (metric_name m)" for m
  proof -
    have c: "metric_name m \<in> set (created st') \<longleftrightarrow> m \<in> set used \<union> set custom_metrics"
      using st'(3) assms(2) custom_statics m(1) static_eq by blast
    have "metric_home m \<noteq> In_REGISTRY" if "m \<in> set custom_metrics" using custom_home that by (simp add: list_all_iff)
    then show ?thesis using st'(2) m c
      by (cases "metric_home m") (auto simp: push_round_def gather_def registered_def count_filter_distinct)
  qed
  obtain m ms where ms: "custom_metrics = m # ms" by (cases custom_metrics) (simp_all add: custom_metrics_def)
  have m: "m \<in> set custom_metrics" unfolding ms by (rule list.set_intros(1))
  with custom_statics st'(3) have "m \<in> set statics" "metric_name m \<in> set (created st')" by blast+
  then have "register_in_REGISTRY ops m st' = Panic" by (rule prometheus_registry.by_hand_again [OF assms(1) st'(2) m])
  then have "register_custom_metrics ops st' = Panic" by (simp add: register_custom_metrics_def ms)
  with st(1) st'(1) count show ?thesis by (intro exI [of _ st] exI [of _ st']) (auto simp: metric_service_init_def push_round_def metrics_page_def)
qed

theorem metrics_exported_witness:
  "\<exists>st st'. metric_service_init list_registry (Some \<lparr>push_gateway_endpoint = None, push_interval_sec = 10, metric_conf_labels = None\<rparr>) st = Ok (st', False) \<and>
    count_list (fst (push_round list_registry (\<lambda>_. True) ''w'' \<lparr>push_gateway_endpoint = None, push_interval_sec = 10, metric_conf_labels = None\<rparr> st'))
      ''eventbus_queue_pending_size'' = 2 \<and>
    count_list (fst (push_round list_registry (\<lambda>_. True) ''w'' \<lparr>push_gateway_endpoint = None, push_interval_sec = 10, metric_conf_labels = None\<rparr> st'))
      ''memory_spill_hdfs_in_flushing_bytes'' = 0"
proof -
  let ?cfg = "\<lparr>push_gateway_endpoint = None, push_interval_sec = 10, metric_conf_labels = None\<rparr>"
  let ?b = GAUGE_EVENT_BUS_QUEUE_PENDING_SIZE and ?h = GAUGE_MEMORY_SPILL_HDFS_IN_FLUSHING_BYTES
  have b: "?b \<in> set statics" "?b \<in> set custom_metrics" "metric_home ?b = In_default" "metric_name ?b = ''eventbus_queue_pending_size''"
    by (simp add: statics_def, simp add: custom_metrics_def, simp_all add: static_defs)
  have h: "?h \<in> set statics" "metric_name ?h = ''memory_spill_hdfs_in_flushing_bytes''" "metric_home ?h = Nowhere"
    by (simp add: statics_def, simp_all add: static_defs)
  have "?h \<notin> set custom_metrics" by (simp add: custom_metrics_def static_defs)
  then show ?thesis
    using metrics_exported [OF list_registry.prometheus_registry_axioms, of "[]" ?cfg "\<lambda>_. True" "''w''"] b h by fastforce
qed

end
