(* ===== verification/Metric_Gauges.thy ===== *)
theory Metric_Gauges
  imports Metric_Registry Event_Bus Hybrid
begin

text \<open>
  The gauges that follow the work of the server: the monitor of running flushes (\<^verbatim>\<open>store/spill/metrics.rs\<close>), the layer around gRPC
  requests (\<^verbatim>\<open>grpc/layer/metric.rs\<close>), the queues of the event bus (\<^verbatim>\<open>event_bus.rs\<close>), the threads of a runtime
  (\<^verbatim>\<open>runtime/metrics.rs\<close>) and the huge partitions of an application (\<^verbatim>\<open>app.rs\<close>).

  Gauges and counters are the \<open>prometheus\<close> crate's, so their operations are an argument; \<open>metric_values\<close> says that a gauge is an
  \<open>i64\<close> and a counter a \<open>u64\<close> that wrap around, kept apart by name and labels.
\<close>

section \<open>Values\<close>

type_synonym metric_key = "string \<times> string list"

record 'm ValueOps =
  g_add :: "metric_key \<Rightarrow> int \<Rightarrow> 'm \<Rightarrow> 'm"
  g_remove :: "metric_key \<Rightarrow> 'm \<Rightarrow> 'm"
  g_value :: "'m \<Rightarrow> metric_key \<Rightarrow> int"
  c_add :: "metric_key \<Rightarrow> int \<Rightarrow> 'm \<Rightarrow> 'm"
  c_value :: "'m \<Rightarrow> metric_key \<Rightarrow> int"

locale metric_values =
  fixes ops :: "'m ValueOps"
  assumes gauge_add: "g_value ops (g_add ops k d s) k' = (if k' = k then i64 (g_value ops s k + d) else g_value ops s k')"
    and gauge_remove: "g_value ops (g_remove ops k s) k' = (if k' = k then 0 else g_value ops s k')"
    and counter_add: "c_value ops (c_add ops k d s) k' = (if k' = k then u64 (c_value ops s k + d) else c_value ops s k')"
    and apart: "g_value ops (c_add ops k d s) k' = g_value ops s k'" "c_value ops (g_add ops k d s) k' = c_value ops s k'"
      "c_value ops (g_remove ops k s) k' = c_value ops s k'"
begin

lemmas value_simps = gauge_add gauge_remove counter_add apart

end

record Values =
  gauge_map :: "(metric_key, int) dmap"
  counter_map :: "(metric_key, int) dmap"

definition value_of :: "(metric_key, int) dmap \<Rightarrow> metric_key \<Rightarrow> int" where
  "value_of m k = (case dm_get m k of Some v \<Rightarrow> v | None \<Rightarrow> 0)"

definition values_ops :: "Values ValueOps" where
  "values_ops = \<lparr>g_add = (\<lambda>k d s. s\<lparr>gauge_map := dm_insert k (i64 (value_of (gauge_map s) k + d)) (gauge_map s)\<rparr>),
     g_remove = (\<lambda>k s. s\<lparr>gauge_map := dm_remove k (gauge_map s)\<rparr>),
     g_value = (\<lambda>s. value_of (gauge_map s)),
     c_add = (\<lambda>k d s. s\<lparr>counter_map := dm_insert k (u64 (value_of (counter_map s) k + d)) (counter_map s)\<rparr>),
     c_value = (\<lambda>s. value_of (counter_map s))\<rparr>"

interpretation stored_values: metric_values values_ops
  by unfold_locales (auto simp: values_ops_def value_of_def dm_simps)

section \<open>The monitor of running flushes\<close>

fun debug_storage_type :: "StorageType \<Rightarrow> string" where
  "debug_storage_type MEMORY = ''MEMORY''"
| "debug_storage_type LOCALFILE = ''LOCALFILE''"
| "debug_storage_type MEMORY_LOCALFILE = ''MEMORY_LOCALFILE''"
| "debug_storage_type HDFS = ''HDFS''"
| "debug_storage_type MEMORY_HDFS = ''MEMORY_HDFS''"
| "debug_storage_type MEMORY_LOCALFILE_HDFS = ''MEMORY_LOCALFILE_HDFS''"

definition ALL_STORAGE_TYPE :: string where
  "ALL_STORAGE_TYPE = ''ALL''"

record FlushingMetricsMonitor =
  mon_size :: int
  mon_candidate_type :: "StorageType option"

definition flushing_bytes :: "string \<Rightarrow> metric_key" where
  "flushing_bytes l = (metric_name GAUGE_MEMORY_SPILL_IN_FLUSHING_BYTES, [l])"

definition flushing_operations :: "string \<Rightarrow> metric_key" where
  "flushing_operations l = (metric_name GAUGE_MEMORY_SPILL_IN_FLUSHING_OPERATION, [l])"

definition total_flushing_operations :: "string \<Rightarrow> metric_key" where
  "total_flushing_operations l = (metric_name TOTAL_MEMORY_SPILL_IN_FLUSHING_OPERATION, [l])"

text \<open>The block of calls for one label; the observation of the histogram is left out.\<close>

definition monitor_enter :: "'m ValueOps \<Rightarrow> int \<Rightarrow> string \<Rightarrow> 'm \<Rightarrow> 'm" where
  "monitor_enter ops sz l s =
     g_add ops (flushing_operations l) 1 (c_add ops (total_flushing_operations l) 1 (g_add ops (flushing_bytes l) sz s))"

definition monitor_new ::
    "'m ValueOps \<Rightarrow> string \<Rightarrow> int \<Rightarrow> StorageType option \<Rightarrow> 'm \<Rightarrow> 'm \<times> FlushingMetricsMonitor" where
  "monitor_new ops app sz candidate s =
     (let s1 = monitor_enter ops sz ALL_STORAGE_TYPE s;
          s2 = (case candidate of
                  Some t \<Rightarrow> c_add ops (metric_name TOTAL_APP_FLUSHED_BYTES, [app, debug_storage_type t]) (u64 sz)
                              (monitor_enter ops sz (debug_storage_type t) s1)
                | None \<Rightarrow> s1)
      in (s2, \<lparr>mon_size = sz, mon_candidate_type = candidate\<rparr>))"

definition monitor_leave :: "'m ValueOps \<Rightarrow> int \<Rightarrow> string \<Rightarrow> 'm \<Rightarrow> 'm" where
  "monitor_leave ops sz l s = g_add ops (flushing_operations l) (- 1) (g_add ops (flushing_bytes l) (- sz) s)"

definition monitor_drop :: "'m ValueOps \<Rightarrow> FlushingMetricsMonitor \<Rightarrow> 'm \<Rightarrow> 'm" where
  "monitor_drop ops m s =
     (let s1 = monitor_leave ops (mon_size m) ALL_STORAGE_TYPE s
      in case mon_candidate_type m of Some t \<Rightarrow> monitor_leave ops (mon_size m) (debug_storage_type t) s1 | None \<Rightarrow> s1)"

text \<open>
  The start of \<open>StorageFlushHandler::on_event\<close>: \<open>let _ = FlushingMetricsMonitor::new(..)\<close>.  The pattern \<open>_\<close> binds nothing, so the
  monitor is dropped at the end of this statement, before the flush starts.
\<close>

definition flush_metrics :: "'m ValueOps \<Rightarrow> SpillMessage \<Rightarrow> 'm \<Rightarrow> 'm" where
  "flush_metrics ops msg s =
     (let (s', m) = monitor_new ops (app_id (spill_uid (msg_ctx msg))) (msg_size msg) (candidate_store_type msg) s
      in monitor_drop ops m s')"

fun flushes_metrics :: "'m ValueOps \<Rightarrow> SpillMessage list \<Rightarrow> 'm \<Rightarrow> 'm" where
  "flushes_metrics ops [] s = s"
| "flushes_metrics ops (msg # msgs) s = flushes_metrics ops msgs (flush_metrics ops msg s)"

section \<open>Requests over gRPC\<close>

definition grpc_requests :: metric_key where
  "grpc_requests = (metric_name GAUGE_GRPC_REQUEST_QUEUE_SIZE, [])"

definition total_grpc_requests :: metric_key where
  "total_grpc_requests = (metric_name TOTAL_GRPC_REQUEST, [])"

definition layer_call :: "'m ValueOps \<Rightarrow> 'm \<Rightarrow> 'm" where
  "layer_call ops s = g_add ops grpc_requests 1 (c_add ops total_grpc_requests 1 s)"

text \<open>
  How the future of a call ends: with a response, with an error, which \<open>?\<close> returns before the gauge is decremented, or by being dropped
  while it waits, as when the client goes away.
\<close>

datatype call_end = Responded | Failed | Dropped

definition layer_end :: "'m ValueOps \<Rightarrow> call_end \<Rightarrow> 'm \<Rightarrow> 'm" where
  "layer_end ops e s = (case e of Responded \<Rightarrow> g_add ops grpc_requests (- 1) s | _ \<Rightarrow> s)"

datatype layer_event = Call | End call_end

fun layer_events :: "'m ValueOps \<Rightarrow> layer_event list \<Rightarrow> 'm \<Rightarrow> 'm" where
  "layer_events ops [] s = s"
| "layer_events ops (Call # es) s = layer_events ops es (layer_call ops s)"
| "layer_events ops (End e # es) s = layer_events ops es (layer_end ops e s)"

section \<open>Queues of the event bus\<close>

definition pending_size :: "string \<Rightarrow> metric_key" where
  "pending_size bus = (metric_name GAUGE_EVENT_BUS_QUEUE_PENDING_SIZE, [bus])"

definition handling_size :: "string \<Rightarrow> metric_key" where
  "handling_size bus = (metric_name GAUGE_EVENT_BUS_QUEUE_HANDLING_SIZE, [bus])"

definition publish_metrics :: "'m ValueOps \<Rightarrow> string \<Rightarrow> 'm \<Rightarrow> 'm" where
  "publish_metrics ops bus s =
     c_add ops (metric_name TOTAL_EVENT_BUS_EVENT_PUBLISHED_SIZE, [bus]) 1 (g_add ops (pending_size bus) 1 s)"

definition task_start_metrics :: "'m ValueOps \<Rightarrow> string \<Rightarrow> 'm \<Rightarrow> 'm" where
  "task_start_metrics ops bus s = g_add ops (pending_size bus) (- 1) (g_add ops (handling_size bus) 1 s)"

definition task_end_metrics :: "'m ValueOps \<Rightarrow> string \<Rightarrow> 'm \<Rightarrow> 'm" where
  "task_end_metrics ops bus s =
     c_add ops (metric_name TOTAL_EVENT_BUS_EVENT_HANDLED_SIZE, [bus]) 1 (g_add ops (handling_size bus) (- 1) s)"

text \<open>A bus with its metrics: publishing, a task that starts, one that ends and one whose subscriber panics.\<close>

inductive metered_step :: "'m ValueOps \<Rightarrow> string \<Rightarrow> 'e EventBus \<times> 'm \<times> nat \<Rightarrow> 'e EventBus \<times> 'm \<times> nat \<Rightarrow> bool" for ops bus where
  Published: "metered_step ops bus (b, s, p) (publish e b, publish_metrics ops bus s, p)"
| Started: "receive b = Some b' \<Longrightarrow> metered_step ops bus (b, s, p) (b', task_start_metrics ops bus s, p)"
| Ended: "i < length (running b) \<Longrightarrow> metered_step ops bus (b, s, p) (complete i b, task_end_metrics ops bus s, p)"
| Panicked: "i < length (running b) \<Longrightarrow> metered_step ops bus (b, s, p) (complete i b, s, Suc p)"

section \<open>Threads of a runtime\<close>

datatype thread_event = Thread_start | Thread_stop | Thread_park | Thread_unpark

definition thread_metrics :: "'m ValueOps \<Rightarrow> string \<Rightarrow> thread_event \<Rightarrow> 'm \<Rightarrow> 'm" where
  "thread_metrics ops name e s =
     (case e of
        Thread_start \<Rightarrow> g_add ops (metric_name GAUGE_RUNTIME_ALIVE_THREAD_NUM, [name]) 1 s
      | Thread_stop \<Rightarrow> g_add ops (metric_name GAUGE_RUNTIME_ALIVE_THREAD_NUM, [name]) (- 1) s
      | Thread_park \<Rightarrow> g_add ops (metric_name GAUGE_RUNTIME_IDLE_THREAD_NUM, [name]) 1 s
      | Thread_unpark \<Rightarrow> g_add ops (metric_name GAUGE_RUNTIME_IDLE_THREAD_NUM, [name]) (- 1) s)"

section \<open>Huge partitions\<close>

definition huge_partitions :: "string \<Rightarrow> metric_key" where
  "huge_partitions l = (metric_name GAUGE_HUGE_PARTITION_NUMBER, [l])"

definition ALL_LABEL :: string where
  "ALL_LABEL = ''ALL''"

definition add_huge_partition_gauge :: "'m ValueOps \<Rightarrow> string \<Rightarrow> 'm \<Rightarrow> 'm" where
  "add_huge_partition_gauge ops app s =
     g_add ops (huge_partitions app) 1 (g_add ops (huge_partitions ALL_LABEL) 1 (c_add ops (metric_name TOTAL_HUGE_PARTITION_NUMBER, []) 1 s))"

text \<open>The error of removing a label that is not there is only logged.\<close>

definition sub_huge_partition_gauge :: "'m ValueOps \<Rightarrow> string \<Rightarrow> int \<Rightarrow> 'm \<Rightarrow> 'm" where
  "sub_huge_partition_gauge ops app number s =
     (if 0 < number then g_remove ops (huge_partitions app) (g_add ops (huge_partitions ALL_LABEL) (- i64 number) s) else s)"

section \<open>What the gauges show\<close>

lemma flushing_keys [simp]:
  "flushing_bytes l = flushing_bytes l' \<longleftrightarrow> l = l'" "flushing_operations l = flushing_operations l' \<longleftrightarrow> l = l'"
  "flushing_bytes l \<noteq> flushing_operations l'" "flushing_operations l \<noteq> flushing_bytes l'"
  by (simp_all add: flushing_bytes_def flushing_operations_def static_defs)

lemma debug_not_ALL [simp]: "debug_storage_type t \<noteq> ALL_STORAGE_TYPE" "ALL_STORAGE_TYPE \<noteq> debug_storage_type t"
  by (cases t; simp add: ALL_STORAGE_TYPE_def)+

text \<open>The labels under which a monitor counts.\<close>

definition monitor_labels :: "FlushingMetricsMonitor \<Rightarrow> string list" where
  "monitor_labels m = ALL_STORAGE_TYPE # (case mon_candidate_type m of Some t \<Rightarrow> [debug_storage_type t] | None \<Rightarrow> [])"

context metric_values
begin

lemma monitor_new_gauges:
  assumes "monitor_new ops app sz t s = (s', m)"
  shows "g_value ops s' (flushing_bytes l) =
      (if l \<in> set (monitor_labels m) then i64 (g_value ops s (flushing_bytes l) + mon_size m) else g_value ops s (flushing_bytes l))"
    and "g_value ops s' (flushing_operations l) =
      (if l \<in> set (monitor_labels m) then i64 (g_value ops s (flushing_operations l) + 1) else g_value ops s (flushing_operations l))"
  using assms by (cases t; auto simp: monitor_new_def monitor_enter_def monitor_labels_def value_simps Let_def)+

lemma monitor_drop_gauges:
  "g_value ops (monitor_drop ops m s) (flushing_bytes l) =
     (if l \<in> set (monitor_labels m) then i64 (g_value ops s (flushing_bytes l) - mon_size m) else g_value ops s (flushing_bytes l))"
  "g_value ops (monitor_drop ops m s) (flushing_operations l) =
     (if l \<in> set (monitor_labels m) then i64 (g_value ops s (flushing_operations l) - 1) else g_value ops s (flushing_operations l))"
  by (cases "mon_candidate_type m"; auto simp: monitor_drop_def monitor_leave_def monitor_labels_def value_simps Let_def)+

lemma flush_metrics_gauges:
  assumes "is_i64 (g_value ops s (flushing_bytes l))" and "is_i64 (g_value ops s (flushing_operations l))"
  shows "g_value ops (flush_metrics ops msg s) (flushing_bytes l) = g_value ops s (flushing_bytes l)"
    and "g_value ops (flush_metrics ops msg s) (flushing_operations l) = g_value ops s (flushing_operations l)"
  using assms by (auto simp: flush_metrics_def monitor_drop_gauges monitor_new_gauges i64_is_id split: prod.splits)

lemma flush_metrics_total:
  "c_value ops (flush_metrics ops msg s) (total_flushing_operations ALL_STORAGE_TYPE) =
     u64 (c_value ops s (total_flushing_operations ALL_STORAGE_TYPE) + 1)"
proof -
  have "total_flushing_operations l \<noteq> (metric_name TOTAL_APP_FLUSHED_BYTES, ls)" for l ls
    by (simp add: total_flushing_operations_def static_defs)
  moreover have "total_flushing_operations l = total_flushing_operations l' \<longleftrightarrow> l = l'" for l l'
    by (simp add: total_flushing_operations_def)
  ultimately show ?thesis
    by (cases "candidate_store_type msg")
      (simp_all add: flush_metrics_def monitor_new_def monitor_enter_def monitor_drop_def monitor_leave_def value_simps Let_def)
qed

text \<open>The requests that ended without a response are counted as queued for ever.\<close>

fun unanswered :: "layer_event list \<Rightarrow> int" where
  "unanswered [] = 0"
| "unanswered (Call # es) = unanswered es + 1"
| "unanswered (End Responded # es) = unanswered es - 1"
| "unanswered (End _ # es) = unanswered es"

lemma layer_events_gauge:
  "is_i64 (g_value ops s grpc_requests) \<Longrightarrow>
   g_value ops (layer_events ops es s) grpc_requests = i64 (g_value ops s grpc_requests + unanswered es)"
proof (induction es arbitrary: s rule: unanswered.induct)
  case (2 es)
  then show ?case by (simp add: layer_call_def value_simps algebra_simps)
next
  case (3 es)
  then show ?case by (simp add: layer_end_def value_simps algebra_simps)
qed (simp_all add: layer_end_def value_simps i64_is_id)

lemma huge_partitions_balance:
  assumes "app \<noteq> ALL_LABEL" and "0 \<le> int n" "int n < 2 ^ 63" and "is_i64 (g_value ops s (huge_partitions ALL_LABEL))"
  shows "g_value ops (sub_huge_partition_gauge ops app (int n) ((add_huge_partition_gauge ops app ^^ n) s)) (huge_partitions ALL_LABEL) =
    g_value ops s (huge_partitions ALL_LABEL)"
proof -
  have key: "huge_partitions app \<noteq> huge_partitions ALL_LABEL" using assms(1) by (simp add: huge_partitions_def)
  have "g_value ops ((add_huge_partition_gauge ops app ^^ n) s) (huge_partitions ALL_LABEL) = i64 (g_value ops s (huge_partitions ALL_LABEL) + int n)"
    using assms(4) key by (induction n) (simp_all add: add_huge_partition_gauge_def value_simps i64_is_id algebra_simps)
  with assms key show ?thesis by (auto simp: sub_huge_partition_gauge_def value_simps i64_id i64_is_id)
qed

text \<open>An application that is called like the label of the sum takes the sum away with its own label.\<close>

lemma huge_partitions_ALL:
  "0 < n \<Longrightarrow> g_value ops (sub_huge_partition_gauge ops ALL_LABEL n s) (huge_partitions ALL_LABEL) = 0"
  by (simp add: sub_huge_partition_gauge_def value_simps)

lemma bus_keys [simp]: "pending_size b \<noteq> handling_size b" "handling_size b \<noteq> pending_size b"
  by (simp_all add: pending_size_def handling_size_def static_defs)

lemma metered_step_gauges:
  assumes "metered_step ops bus (b, s, p) (b', s', p')"
    and "g_value ops s (pending_size bus) = i64 (int (length (queue b)))"
    and "g_value ops s (handling_size bus) = i64 (int (length (running b)) + int p)"
  shows "g_value ops s' (pending_size bus) = i64 (int (length (queue b'))) \<and>
    g_value ops s' (handling_size bus) = i64 (int (length (running b')) + int p')"
  using assms
proof (cases rule: metered_step.cases)
  case (Published e)
  then show ?thesis using assms(2,3) by (simp add: publish_def publish_metrics_def value_simps algebra_simps)
next
  case Started
  then show ?thesis using assms(2,3)
    by (auto simp: receive_def task_start_metrics_def value_simps algebra_simps split: list.splits if_splits)
next
  case (Ended i)
  then show ?thesis using assms(2,3) by (auto simp: complete_def task_end_metrics_def value_simps algebra_simps of_nat_diff)
next
  case (Panicked i)
  then show ?thesis using assms(2,3) by (auto simp: complete_def of_nat_diff algebra_simps)
qed

end

text \<open>
  C40. The gauges of running flushes never move.  The monitor that should keep the bytes and the number of the flushes in progress is dropped
  before the flush starts, so during any flush, whatever flushes have started or ended before, all these gauges have the
  values from before; only the total number of operations grows.
\<close>

theorem flushing_gauges_idle:
  assumes "metric_values ops" and "is_i64 (g_value ops s (flushing_bytes l))" and "is_i64 (g_value ops s (flushing_operations l))"
    and "is_u64 (c_value ops s (total_flushing_operations ALL_STORAGE_TYPE))"
  shows "g_value ops (flushes_metrics ops msgs s) (flushing_bytes l) = g_value ops s (flushing_bytes l) \<and>
    g_value ops (flushes_metrics ops msgs s) (flushing_operations l) = g_value ops s (flushing_operations l) \<and>
    c_value ops (flushes_metrics ops msgs s) (total_flushing_operations ALL_STORAGE_TYPE) =
      u64 (c_value ops s (total_flushing_operations ALL_STORAGE_TYPE) + int (length msgs))"
  using assms(2-4)
proof (induction msgs arbitrary: s)
  case Nil
  then show ?case by (simp add: u64_is_id)
next
  case (Cons msg msgs)
  note g = metric_values.flush_metrics_gauges [OF assms(1) Cons.prems(1,2)] metric_values.flush_metrics_total [OF assms(1)]
  show ?case using Cons.IH [of "flush_metrics ops msg s"] Cons.prems by (simp add: g add.assoc)
qed

theorem flushing_gauges_idle_witness:
  "let s = \<lparr>gauge_map = [], counter_map = []\<rparr>;
       msg = \<lparr>msg_ctx = \<lparr>spill_uid = part ''a'' 0, spill_data_blocks = []\<rparr>, msg_size = 5, retry_cnt = 0, msg_flight_id = 0,
              candidate_store_type = Some LOCALFILE\<rparr>
   in g_value values_ops (flushes_metrics values_ops [msg, msg] s) (flushing_bytes ''LOCALFILE'') = 0 \<and>
      c_value values_ops (flushes_metrics values_ops [msg, msg] s) (total_flushing_operations ALL_STORAGE_TYPE) = 2"
proof -
  have "g_value values_ops \<lparr>gauge_map = [], counter_map = []\<rparr> k = 0" "c_value values_ops \<lparr>gauge_map = [], counter_map = []\<rparr> k = 0" for k
    by (simp_all add: values_ops_def value_of_def)
  then show ?thesis
    using flushing_gauges_idle [OF stored_values.metric_values_axioms, of "\<lparr>gauge_map = [], counter_map = []\<rparr>" "''LOCALFILE''"]
    by (simp add: is_i64_def is_u64_def u64_id Let_def del: flushes_metrics.simps)
qed

text \<open>
  The gauges of an event bus are exact but for panics: in every state that it can reach the pending gauge is the number of events
  that wait, and the handling gauge is the number of running tasks and of the tasks that have panicked.
\<close>

theorem bus_gauges:
  assumes "metric_values ops" and "(metered_step ops bus)\<^sup>*\<^sup>* (new_event_bus n, s0, 0) (b, s, p)"
    and "g_value ops s0 (pending_size bus) = 0" and "g_value ops s0 (handling_size bus) = 0"
  shows "g_value ops s (pending_size bus) = i64 (int (length (queue b))) \<and>
    g_value ops s (handling_size bus) = i64 (int (length (running b)) + int p)"
  using assms(2)
proof (induction "(b, s, p)" arbitrary: b s p rule: rtranclp_induct)
  case base
  then show ?case using assms(3,4) by (simp add: new_event_bus_def)
next
  case (step q)
  obtain b1 s1 p1 where q: "q = (b1, s1, p1)" by (cases q)
  from metric_values.metered_step_gauges [OF assms(1) step(2) [unfolded q]] step(3) [OF q] show ?case by blast
qed

end
