(* ===== verification/Server_Config.thy ===== *)
theory Server_Config
  imports Hybrid Metric_Registry
begin

text \<open>
  The configuration of the server, \<^verbatim>\<open>config.rs\<close>.  The parser of TOML is a library; it delivers the fields that the text has, and
  the defaults of the source fill in the others.  A field with a default is therefore optional in the raw configuration.
\<close>

section \<open>What the text of a configuration has\<close>

record RawMemoryStore =
  raw_capacity :: string
  raw_ticket_timeout_sec :: "int option"
  raw_ticket_check_interval_sec :: "int option"

record RawLocalfileStore =
  raw_data_paths :: "string list"
  raw_min_available_disks :: "int option"
  raw_disk_high_watermark :: "flt option"
  raw_disk_low_watermark :: "flt option"

record KerberosSecurityConfig =
  keytab_path :: string
  principal :: string

record RawHdfsStore =
  raw_max_concurrency :: "nat option"
  raw_partition_write_max_concurrency :: "nat option"
  raw_kerberos :: "KerberosSecurityConfig option"

record RawRuntime =
  raw_read_thread_num :: "nat option"
  raw_localfile_write_thread_num :: "nat option"
  raw_hdfs_write_thread_num :: "nat option"
  raw_http_thread_num :: "nat option"
  raw_default_thread_num :: "nat option"
  raw_dispatch_thread_num :: "nat option"

record RawHybridStore =
  raw_spill_high_watermark :: "flt option"
  raw_spill_low_watermark :: "flt option"
  raw_single_buffer_max_spill_size :: "string option"
  raw_spill_to_cold_threshold_size :: "string option"
  raw_spill_to_localfile_concurrency :: "int option"
  raw_spill_to_hdfs_concurrency :: "int option"
  raw_huge_partition_threshold_size :: "string option"

record RawApp =
  raw_heartbeat_timeout_min :: "int option"
  raw_huge_partition_marked_threshold :: "string option"
  raw_huge_partition_memory_limit_percent :: "flt option"

record RawMetrics =
  raw_push_gateway_endpoint :: "string option"
  raw_push_interval_sec :: "int option"
  raw_labels :: "(string, string) dmap option"

datatype RotationConfig = Hourly | Daily | Never

record RawLog =
  raw_log_path :: string
  raw_rotation :: "RotationConfig option"

record TracingConfig =
  jaeger_reporter_endpoint :: string
  jaeger_service_name :: string

record RawConfig =
  raw_hybrid_store :: "RawHybridStore option"
  raw_memory_store :: "RawMemoryStore option"
  raw_localfile_store :: "RawLocalfileStore option"
  raw_hdfs_store :: "RawHdfsStore option"
  raw_store_type :: "StorageType option"
  raw_runtime_config :: "RawRuntime option"
  raw_metrics :: "RawMetrics option"
  raw_grpc_port :: "int option"
  raw_urpc_port :: "int option"
  raw_coordinator_quorum :: "string list"
  raw_tags :: "string list option"
  raw_log :: "RawLog option"
  raw_app_config :: "RawApp option"
  raw_http_monitor_service_port :: "int option"
  raw_tracing :: "TracingConfig option"
  raw_alive_app_number_max_limit :: "nat option" \<comment> \<open>of \<open>health_service_config\<close>\<close>
  raw_heartbeat_interval_seconds :: "int option"

section \<open>The configuration with its defaults\<close>

definition unwrap_or :: "'a option \<Rightarrow> 'a \<Rightarrow> 'a" where
  "unwrap_or v d = (case v of None \<Rightarrow> d | Some x \<Rightarrow> x)"

lemma unwrap_or_simps [simp]: "unwrap_or None d = d" "unwrap_or (Some x) d = x"
  by (simp_all add: unwrap_or_def)

definition f32 :: "rat \<Rightarrow> flt" where
  "f32 q = Fin (round_to f32_bits q)"

definition memory_store_config :: "RawMemoryStore \<Rightarrow> MemoryStoreConfig" where
  "memory_store_config r =
     \<lparr>conf_capacity = raw_capacity r, conf_ticket_timeout_sec = unwrap_or (raw_ticket_timeout_sec r) (5 * 60),
      conf_ticket_check_interval_sec = unwrap_or (raw_ticket_check_interval_sec r) 10\<rparr>"

definition localfile_store_config :: "RawLocalfileStore \<Rightarrow> LocalfileStoreConfig" where
  "localfile_store_config r =
     \<lparr>data_paths = raw_data_paths r, conf_min_available_disks = unwrap_or (raw_min_available_disks r) 1,
      disk_high_watermark = unwrap_or (raw_disk_high_watermark r) (f32 (8 / 10)),
      disk_low_watermark = unwrap_or (raw_disk_low_watermark r) (f32 (7 / 10))\<rparr>"

record HdfsStoreConfig =
  max_concurrency :: nat
  partition_write_max_concurrency :: nat
  kerberos_security_config :: "KerberosSecurityConfig option"

definition hdfs_store_config :: "RawHdfsStore \<Rightarrow> HdfsStoreConfig" where
  "hdfs_store_config r =
     \<lparr>max_concurrency = unwrap_or (raw_max_concurrency r) 50,
      partition_write_max_concurrency = unwrap_or (raw_partition_write_max_concurrency r) 20, kerberos_security_config = raw_kerberos r\<rparr>"

record RuntimeConfig =
  read_thread_num :: nat
  localfile_write_thread_num :: nat
  hdfs_write_thread_num :: nat
  http_thread_num :: nat
  default_thread_num :: nat
  dispatch_thread_num :: nat

definition default_runtime_config :: RuntimeConfig where
  "default_runtime_config =
     \<lparr>read_thread_num = 100, localfile_write_thread_num = 100, hdfs_write_thread_num = 20, http_thread_num = 2,
      default_thread_num = 10, dispatch_thread_num = 100\<rparr>"

definition runtime_config_of :: "RawRuntime \<Rightarrow> RuntimeConfig" where
  "runtime_config_of r =
     (let d = default_runtime_config
      in \<lparr>read_thread_num = unwrap_or (raw_read_thread_num r) (read_thread_num d),
          localfile_write_thread_num = unwrap_or (raw_localfile_write_thread_num r) (localfile_write_thread_num d),
          hdfs_write_thread_num = unwrap_or (raw_hdfs_write_thread_num r) (hdfs_write_thread_num d),
          http_thread_num = unwrap_or (raw_http_thread_num r) (http_thread_num d),
          default_thread_num = unwrap_or (raw_default_thread_num r) (default_thread_num d),
          dispatch_thread_num = unwrap_or (raw_dispatch_thread_num r) (dispatch_thread_num d)\<rparr>)"

definition hybrid_store_config :: "RawHybridStore \<Rightarrow> HybridStoreConfig" where
  "hybrid_store_config r =
     \<lparr>memory_spill_high_watermark = unwrap_or (raw_spill_high_watermark r) (f32 (8 / 10)),
      memory_spill_low_watermark = unwrap_or (raw_spill_low_watermark r) (f32 (2 / 10)),
      memory_single_buffer_max_spill_size = raw_single_buffer_max_spill_size r,
      conf_memory_spill_to_cold_threshold_size = raw_spill_to_cold_threshold_size r,
      memory_spill_to_localfile_concurrency = raw_spill_to_localfile_concurrency r,
      memory_spill_to_hdfs_concurrency = raw_spill_to_hdfs_concurrency r,
      conf_huge_partition_memory_spill_to_hdfs_threshold_size = unwrap_or (raw_huge_partition_threshold_size r) ''64M''\<rparr>"

definition default_hybrid_store_config :: HybridStoreConfig where
  "default_hybrid_store_config =
     \<lparr>memory_spill_high_watermark = f32 (8 / 10), memory_spill_low_watermark = f32 (2 / 10),
      memory_single_buffer_max_spill_size = None, conf_memory_spill_to_cold_threshold_size = None,
      memory_spill_to_localfile_concurrency = None, memory_spill_to_hdfs_concurrency = None,
      conf_huge_partition_memory_spill_to_hdfs_threshold_size = ''64M''\<rparr>"

definition app_config_of :: "RawApp \<Rightarrow> AppConfig" where
  "app_config_of r =
     \<lparr>app_heartbeat_timeout_min = unwrap_or (raw_heartbeat_timeout_min r) 5,
      conf_huge_partition_marked_threshold = raw_huge_partition_marked_threshold r,
      huge_partition_memory_limit_percent = raw_huge_partition_memory_limit_percent r\<rparr>"

definition as_default_app_config :: AppConfig where
  "as_default_app_config =
     \<lparr>app_heartbeat_timeout_min = 5, conf_huge_partition_marked_threshold = None, huge_partition_memory_limit_percent = None\<rparr>"

definition metrics_config :: "RawMetrics \<Rightarrow> MetricsConfig" where
  "metrics_config r =
     \<lparr>push_gateway_endpoint = raw_push_gateway_endpoint r, push_interval_sec = unwrap_or (raw_push_interval_sec r) 10,
      metric_conf_labels = raw_labels r\<rparr>"

record LogConfig =
  log_path :: string
  rotation :: RotationConfig

text \<open>Without a section for the log it rotates by the hour, with a section that does not say so by the day.\<close>

definition log_config :: "RawLog \<Rightarrow> LogConfig" where
  "log_config r = \<lparr>log_path = raw_log_path r, rotation = unwrap_or (raw_rotation r) Daily\<rparr>"

definition default_log_config :: LogConfig where
  "default_log_config = \<lparr>log_path = ''/tmp/'', rotation = Hourly\<rparr>"

record ServerConfig =
  hybrid_store :: HybridStoreConfig
  memory_store :: "MemoryStoreConfig option"
  localfile_store :: "LocalfileStoreConfig option"
  hdfs_store :: "HdfsStoreConfig option"
  conf_store_type :: StorageType
  runtime_config :: RuntimeConfig
  conf_metrics :: "MetricsConfig option"
  grpc_port :: int
  urpc_port :: "int option"
  coordinator_quorum :: "string list"
  conf_tags :: "string list option"
  conf_log :: LogConfig
  conf_app_config :: AppConfig
  http_monitor_service_port :: int
  conf_tracing :: "TracingConfig option"
  alive_app_number_max_limit :: "nat option"
  heartbeat_interval_seconds :: int

definition with_defaults :: "RawConfig \<Rightarrow> ServerConfig" where
  "with_defaults r =
     \<lparr>hybrid_store = unwrap_or (map_option hybrid_store_config (raw_hybrid_store r)) default_hybrid_store_config,
      memory_store = map_option memory_store_config (raw_memory_store r),
      localfile_store = map_option localfile_store_config (raw_localfile_store r),
      hdfs_store = map_option hdfs_store_config (raw_hdfs_store r),
      conf_store_type = unwrap_or (raw_store_type r) MEMORY,
      runtime_config = unwrap_or (map_option runtime_config_of (raw_runtime_config r)) default_runtime_config,
      conf_metrics = map_option metrics_config (raw_metrics r),
      grpc_port = unwrap_or (raw_grpc_port r) 19999, urpc_port = raw_urpc_port r,
      coordinator_quorum = raw_coordinator_quorum r, conf_tags = raw_tags r,
      conf_log = unwrap_or (map_option log_config (raw_log r)) default_log_config,
      conf_app_config = unwrap_or (map_option app_config_of (raw_app_config r)) as_default_app_config,
      http_monitor_service_port = unwrap_or (raw_http_monitor_service_port r) 20010,
      conf_tracing = raw_tracing r, alive_app_number_max_limit = raw_alive_app_number_max_limit r,
      heartbeat_interval_seconds = unwrap_or (raw_heartbeat_interval_seconds r) 2\<rparr>"

text \<open>The part that the stores and the manager of applications read.\<close>

definition store_config :: "ServerConfig \<Rightarrow> Config" where
  "store_config c =
     \<lparr>conf_hybrid_store = hybrid_store c, conf_memory_store = memory_store c, conf_localfile_store = localfile_store c,
      conf_hdfs_store = map_option partition_write_max_concurrency (hdfs_store c), store_type = conf_store_type c,
      app_config = conf_app_config c\<rparr>"

section \<open>Reading a configuration\<close>

text \<open>\<open>toml\<close> is the parser, \<open>read_file\<close> the file system: a file or a text that cannot be read panics.\<close>

definition config_from :: "(string \<Rightarrow> RawConfig option) \<Rightarrow> (string \<Rightarrow> string option) \<Rightarrow> string \<Rightarrow> (ServerConfig, unit) outcome" where
  "config_from toml read_file cfg_path =
     (case read_file cfg_path of
        None \<Rightarrow> Panic
      | Some content \<Rightarrow> (case toml content of None \<Rightarrow> Panic | Some raw \<Rightarrow> Ok (with_defaults raw)))"

definition CONFIG_FILE_PATH_KEY :: string where
  "CONFIG_FILE_PATH_KEY = ''WORKER_CONFIG_PATH''"

definition create_from_env ::
    "(string \<Rightarrow> RawConfig option) \<Rightarrow> (string \<Rightarrow> string option) \<Rightarrow> (string, string) dmap \<Rightarrow> (ServerConfig, unit) outcome" where
  "create_from_env toml read_file env =
     (case dm_get env CONFIG_FILE_PATH_KEY of Some path \<Rightarrow> config_from toml read_file path | None \<Rightarrow> Panic)"

text \<open>The two configurations of the source, as the parser delivers their texts.\<close>

definition no_raw_config :: RawConfig where
  "no_raw_config =
     \<lparr>raw_hybrid_store = None, raw_memory_store = None, raw_localfile_store = None, raw_hdfs_store = None, raw_store_type = None,
      raw_runtime_config = None, raw_metrics = None, raw_grpc_port = None, raw_urpc_port = None, raw_coordinator_quorum = [],
      raw_tags = None, raw_log = None, raw_app_config = None, raw_http_monitor_service_port = None, raw_tracing = None,
      raw_alive_app_number_max_limit = None, raw_heartbeat_interval_seconds = None\<rparr>"

definition create_mem_localfile_config :: "int \<Rightarrow> string \<Rightarrow> string \<Rightarrow> ServerConfig" where
  "create_mem_localfile_config port cap local_data_path =
     with_defaults (no_raw_config
       \<lparr>raw_store_type := Some MEMORY_LOCALFILE, raw_coordinator_quorum := [''''], raw_grpc_port := Some port,
        raw_memory_store := Some \<lparr>raw_capacity = cap, raw_ticket_timeout_sec = None, raw_ticket_check_interval_sec = None\<rparr>,
        raw_localfile_store := Some \<lparr>raw_data_paths = [local_data_path], raw_min_available_disks = None,
          raw_disk_high_watermark = None, raw_disk_low_watermark = None\<rparr>\<rparr>)"

definition create_simple_config :: ServerConfig where
  "create_simple_config =
     with_defaults (no_raw_config
       \<lparr>raw_store_type := Some MEMORY, raw_coordinator_quorum := [''''], raw_grpc_port := Some 19999,
        raw_memory_store := Some \<lparr>raw_capacity = ''1M'', raw_ticket_timeout_sec = None, raw_ticket_check_interval_sec = None\<rparr>,
        raw_hybrid_store := Some \<lparr>raw_spill_high_watermark = Some (f32 (8 / 10)), raw_spill_low_watermark = Some (f32 (2 / 10)),
          raw_single_buffer_max_spill_size = Some ''256M'', raw_spill_to_cold_threshold_size = None,
          raw_spill_to_localfile_concurrency = None, raw_spill_to_hdfs_concurrency = None,
          raw_huge_partition_threshold_size = None\<rparr>\<rparr>)"

text \<open>An empty section means the same as no section for the stores, the threads and the applications, but not for the log.\<close>

lemma empty_sections:
  "hybrid_store_config \<lparr>raw_spill_high_watermark = None, raw_spill_low_watermark = None, raw_single_buffer_max_spill_size = None,
     raw_spill_to_cold_threshold_size = None, raw_spill_to_localfile_concurrency = None, raw_spill_to_hdfs_concurrency = None,
     raw_huge_partition_threshold_size = None\<rparr> = default_hybrid_store_config"
  "runtime_config_of \<lparr>raw_read_thread_num = None, raw_localfile_write_thread_num = None, raw_hdfs_write_thread_num = None,
     raw_http_thread_num = None, raw_default_thread_num = None, raw_dispatch_thread_num = None\<rparr> = default_runtime_config"
  "app_config_of \<lparr>raw_heartbeat_timeout_min = None, raw_huge_partition_marked_threshold = None,
     raw_huge_partition_memory_limit_percent = None\<rparr> = as_default_app_config"
  "log_config \<lparr>raw_log_path = ''/tmp/'', raw_rotation = None\<rparr> \<noteq> default_log_config"
  by (simp_all add: hybrid_store_config_def default_hybrid_store_config_def runtime_config_of_def default_runtime_config_def
      app_config_of_def as_default_app_config_def log_config_def default_log_config_def)

end
