(* ===== verification/Server_Start.thy ===== *)
theory Server_Start
  imports Server_Config Util Health No_Loss Metric_Export
begin

text \<open>
  The start of the process: the login of \<^verbatim>\<open>kerberos.rs\<close>, the thread pools of \<^verbatim>\<open>runtime/manager.rs\<close>, the ports of
  \<^verbatim>\<open>rpc.rs\<close> and \<^verbatim>\<open>http/http_service.rs\<close>, and the order of \<^verbatim>\<open>main.rs\<close>.  What the process asks of its host (its address, its
  ports, its cores, its environment, the commands it runs) is a record of answers.
\<close>

section \<open>Kerberos\<close>

record Output =
  success :: bool
  stdout :: "string option" \<comment> \<open>\<open>None\<close> if it is not UTF-8\<close>
  stderr :: string

datatype login_error = Not_run | Kinit_failed string | Klist_failed string

type_synonym command = "string \<Rightarrow> string list \<Rightarrow> Output option" \<comment> \<open>\<open>None\<close> if it cannot be run\<close>

definition execute_command :: "command \<Rightarrow> string \<Rightarrow> string list \<Rightarrow> (Output, login_error) outcome" where
  "execute_command run command args = (case run command args of Some out \<Rightarrow> Ok out | None \<Rightarrow> Err Not_run)"

definition execute_kinit :: "command \<Rightarrow> string \<Rightarrow> string \<Rightarrow> (unit, login_error) outcome" where
  "execute_kinit run user keytab =
     and_then (execute_command run ''kinit'' [''-kt'', keytab, user]) (\<lambda>out.
       if \<not> success out then Err (Kinit_failed (stderr out)) else Ok ())"

text \<open>\<open>str::lines\<close> and \<open>str::split_whitespace\<close>.\<close>

definition strip_cr :: "string \<Rightarrow> string" where
  "strip_cr l = (if l \<noteq> [] \<and> last l = CHR 0x0D then butlast l else l)"

definition str_lines :: "string \<Rightarrow> string list" where
  "str_lines s = (let ls = split_on (CHR 0x0A) s in map strip_cr (if last ls = [] then butlast ls else ls))"

fun split_spaces :: "string \<Rightarrow> string \<Rightarrow> string list" where
  "split_spaces w [] = [w]"
| "split_spaces w (c # s) = (if is_space c then w # split_spaces [] s else split_spaces (w @ [c]) s)"

definition split_whitespace :: "string \<Rightarrow> string list" where
  "split_whitespace s = filter (\<lambda>w. w \<noteq> []) (split_spaces [] s)"

fun ticket_cache :: "string list \<Rightarrow> string option" where
  "ticket_cache [] = None"
| "ticket_cache (line # lines) =
     (if starts_with line ''Ticket cache:''
      then let parts = split_whitespace line in if 2 < length parts then Some (parts ! 2) else ticket_cache lines
      else ticket_cache lines)"

definition execute_klist :: "command \<Rightarrow> (string, string) dmap \<Rightarrow> (string, string) dmap \<times> (unit, login_error) outcome" where
  "execute_klist run env =
     run_then (env, execute_command run ''klist'' []) (\<lambda>out env.
       if success out
       then case ticket_cache (str_lines (unwrap_or (stdout out) [])) of
              Some krb5ccname \<Rightarrow> (dm_insert ''KRB5CCNAME'' krb5ccname env, Ok ())
            | None \<Rightarrow> (env, Panic)
       else (env, Err (Klist_failed (stderr out))))"

definition kerberos_init ::
    "command \<Rightarrow> KerberosSecurityConfig \<Rightarrow> (string, string) dmap \<Rightarrow> (string, string) dmap \<times> (unit, login_error) outcome" where
  "kerberos_init run conf env =
     run_then (env, execute_kinit run (principal conf) (keytab_path conf)) (\<lambda>_ env. execute_klist run env)"

section \<open>Thread pools\<close>

text \<open>The library panics on a pool of no threads.\<close>

definition create_runtime :: "nat \<Rightarrow> string \<Rightarrow> (nat \<times> string, unit) outcome" where
  "create_runtime pool_size name = (if pool_size = 0 then Panic else Ok (pool_size, name))"

record RuntimeManager =
  read_runtime :: "nat \<times> string"
  localfile_write_runtime :: "nat \<times> string"
  hdfs_write_runtime :: "nat \<times> string"
  http_runtime :: "nat \<times> string"
  default_runtime :: "nat \<times> string"
  dispatch_runtime :: "nat \<times> string"

definition runtime_manager_from :: "RuntimeConfig \<Rightarrow> (RuntimeManager, unit) outcome" where
  "runtime_manager_from conf =
     and_then (create_runtime (read_thread_num conf) ''read_thread_pool'') (\<lambda>r.
     and_then (create_runtime (localfile_write_thread_num conf) ''localfile_write_thread_pool'') (\<lambda>l.
     and_then (create_runtime (hdfs_write_thread_num conf) ''hdfs_write_thread_pool'') (\<lambda>w.
     and_then (create_runtime (http_thread_num conf) ''http_thread_pool'') (\<lambda>h.
     and_then (create_runtime (default_thread_num conf) ''default_thread_pool'') (\<lambda>d.
     and_then (create_runtime (dispatch_thread_num conf) ''dispatch_thread_pool'') (\<lambda>p.
     Ok \<lparr>read_runtime = r, localfile_write_runtime = l, hdfs_write_runtime = w, http_runtime = h, default_runtime = d,
         dispatch_runtime = p\<rparr>))))))"

definition thread_num :: "nat \<times> string \<Rightarrow> nat" where
  "thread_num r = fst r"

section \<open>The host\<close>

record 'f Host =
  local_ip :: "(string, unit) outcome" \<comment> \<open>\<open>get_local_ip\<close>, as text\<close>
  is_port_used :: "int \<Rightarrow> bool"
  core_ids :: "nat list option"
  available_parallelism :: nat
  environment :: "(string, string) dmap"
  run_command :: command
  jaeger_reporter :: "string \<Rightarrow> string \<Rightarrow> bool" \<comment> \<open>whether there is one for an address and a service\<close>
  cleanup :: "string \<Rightarrow> bool" \<comment> \<open>which data directories can be emptied\<close>
  remote_fs :: 'f

definition u16 :: "int \<Rightarrow> int" where
  "u16 n = n mod 2 ^ 16"

text \<open>\<open>str::parse::<NonZeroUsize>\<close>.\<close>

definition parse_non_zero :: "string \<Rightarrow> nat option" where
  "parse_non_zero s =
     (let ds = (if s \<noteq> [] \<and> hd s = CHR ''+'' then tl s else s)
      in if ds \<noteq> [] \<and> list_all is_digit ds \<and> 0 < read_nat ds \<and> read_nat ds < 2 ^ 64 then Some (read_nat ds) else None)"

definition parallelism :: "string \<Rightarrow> 'f Host \<Rightarrow> (nat, unit) outcome" where
  "parallelism var host =
     (case dm_get (environment host) var of
        None \<Rightarrow> Ok (available_parallelism host)
      | Some v \<Rightarrow> unwrap (parse_non_zero v))"

section \<open>Servers\<close>

text \<open>
  \<open>start_grpc\<close> starts one thread per core, with the core it is bound to; the number of \<^verbatim>\<open>GRPC_PARALLELISM\<close> is read, may panic,
  and is only logged.  \<open>start_urpc\<close> starts as many threads as \<^verbatim>\<open>URPC_PARALLELISM\<close> says.
\<close>

record RpcServers =
  grpc_servers :: "(nat \<times> int) list" \<comment> \<open>core and port of each\<close>
  urpc_servers :: "int list"

definition start_grpc :: "'f Host \<Rightarrow> ServerConfig \<Rightarrow> ((nat \<times> int) list, unit) outcome" where
  "start_grpc host conf =
     and_then (parallelism ''GRPC_PARALLELISM'' host) (\<lambda>_.
     and_then (unwrap (core_ids host)) (\<lambda>cores. Ok (map (\<lambda>core_id. (core_id, u16 (grpc_port conf))) cores)))"

definition start_urpc :: "'f Host \<Rightarrow> ServerConfig \<Rightarrow> (int list, unit) outcome" where
  "start_urpc host conf =
     and_then (unwrap (urpc_port conf)) (\<lambda>port.
     and_then (parallelism ''URPC_PARALLELISM'' host) (\<lambda>n. Ok (replicate n (u16 port))))"

definition rpc_start :: "'f Host \<Rightarrow> ServerConfig \<Rightarrow> (RpcServers, unit) outcome" where
  "rpc_start host conf =
     (if is_port_used host (u16 (grpc_port conf)) then Panic
      else and_then (start_grpc host conf) (\<lambda>gs.
        case urpc_port conf of
          None \<Rightarrow> Ok \<lparr>grpc_servers = gs, urpc_servers = []\<rparr>
        | Some port \<Rightarrow>
            if is_port_used host (u16 port) then Panic
            else and_then (start_urpc host conf) (\<lambda>us. Ok \<lparr>grpc_servers = gs, urpc_servers = us\<rparr>)))"

text \<open>The routes of the monitoring service; the framework panics on a route that is there already.\<close>

definition new_server :: "string list" where
  "new_server = [''/''] @ [''/debug/pprof/profile'', ''/metrics'', ''/await-tree'', ''/debug/heap/profile'', ''/apps'']"

definition http_start :: "'f Host \<Rightarrow> int \<Rightarrow> (string list, unit) outcome" where
  "http_start host port =
     (if is_port_used host port then Panic
      else foldl (\<lambda>app route. and_then app (\<lambda>rs. if route \<in> set rs then Panic else Ok (rs @ [route]))) (Ok []) new_server)"

section \<open>The process\<close>

record Globals =
  SHUFFLE_SERVER_ID :: "string option"
  SHUFFLE_SERVER_IP :: "string option"

definition get_or_init :: "'a option \<Rightarrow> 'a \<Rightarrow> 'a option" where
  "get_or_init v x = (case v of None \<Rightarrow> Some x | Some _ \<Rightarrow> v)"

definition init_global_variable :: "'f Host \<Rightarrow> ServerConfig \<Rightarrow> Globals \<Rightarrow> (Globals, unit) outcome" where
  "init_global_variable host conf g =
     and_then (generate_worker_uid (local_ip host) (grpc_port conf) (urpc_port conf)) (\<lambda>worker_uid.
     and_then (local_ip host) (\<lambda>worker_ip.
     Ok \<lparr>SHUFFLE_SERVER_ID = get_or_init (SHUFFLE_SERVER_ID g) worker_uid,
         SHUFFLE_SERVER_IP = get_or_init (SHUFFLE_SERVER_IP g) worker_ip\<rparr>))"

text \<open>
  \<open>HdfsStore::from\<close> logs in before it builds the store, and panics if that fails.  It is called inside \<open>HybridStore::from\<close>, where every
  other failure is a panic as well.
\<close>

definition hdfs_login :: "'f Host \<Rightarrow> ServerConfig \<Rightarrow> ((string, string) dmap, unit) outcome" where
  "hdfs_login host conf =
     (if contains_hdfs (conf_store_type conf)
      then and_then (unwrap (hdfs_store conf)) (\<lambda>hdfs.
             case kerberos_security_config hdfs of
               None \<Rightarrow> Ok (environment host)
             | Some k \<Rightarrow> (case kerberos_init (run_command host) k (environment host) of (env, Ok _) \<Rightarrow> Ok env | _ \<Rightarrow> Panic))
      else Ok (environment host))"

text \<open>\<open>FastraceWrapper::init\<close>: an address of the tracing service that is not usable panics.\<close>

definition fastrace_init :: "'f Host \<Rightarrow> ServerConfig \<Rightarrow> Globals \<Rightarrow> (unit, unit) outcome" where
  "fastrace_init host conf g =
     (case conf_tracing conf of
        None \<Rightarrow> Ok ()
      | Some t \<Rightarrow>
          and_then (unwrap (SHUFFLE_SERVER_ID g)) (\<lambda>server_id.
            if jaeger_reporter host (jaeger_reporter_endpoint t) (jaeger_service_name t @ ''-'' @ server_id) then Ok () else Panic))"

record ('t, 'c, 'f, 'r) Server =
  sv_globals :: Globals
  sv_environment :: "(string, string) dmap"
  sv_runtimes :: RuntimeManager
  sv_manager :: "('t, 'c, 'f) AppManager"
  sv_health :: HealthService
  sv_metrics :: "'r MetricState"
  sv_pushing :: bool
  sv_routes :: "string list"
  sv_rpc :: RpcServers

definition server_main ::
    "'r RegistryOps \<Rightarrow> 'f Host \<Rightarrow> 'r MetricState \<Rightarrow> ServerConfig \<Rightarrow> (('t, 'c, 'f, 'r) Server, unit) outcome" where
  "server_main ops host ms conf =
     and_then (init_global_variable host conf \<lparr>SHUFFLE_SERVER_ID = None, SHUFFLE_SERVER_IP = None\<rparr>) (\<lambda>g.
     and_then (runtime_manager_from (runtime_config conf)) (\<lambda>rt.
     and_then (hdfs_login host conf) (\<lambda>env.
     and_then (hybrid_from (thread_num (localfile_write_runtime rt), thread_num (hdfs_write_runtime rt)) (cleanup host) (remote_fs host) (store_config conf)) (\<lambda>storage.
     let manager = new_app_manager (store_config conf) storage;
         health = \<lparr>alive_app_number_limit = alive_app_number_max_limit conf\<rparr>
     in and_then (metric_service_init ops (conf_metrics conf) ms) (\<lambda>(ms, pushing).
        and_then (fastrace_init host conf g) (\<lambda>_.
        and_then (http_start host (http_monitor_service_port conf)) (\<lambda>routes.
        and_then (rpc_start host conf) (\<lambda>rpc.
        Ok \<lparr>sv_globals = g, sv_environment = env, sv_runtimes = rt, sv_manager = manager, sv_health = health, sv_metrics = ms,
            sv_pushing = pushing, sv_routes = routes, sv_rpc = rpc\<rparr>))))))))"

section \<open>Lemmas\<close>

text \<open>A login that succeeds names a ticket cache: a word that is not empty and has no space in it.\<close>

lemma split_spaces_words: "list_all (\<lambda>c. \<not> is_space c) w \<Longrightarrow> w' \<in> set (split_spaces w s) \<Longrightarrow> list_all (\<lambda>c. \<not> is_space c) w'"
  by (induction w s arbitrary: w' rule: split_spaces.induct) (auto split: if_splits)

lemma ticket_cache_word:
  "ticket_cache ls = Some v \<Longrightarrow> v \<noteq> [] \<and> list_all (\<lambda>c. \<not> is_space c) v \<and> (\<exists>l \<in> set ls. starts_with l ''Ticket cache:'' \<and> v \<in> set (split_whitespace l))"
proof (induction ls)
  case (Cons l ls)
  show ?case
  proof (cases "starts_with l ''Ticket cache:'' \<and> 2 < length (split_whitespace l)")
    case True
    then have "v = split_whitespace l ! 2" using Cons.prems by (simp add: Let_def)
    with True have "v \<in> set (split_whitespace l)" by simp
    with True show ?thesis using split_spaces_words [of "[]" v l] by (simp add: split_whitespace_def)
  next
    case False
    then have "ticket_cache ls = Some v" using Cons.prems by (auto simp: Let_def split: if_splits)
    with Cons.IH show ?thesis by auto
  qed
qed simp

lemma kerberos_login:
  assumes "kerberos_init run conf env = (env', Ok ())"
  shows "\<exists>v. env' = dm_insert ''KRB5CCNAME'' v env \<and> v \<noteq> [] \<and> list_all (\<lambda>c. \<not> is_space c) v"
  using assms
  by (auto simp: kerberos_init_def execute_kinit_def execute_klist_def execute_command_def
      dest!: ticket_cache_word split: option.splits if_splits)

lemma http_start_ok: "http_start host port = (if is_port_used host port then Panic else Ok new_server)"
  by (simp add: http_start_def new_server_def)

lemma runtime_manager_ok:
  "runtime_manager_from conf = Ok rt \<Longrightarrow> 0 < thread_num (localfile_write_runtime rt) \<and> 0 < thread_num (hdfs_write_runtime rt)"
  by (auto simp: runtime_manager_from_def create_runtime_def and_then_eq_Ok thread_num_def split: if_splits)

lemma new_child_bus_live: "0 < n \<Longrightarrow> (\<And>v. conf = Some v \<Longrightarrow> u64 v \<noteq> 0) \<Longrightarrow> 0 < concurrency_num (new_child_bus conf n)"
  by (cases conf) (simp_all add: new_child_bus_def new_event_bus_def u64_def)

lemma map_err_eq_Ok: "map_err g r = Ok x \<longleftrightarrow> r = Ok x"
  by (cases r) auto

lemma hybrid_from_new:
  assumes "hybrid_from threads ok fs conf = Ok st"
  shows "state (hot_store st) = [] \<and> allocated (budget (hot_store st)) = 0 \<and> used (budget (hot_store st)) = 0 \<and> app_manager st = None"
    and "\<exists>mc n. conf_memory_store conf = Some mc \<and> from_str (conf_capacity mc) = Ok n \<and> capacity (budget (hot_store st)) = i64 n"
    and "localfile_bus st = new_child_bus (memory_spill_to_localfile_concurrency (conf_hybrid_store conf)) (fst threads)"
    and "hdfs_bus st = new_child_bus (memory_spill_to_hdfs_concurrency (conf_hybrid_store conf)) (snd threads)"
    and "parent_bus st = new_event_bus (concurrency_num (localfile_bus st) + concurrency_num (hdfs_bus st))"
    and "store_type conf = MEMORY_LOCALFILE \<Longrightarrow> cold_store st = None \<and>
      (\<exists>lc l. conf_localfile_store conf = Some lc \<and> localfile_from lc ok = Ok l \<and> warm_store st = Some (LocalStore l))"
  using assms
  by (auto simp: hybrid_from_def Let_def and_then_eq_Ok memory_store_from_def new_budget_def unwrap_def contains_simps map_err_eq_Ok
      split: if_splits option.splits outcome.splits)

text \<open>
  Whatever the configuration, a server that has started has no data, no memory in use and no spill event; with local files the
  store is one that the theorem on losses is about, and its buses make progress unless the configuration says zero.
\<close>

lemma server_main_ready:
  assumes "server_main ops host ms conf = Ok sv"
  shows "app_manager (m_store (sv_manager sv)) = Some []" and "pipeline_inv (m_store (sv_manager sv), [])"
    and "state (hot_store (m_store (sv_manager sv))) = [] \<and> allocated (budget (hot_store (m_store (sv_manager sv)))) = 0 \<and>
      used (budget (hot_store (m_store (sv_manager sv)))) = 0"
    and "\<exists>mc n. memory_store conf = Some mc \<and> from_str (conf_capacity mc) = Ok n \<and> capacity (budget (hot_store (m_store (sv_manager sv)))) = i64 n"
    and "(\<And>v. memory_spill_to_localfile_concurrency (hybrid_store conf) = Some v \<Longrightarrow> u64 v \<noteq> 0) \<Longrightarrow>
      (\<And>v. memory_spill_to_hdfs_concurrency (hybrid_store conf) = Some v \<Longrightarrow> u64 v \<noteq> 0) \<Longrightarrow> buses_live (m_store (sv_manager sv))"
    and "conf_store_type conf = MEMORY_LOCALFILE \<Longrightarrow> (\<And>lc. localfile_store conf = Some lc \<Longrightarrow> data_paths lc \<noteq> []) \<Longrightarrow>
      fresh_store c (m_store (sv_manager sv))"
proof -
  obtain rt st where st: "runtime_manager_from (runtime_config conf) = Ok rt"
      "hybrid_from (thread_num (localfile_write_runtime rt), thread_num (hdfs_write_runtime rt)) (cleanup host) (remote_fs host) (store_config conf) = Ok st"
      "m_store (sv_manager sv) = with_app_manager [] st"
    using assms by (auto simp: server_main_def Let_def and_then_eq_Ok new_app_manager_def)
  have eq: "m_store (sv_manager sv) = st\<lparr>app_manager := Some []\<rparr>"
    using hybrid_from_new(1) [OF st(2)] by (simp add: st(3) with_app_manager_def)
  note new = hybrid_from_new [OF st(2)] and live = runtime_manager_ok [OF st(1)]
  have "pipeline_inv (st, [])" by (rule hybrid_from_inv [OF st(2)])
  then show "app_manager (m_store (sv_manager sv)) = Some []" "pipeline_inv (m_store (sv_manager sv), [])"
    by (simp_all add: eq pipeline_inv_def counts_ok_def Spill_Pipeline.pending_def)
  show "state (hot_store (m_store (sv_manager sv))) = [] \<and> allocated (budget (hot_store (m_store (sv_manager sv)))) = 0 \<and>
      used (budget (hot_store (m_store (sv_manager sv)))) = 0"
    "\<exists>mc n. memory_store conf = Some mc \<and> from_str (conf_capacity mc) = Ok n \<and> capacity (budget (hot_store (m_store (sv_manager sv)))) = i64 n"
    using new(1,2) by (simp_all add: eq store_config_def)
  show "buses_live (m_store (sv_manager sv))"
    if "\<And>v. memory_spill_to_localfile_concurrency (hybrid_store conf) = Some v \<Longrightarrow> u64 v \<noteq> 0"
      "\<And>v. memory_spill_to_hdfs_concurrency (hybrid_store conf) = Some v \<Longrightarrow> u64 v \<noteq> 0"
    using new(3,4,5) live that
    by (simp add: eq buses_live_def store_config_def new_child_bus_live new_event_bus_def)
  show "fresh_store c (m_store (sv_manager sv))" if local: "conf_store_type conf = MEMORY_LOCALFILE" "\<And>lc. localfile_store conf = Some lc \<Longrightarrow> data_paths lc \<noteq> []"
  proof -
    obtain lc l where l: "localfile_store conf = Some lc" "localfile_from lc (cleanup host) = Ok l" "warm_store st = Some (LocalStore l)" "cold_store st = None"
      using new(6) local(1) by (auto simp: store_config_def)
    have "quiet l" "lf_ok c (\<lambda>_. None) l" using lf_ok_fresh [OF l(2)] local(2) l(1) by simp_all
    then show ?thesis using new(1,3,4,5) l(3,4)
      by (simp add: eq fresh_store_def Spill_Pipeline.pending_def new_child_bus_def new_event_bus_def events_def)
  qed
qed

lemma from_str_64M: "from_str ''64M'' = Ok 67108864"
proof -
  have "show_nat 64 = ''64''" by code_simp
  then have "from_str ''64MiB'' = Ok 67108864"
    using from_str_number [of "''MiB''" MIB 64] by (simp add: binary_units_def KIB_def MIB_def)
  then show ?thesis
    by (simp add: from_str_def trim_def is_space_def size_char_def is_digit_def unit_of_def Let_def split: option.splits)
qed

lemma from_str_1MiB: "from_str ''1MiB'' = Ok 1048576"
proof -
  have "show_nat 1 = ''1''" by code_simp
  then show ?thesis using from_str_number [of "''MiB''" MIB 1] by (simp add: binary_units_def KIB_def MIB_def)
qed

lemmas mem_localfile_config_defs = create_mem_localfile_config_def with_defaults_def no_raw_config_def default_hybrid_store_config_def
  default_runtime_config_def memory_store_config_def localfile_store_config_def store_config_def

lemma mem_localfile_starts:
  fixes host :: "'f Host" and ops :: "'r RegistryOps"
  assumes "local_ip host = Ok ip" and "core_ids host = Some cores" and "dm_get (environment host) ''GRPC_PARALLELISM'' = None"
    and "\<not> is_port_used host (u16 port)" and "\<not> is_port_used host 20010" and "cleanup host path" and "from_str cap = Ok n"
  shows "\<exists>sv :: ('t, 'c, 'f, 'r) Server. server_main ops host ms (create_mem_localfile_config port cap path) = Ok sv \<and> service_is_healthy (sv_health sv) (sv_manager sv) \<and>
    SHUFFLE_SERVER_ID (sv_globals sv) = Some (ip @ ''-'' @ show_int port) \<and> sv_routes sv = new_server \<and>
    sv_rpc sv = \<lparr>grpc_servers = map (\<lambda>core. (core, u16 port)) cores, urpc_servers = []\<rparr>"
  using assms
  by (simp add: mem_localfile_config_defs server_main_def Let_def init_global_variable_def generate_worker_uid_def get_or_init_def runtime_manager_from_def
        create_runtime_def hdfs_login_def contains_simps hybrid_from_def unwrap_def localfile_from_def parse_size_option_def parse_size_def
        from_str_64M memory_store_from_def metric_service_init_def fastrace_init_def http_start_ok rpc_start_def start_grpc_def parallelism_def
        service_is_healthy_def store_is_healthy_def hybrid_is_healthy_def new_app_manager_def with_app_manager_def memory_is_healthy_def healthy_check_def new_disk_def)

definition ready :: "codec \<Rightarrow> int \<Rightarrow> ('t, 'c, 'f, 'r) Server \<Rightarrow> bool" where
  "ready c n sv \<longleftrightarrow>
     (let st = m_store (sv_manager sv)
      in fresh_store c st \<and> app_manager st = Some [] \<and> pipeline_inv (st, []) \<and> buses_live st \<and> capacity (budget (hot_store st)) = n \<and>
         allocated (budget (hot_store st)) = 0 \<and> used (budget (hot_store st)) = 0 \<and> service_is_healthy (sv_health sv) (sv_manager sv))"

text \<open>
  C18. The server starts.  With a configuration for memory and a local directory, on a host that has an address and whose ports
  are free, whose directory can be emptied and for a capacity that can be read, the start does not panic.  The server then has the name of its address and
  port, one gRPC server per core on that port, and a store that is empty, healthy, of the configured capacity, free of reservations, and in the state
  from which no block is lost and the spill pipeline drains.
\<close>

theorem server_starts:
  fixes host :: "'f Host" and ops :: "'r RegistryOps"
  assumes "local_ip host = Ok ip" and "core_ids host = Some cores" and "dm_get (environment host) ''GRPC_PARALLELISM'' = None"
    and "\<not> is_port_used host (u16 port)" and "\<not> is_port_used host 20010" and "cleanup host path" and "from_str cap = Ok n"
  shows "\<exists>sv :: ('t, 'c, 'f, 'r) Server. server_main ops host ms (create_mem_localfile_config port cap path) = Ok sv \<and> ready c (i64 n) sv \<and>
    SHUFFLE_SERVER_ID (sv_globals sv) = Some (ip @ ''-'' @ show_int port) \<and> sv_routes sv = new_server \<and>
    sv_rpc sv = \<lparr>grpc_servers = map (\<lambda>core. (core, u16 port)) cores, urpc_servers = []\<rparr>"
proof -
  let ?conf = "create_mem_localfile_config port cap path"
  obtain sv :: "('t, 'c, 'f, 'r) Server" where sv: "server_main ops host ms ?conf = Ok sv" "service_is_healthy (sv_health sv) (sv_manager sv)"
      "SHUFFLE_SERVER_ID (sv_globals sv) = Some (ip @ ''-'' @ show_int port)" "sv_routes sv = new_server"
      "sv_rpc sv = \<lparr>grpc_servers = map (\<lambda>core. (core, u16 port)) cores, urpc_servers = []\<rparr>"
    using mem_localfile_starts [OF assms] by blast
  note facts = server_main_ready [OF sv(1)]
  have "ready c (i64 n) sv"
    using facts(1-5) facts(6) [of c] sv(2) assms(7) by (simp add: ready_def mem_localfile_config_defs)
  with sv show ?thesis by blast
qed

definition sample_host :: "mem_hdfs Host" where
  "sample_host = \<lparr>local_ip = Ok ''10.0.0.1'', is_port_used = (\<lambda>p. p = 22), core_ids = Some [0, 1], available_parallelism = 2,
     environment = [], run_command = (\<lambda>_ _. None), jaeger_reporter = (\<lambda>_ _. False), cleanup = (\<lambda>_. True), remote_fs = \<lparr>mem_files = [], mem_faults = []\<rparr>\<rparr>"

theorem server_starts_witness:
  "\<exists>sv :: (int list, unit, mem_hdfs, string list) Server. server_main list_registry sample_host (no_metrics list_registry) (create_mem_localfile_config 19999 ''1MiB'' ''/data'') = Ok sv \<and>
     ready be_codec 1048576 sv \<and> sv_rpc sv = \<lparr>grpc_servers = [(0, 19999), (1, 19999)], urpc_servers = []\<rparr>"
  using server_starts [of sample_host "''10.0.0.1''" "[0, 1]" 19999 "''/data''" "''1MiB''" 1048576 list_registry "no_metrics list_registry" be_codec]
  by (auto simp: sample_host_def u16_def i64_id from_str_1MiB)

end
