(* ===== verification/End_To_End.thy ===== *)
theory End_To_End
  imports Server_Start Grpc_Service
begin

text \<open>
  The client of the integration test, \<open>write_read_for_one_time\<close> of \<^verbatim>\<open>lib.rs\<close>: it writes one block to each of a number of partitions,
  reports them, reads everything back from memory and from the local files, and asserts that it got what it wrote.  Its calls go to the
  handlers of the gRPC service one after the other; a call whose handler panics fails for the client, like an assertion.
\<close>

section \<open>Bitmaps that are sent\<close>

locale treemap_codec = treemap +
  assumes iter_distinct: "distinct (tm_iter tm t)"
    and serialize_back: "(\<And>j. tm_contains tm t j \<Longrightarrow> is_u64 j) \<Longrightarrow>
      \<exists>bs t'. tm_serialize tm t = Ok bs \<and> tm_deserialize tm bs = Ok t' \<and> (\<forall>j. tm_contains tm t' j = tm_contains tm t j)"
begin

lemma singleton_back:
  assumes "is_u64 i" and "\<And>j. tm_contains tm t j = (j = i)"
  shows "\<exists>bs t'. tm_serialize tm t = Ok bs \<and> tm_deserialize tm bs = Ok t' \<and> length (tm_iter tm t') = 1 \<and> tm_contains tm t' i"
proof -
  obtain bs t' where t': "tm_serialize tm t = Ok bs" "tm_deserialize tm bs = Ok t'" "\<And>j. tm_contains tm t' j = (j = i)"
    using serialize_back [of t] assms by auto
  have "set (tm_iter tm t') = {i}" using iter_contains [of _ t'] t'(3) by auto
  then have "length (tm_iter tm t') = 1" using distinct_card [OF iter_distinct [of t']] by simp
  with t' show ?thesis by auto
qed

end

text \<open>The bitmap as a list again, read without repetitions.\<close>

definition set_treemap :: "int list Treemap" where
  "set_treemap = list_treemap\<lparr>tm_iter := remdups\<rparr>"

lemma put_i64_back:
  "k < length t \<Longrightarrow> take 8 (drop (8 * k) (concat (map (put_i64 be_codec) t))) = put_i64 be_codec (t ! k)"
proof (induction t arbitrary: k)
  case (Cons x t)
  then show ?case by (cases k) (simp_all add: be.len_i64)
qed simp

lemma u64_back: "is_u64 x \<Longrightarrow> u64 (take_i64 be_codec (put_i64 be_codec x)) = x"
  by (simp add: be_codec_def be_value_be_bytes is_u64_def i64_mod del: be_value.simps be_bytes.simps)
    (simp add: u64_def i64_def mod_simps)

lemma set_treemap_back:
  assumes "\<And>j. j \<in> set t \<Longrightarrow> is_u64 j"
  shows "tm_deserialize list_treemap (concat (map (put_i64 be_codec) t)) = Ok t"
proof -
  have len: "length (concat (map (put_i64 be_codec) t)) = 8 * length t" by (induction t) (simp_all add: be.len_i64)
  have "map (\<lambda>k. u64 (take_i64 be_codec (take 8 (drop (8 * k) (concat (map (put_i64 be_codec) t)))))) [0..<length t] = t"
    using assms by (intro nth_equalityI) (simp_all add: put_i64_back u64_back)
  with len show ?thesis by (simp add: list_treemap_def)
qed

interpretation set_tm: treemap_codec set_treemap
proof
  fix t :: "int list"
  show "\<exists>bs t'. tm_serialize set_treemap t = Ok bs \<and> tm_deserialize set_treemap bs = Ok t' \<and> (\<forall>j. tm_contains set_treemap t' j = tm_contains set_treemap t j)"
    if "\<And>j. tm_contains set_treemap t j \<Longrightarrow> is_u64 j"
    using set_treemap_back [of t] that by (simp add: set_treemap_def list_treemap_def)
qed (auto simp: set_treemap_def list_treemap_def)

section \<open>The client\<close>

definition test_app :: string where
  "test_app = ''write_read_test-app-id''"

definition test_data :: bytes where
  "test_data = map of_char ''hello world''"

definition test_block :: "int \<Rightarrow> Block" where
  "test_block idx = \<lparr>block_id = idx, length_of = int (length test_data), uncompress_length = 0, crc = 0, data = test_data, task_attempt_id = 0\<rparr>"

text \<open>What the client does not control: the clock, the iteration order of hash maps, and whether the lock of the spill is free.\<close>

record Surroundings =
  clock :: "int \<Rightarrow> int" \<comment> \<open>in each round\<close>
  map_order :: "(int, Block list) dmap \<Rightarrow> (int \<times> Block list) list"
  flight_order :: "(int, batch) dmap \<Rightarrow> (int \<times> batch) list"
  lock_free :: "int \<Rightarrow> bool"

definition test_uid :: "int \<Rightarrow> PartitionedUId" where
  "test_uid idx = \<lparr>app_id = test_app, shuffle_id = 0, partition_id = idx\<rparr>"

definition write_one ::
    "('t, 'c, 'f) Env \<Rightarrow> Surroundings \<Rightarrow> int \<Rightarrow> ('t, 'c, 'f) AppManager \<Rightarrow> ('t, 'c, 'f) AppManager \<times> (unit, unit) outcome" where
  "write_one env s idx m =
     run_then (grpc_require_buffer env (clock s idx) test_app 0 (int (length test_data)) m) (\<lambda>(status, require_buffer_id) m.
       if status \<noteq> SUCCESS then (m, Panic)
       else
         run_then (grpc_send_shuffle_data env (map_order s) (lock_free s) (clock s idx) test_app 0 require_buffer_id [(idx, [test_block idx])] m) (\<lambda>status m.
           if status \<noteq> SUCCESS then (m, Panic)
           else run_then (grpc_report_shuffle_result env (clock s idx) test_app 0 [(idx, [idx])] m) (\<lambda>_ m. (m, Ok ()))))"

fun write_loop ::
    "('t, 'c, 'f) Env \<Rightarrow> Surroundings \<Rightarrow> int list \<Rightarrow> ('t, 'c, 'f) AppManager \<Rightarrow> ('t, 'c, 'f) AppManager \<times> (unit, unit) outcome" where
  "write_loop env s [] m = (m, Ok ())"
| "write_loop env s (idx # todo) m = run_then (write_one env s idx m) (\<lambda>_ m. write_loop env s todo m)"

text \<open>What has been read so far: the ids of the blocks and their data.\<close>

type_synonym accepted = "int list \<times> bytes"

definition read_memory ::
    "('t, 'c, 'f) Env \<Rightarrow> Surroundings \<Rightarrow> int \<Rightarrow> accepted \<Rightarrow> ('t, 'c, 'f) AppManager \<Rightarrow> ('t, 'c, 'f) AppManager \<times> (accepted, unit) outcome" where
  "read_memory env s idx acc m =
     run_then (grpc_get_shuffle_result env test_app 0 idx m) (\<lambda>(status, serialized_bitmap) m.
       if status \<noteq> SUCCESS then (m, Panic)
       else
         case tm_deserialize (e_treemap env) serialized_bitmap of
           Ok block_id_bitmap \<Rightarrow>
             if length (tm_iter (e_treemap env) block_id_bitmap) \<noteq> 1 \<or> \<not> tm_contains (e_treemap env) block_id_bitmap (u64 idx) then (m, Panic)
             else
               let it = (case dm_get (state (hot_store (m_store m))) (test_uid idx) of Some b \<Rightarrow> flight_order s (flight b) | None \<Rightarrow> [])
               in run_then (grpc_get_memory_shuffle_data env it (clock s idx) test_app 0 idx (-1) 10000000 [] m)
                    (\<lambda>(status, segments, bs) m. (m, Ok (fst acc @ map seg_block_id segments, snd acc @ bs)))
         | Err _ \<Rightarrow> (m, Err ())
         | Panic \<Rightarrow> (m, Panic))"

definition read_localfile ::
    "('t, 'c, 'f) Env \<Rightarrow> Surroundings \<Rightarrow> int \<Rightarrow> accepted \<Rightarrow> ('t, 'c, 'f) AppManager \<Rightarrow> ('t, 'c, 'f) AppManager \<times> (accepted, unit) outcome" where
  "read_localfile env s idx acc m =
     run_then (grpc_get_local_shuffle_index (clock s idx) test_app 0 idx m) (\<lambda>(status, index) m.
       let bs = index_data index
       in if bs = [] then (m, Ok acc)
          else if length bs < 32 then (m, Panic)
          else
            let len = take_i32 (e_codec env) (take 4 (drop 8 bs)); bid = take_i64 (e_codec env) (take 8 (drop 24 bs))
            in run_then (grpc_get_local_shuffle_data (clock s idx) test_app 0 idx 0 len m)
                 (\<lambda>(status, d) m. (m, Ok (fst acc @ [bid], snd acc @ d))))"

fun read_loop_with ::
    "(int \<Rightarrow> accepted \<Rightarrow> 'm \<Rightarrow> 'm \<times> (accepted, unit) outcome) \<Rightarrow> int list \<Rightarrow> accepted \<Rightarrow> 'm \<Rightarrow> 'm \<times> (accepted, unit) outcome" where
  "read_loop_with read [] acc m = (m, Ok acc)"
| "read_loop_with read (idx # todo) acc m = run_then (read idx acc m) (\<lambda>acc m. read_loop_with read todo acc m)"

text \<open>\<open>pause\<close> is what happens to the server while the client sleeps between writing and reading.\<close>

definition write_read_for_one_time ::
    "('t, 'c, 'f) Env \<Rightarrow> Surroundings \<Rightarrow> (('t, 'c, 'f) AppManager \<Rightarrow> ('t, 'c, 'f) AppManager) \<Rightarrow> int \<Rightarrow>
     ('t, 'c, 'f) AppManager \<Rightarrow> ('t, 'c, 'f) AppManager \<times> (unit, unit) outcome" where
  "write_read_for_one_time env s pause batch_size m =
     run_then (grpc_register_shuffle env (clock s 0) (clock s 0) test_app 0 10 None m) (\<lambda>status m.
       if status \<noteq> SUCCESS then (m, Panic)
       else
         let block_ids = [0..batch_size - 1]; all_bytes_data = concat (map (\<lambda>idx. test_data) block_ids)
         in run_then (write_loop env s block_ids m) (\<lambda>_ m.
            run_then (read_loop_with (read_memory env s) block_ids ([], []) (pause m)) (\<lambda>acc m.
            run_then (read_loop_with (read_localfile env s) block_ids acc m) (\<lambda>(accepted_block_ids, accepted_data_bytes) m.
              if int (length accepted_block_ids) = batch_size \<and> accepted_block_ids = block_ids \<and> accepted_data_bytes = all_bytes_data
              then (m, Ok ()) else (m, Panic)))))"

section \<open>A store without pressure\<close>

text \<open>The rounding of three operations cannot lift a half above the default watermark.\<close>

lemma ratio_below:
  assumes "0 \<le> a" and "2 * a \<le> b" and "0 < b"
  shows "\<not> flt_less (f32 (8 / 10)) (flt_div f32_bits (flt_of_int f32_bits a) (flt_of_int f32_bits b))"
proof -
  let ?r = "round_to f32_bits"
  have err: "x - x / 16777216 \<le> ?r x" "?r x \<le> x + x / 16777216" if "0 \<le> x" for x
  proof -
    have "\<bar>?r x - x\<bar> \<le> x / 16777216" using round_to_error [of f32_bits x] that by (simp add: f32_bits_def)
    then show "x - x / 16777216 \<le> ?r x" "?r x \<le> x + x / 16777216" by linarith+
  qed
  define x y where "x = ?r (of_int a)" and "y = ?r (of_int b)"
  have a: "0 \<le> (of_int a :: rat)" using assms(1) by simp
  have x: "x \<le> of_int a + of_int a / 16777216" "0 \<le> x" using err [OF a] a by (simp_all add: x_def)
  have ab: "of_int a \<le> (of_int b :: rat) / 2" using assms(2) by linarith
  have b: "0 < (of_int b :: rat)" using assms(3) by simp
  then have y: "of_int b - of_int b / 16777216 \<le> y" using err(1) [of "of_int b"] by (simp add: y_def)
  then have ypos: "0 < y" using b by linarith
  have "x \<le> y * (6 / 10)" using x(1) y ab a b by linarith
  define q where "q = x / y"
  have q: "q \<le> 6 / 10" "0 \<le> q" using \<open>x \<le> y * (6 / 10)\<close> ypos x(2) by (simp_all add: q_def divide_le_eq)
  have "?r q \<le> 7 / 10" using err(2) [OF q(2)] q(1) by linarith
  moreover have "7 / 10 \<le> ?r (8 / 10)" using err(1) [of "8 / 10"] by simp
  ultimately show ?thesis using ypos by (simp add: f32_def flt_of_int_def q_def flip: x_def y_def)
qed

lemma calm_insert:
  assumes "memory_spill_partition_max_threshold st = None" and "in_flight_bytes_size st = 0"
    and "memory_spill_high_watermark (hybrid_config st) = f32 (8 / 10)"
    and "0 \<le> used (budget (hot_store st))" and "2 * used (budget (hot_store st)) \<le> capacity (budget (hot_store st)) - allocated (budget (hot_store st))"
    and "0 < capacity (budget (hot_store st)) - allocated (budget (hot_store st))" and "capacity (budget (hot_store st)) - allocated (budget (hot_store st)) < 2 ^ 63"
  shows "hybrid_insert free ctx st = (st\<lparr>hot_store := fst (memory_insert ctx (hot_store st))\<rparr>, Ok ())"
proof -
  obtain h where h: "memory_insert ctx (hot_store st) = (h, Ok ())" "budget h = budget (hot_store st)"
    by (simp add: memory_insert_def Let_def case_prod_unfold put_buffer_def get_or_create_buffer_def split: option.splits)
  have "\<not> flt_less (f32 (8 / 10)) (get_memory_used_ratio (st\<lparr>hot_store := h\<rparr>))"
    using ratio_below [OF assms(4-6)] assms(2,4-7)
    by (simp add: get_memory_used_ratio_def memory_snapshot_def snapshot_def h(2) i64_id Let_def)
  then show ?thesis using assms(1,3) by (simp add: hybrid_insert_def h(1) Let_def)
qed

section \<open>What the server holds while the client writes\<close>

text \<open>
  One block in each of the first \<open>k\<close> partitions, all of them staged, those of the first \<open>n\<close> reported, and the memory of \<open>k\<close> blocks in use.
  \<open>al\<close> bytes are reserved, by the tickets \<open>ts\<close>.
\<close>

definition test_buffer :: "int \<Rightarrow> BufferInternal" where
  "test_buffer idx = append_blocks [test_block idx] 11 new_buffer"

definition app_knows :: "'t Treemap \<Rightarrow> int \<Rightarrow> 't App \<Rightarrow> bool" where
  "app_knows tm k a \<longleftrightarrow> huge_partition_marked_threshold a = None \<and>
     (\<forall>p j. known_blocks tm test_app 0 a p j \<longleftrightarrow> 0 \<le> p \<and> p < k \<and> j = p)"

definition store_calm :: "int \<Rightarrow> ('t, 'c, 'f) HybridStore \<Rightarrow> bool" where
  "store_calm cap st \<longleftrightarrow> capacity (budget (hot_store st)) = cap \<and> in_flight_bytes_size st = 0 \<and> memory_spill_partition_max_threshold st = None \<and>
     memory_spill_high_watermark (hybrid_config st) = f32 (8 / 10) \<and> open_events st = {#} \<and>
     (\<exists>l. warm_store st = Some (LocalStore l) \<and> partition_locks l = [])"

definition hot_holds :: "int \<Rightarrow> int \<Rightarrow> (int, Ticket) dmap \<Rightarrow> MemoryStore \<Rightarrow> bool" where
  "hot_holds k al ts h \<longleftrightarrow> used (budget h) = 11 * k \<and> allocated (budget h) = al \<and> ticket_store (ticket_manager h) = ts \<and>
     (\<forall>uid. dm_get (state h) uid =
        (if uid_in test_app 0 uid \<and> 0 \<le> partition_id uid \<and> partition_id uid < k then Some (test_buffer (partition_id uid)) else None))"

definition holds_blocks :: "'t Treemap \<Rightarrow> int \<Rightarrow> int \<Rightarrow> int \<Rightarrow> int \<Rightarrow> (int, Ticket) dmap \<Rightarrow> ('t, 'c, 'f) AppManager \<Rightarrow> bool" where
  "holds_blocks tm cap n k al ts m \<longleftrightarrow> (\<exists>a. get_app test_app m = Some a \<and> app_knows tm n a) \<and>
     store_calm cap (m_store m) \<and> hot_holds k al ts (hot_store (m_store m))"

lemma test_length: "int (length test_data) = 11" "length_of (test_block i) = 11" "length test_data = 11"
  by (simp_all add: test_data_def test_block_def)

lemma app_knows_heartbeat [simp]: "app_knows tm k (app_heartbeat now a) = app_knows tm k a"
  by (simp add: app_knows_def known_blocks_def meta_of_def app_heartbeat_def)

lemma require_step:
  assumes "holds_blocks tm cap k k 0 [] m" and "0 \<le> k" and "22 * (k + 1) \<le> cap" and "cap < 2 ^ 63" and "tm = e_treemap env"
  shows "\<exists>m' tid t. grpc_require_buffer env now test_app 0 11 m = (m', Ok (SUCCESS, tid)) \<and> ticket_size t = 11 \<and>
    holds_blocks tm cap k k 11 [(tid, t)] m'"
proof -
  obtain a where a: "get_app test_app m = Some a" "app_knows tm k a" using assms(1) by (auto simp: holds_blocks_def)
  let ?uid = "\<lparr>app_id = test_app, shuffle_id = 0, partition_id = 1\<rparr>" and ?a = "app_heartbeat now a" and ?st = "m_store m"
  let ?ctx = "\<lparr>q_uid = ?uid, q_size = 11\<rparr>"
  have cap: "capacity (budget (hot_store ?st)) = cap" "used (budget (hot_store ?st)) = 11 * k" "allocated (budget (hot_store ?st)) = 0"
      "ticket_store (ticket_manager (hot_store ?st)) = []"
    using assms(1) by (simp_all add: holds_blocks_def store_calm_def hot_holds_def)
  have huge: "is_backpressure_for_huge_partition tm ?uid ?a ?st = (?a, Ok False)"
    using a(2) by (simp add: is_backpressure_for_huge_partition_def is_huge_partition_def app_knows_def app_heartbeat_def)
  define tid where "tid = i64 (allocation_inc_counter (budget (hot_store ?st)) + 1)"
  define t where "t = \<lparr>ticket_id = tid, created_time = now, ticket_size = 11, owned_by_app_id = test_app\<rparr>"
  define h where "h = (hot_store ?st)\<lparr>budget := (budget (hot_store ?st))\<lparr>allocated := 11, allocation_inc_counter := tid\<rparr>,
    ticket_manager := (ticket_manager (hot_store ?st))\<lparr>ticket_store := [(tid, t)]\<rparr>\<rparr>"
  have req: "memory_require_buffer now ?ctx (hot_store ?st) = (h, Ok \<lparr>resp_ticket_id = tid, allocated_timestamp = now\<rparr>)"
    using assms(2-4) cap
    by (simp add: memory_require_buffer_def require_allocated_def i64_id ticket_insert_def h_def t_def tid_def Let_def)
  define m' where "m' = set_apps (dm_insert test_app ?a (apps m)) (m\<lparr>m_store := ?st\<lparr>hot_store := h\<rparr>\<rparr>)"
  have "grpc_require_buffer env now test_app 0 11 m = (m', Ok (SUCCESS, tid))"
    using a(1) huge req assms(5)
    by (simp add: grpc_require_buffer_def on_app_def app_require_buffer_def hybrid_require_buffer_def from_anyhow_def m'_def apps_def)
  moreover have "holds_blocks tm cap k k 11 [(tid, t)] m'"
    using assms(1) a(2) unfolding holds_blocks_def
    by (auto simp: m'_def get_app_def dm_simps store_calm_def hot_holds_def h_def Spill_Pipeline.pending_def)
  moreover have "ticket_size t = 11" by (simp add: t_def)
  ultimately show ?thesis by blast
qed

lemma test_ctx: "new_writing_ctx (test_uid k) [test_block k] = \<lparr>w_uid = test_uid k, w_data_blocks = [test_block k], w_data_size = 11\<rparr>"
  by (simp add: new_writing_ctx_def blocks_size_def sum_i32_def test_length i32_id u64_id)

lemma hot_holds_insert:
  assumes "hot_holds k al ts h" and "0 \<le> k"
  shows "hot_holds (k + 1) al ts ((fst (memory_insert (new_writing_ctx (test_uid k) [test_block k]) h))\<lparr>budget := (budget h)\<lparr>used := 11 * (k + 1)\<rparr>\<rparr>)"
proof -
  have none: "dm_get (state h) (test_uid k) = None" using assms(1) by (simp add: hot_holds_def test_uid_def)
  have ins: "fst (memory_insert (new_writing_ctx (test_uid k) [test_block k]) h) =
      h\<lparr>state := dm_insert (test_uid k) (test_buffer k) (dm_insert (test_uid k) new_buffer (state h))\<rparr>"
    by (simp add: memory_insert_def get_or_create_buffer_def none put_buffer_def test_ctx test_buffer_def)
  have "uid = test_uid k \<longleftrightarrow> uid_in test_app 0 uid \<and> partition_id uid = k" for uid by (auto simp: uid_in_def test_uid_def)
  with assms show ?thesis by (auto simp: hot_holds_def ins dm_simps)
qed

lemma app_knows_insert:
  assumes "app_knows (e_treemap env) n a"
  shows "app_knows (e_treemap env) n (fst (app_insert env free now ctx a st))"
proof -
  have "blocks_bitmap (meta_of (e_treemap env) v (fst (app_insert env free now ctx a st))) = blocks_bitmap (meta_of (e_treemap env) v a)" for v
  proof -
    have "meta_of (e_treemap env) v (fst (app_insert env free now ctx a st)) =
        meta_of (e_treemap env) v (inc_partition_size (e_treemap env) (w_uid ctx) (w_data_size ctx) (app_heartbeat now a))"
      by (simp add: app_insert_def Let_def case_prod_unfold meta_of_def)
    moreover have "meta_of (e_treemap env) w (app_heartbeat now a) = meta_of (e_treemap env) w a" for w by (simp add: meta_of_def app_heartbeat_def)
    moreover have "meta_of (e_treemap env) v a = meta_of (e_treemap env) (w_uid ctx) a" if "meta_key v = meta_key (w_uid ctx)" using that by (simp add: meta_of_def)
    ultimately show ?thesis by (simp add: inc_partition_size_spec inc_size_def)
  qed
  moreover have "huge_partition_marked_threshold (fst (app_insert env free now ctx a st)) = huge_partition_marked_threshold a"
    by (simp add: app_insert_def Let_def case_prod_unfold inc_partition_size_spec app_heartbeat_def)
  ultimately show ?thesis using assms by (simp add: app_knows_def known_blocks_def)
qed

lemma send_step:
  assumes "holds_blocks tm cap n k 11 [(tid, t)] m" and "ticket_size t = 11" and "0 \<le> k" and "22 * (k + 1) \<le> cap" and "cap < 2 ^ 63"
    and "tm = e_treemap env" and "\<And>x. mset (ord x) = mset x"
  shows "\<exists>m'. grpc_send_shuffle_data env ord free now test_app 0 tid [(k, [test_block k])] m = (m', Ok SUCCESS) \<and>
    holds_blocks tm cap n (k + 1) 0 [] m'"
proof -
  obtain a where a: "get_app test_app m = Some a" "app_knows tm n a" using assms(1) by (auto simp: holds_blocks_def)
  have st: "store_calm cap (m_store m)" "hot_holds k 11 [(tid, t)] (hot_store (m_store m))" using assms(1) by (simp_all add: holds_blocks_def)
  define h where "h = (hot_store (m_store m))\<lparr>ticket_manager := (ticket_manager (hot_store (m_store m)))\<lparr>ticket_store := []\<rparr>\<rparr>"
  define st1 where "st1 = (m_store m)\<lparr>hot_store := h\<rparr>"
  have h: "hot_holds k 11 [] h" using st(2) by (simp add: h_def hot_holds_def)
  have rel: "app_release_ticket tid a (m_store m) = (a, st1, Ok 11)"
    using st(2) assms(2)
    by (simp add: app_release_ticket_def hybrid_release_ticket_def memory_release_ticket_def ticket_delete_def hot_holds_def st1_def h_def)
  let ?ctx = "new_writing_ctx (test_uid k) [test_block k]" and ?h = "fst (memory_insert (new_writing_ctx (test_uid k) [test_block k]) h)"
  define st2 where "st2 = st1\<lparr>hot_store := ?h\<rparr>"
  define a2 where "a2 = fst (app_insert env (free k) now ?ctx a st1)"
  have calm: "hybrid_insert (free k) ?ctx st1 = (st2, Ok ())"
    using st(1) h assms(3-5) unfolding st2_def
    by (subst calm_insert) (simp_all add: st1_def store_calm_def hot_holds_def h_def)
  have ins: "app_insert env (free k) now ?ctx a st1 = (a2, st2, Ok 11)"
    using calm by (simp add: a2_def app_insert_def Let_def test_ctx i32_id)
  have ord: "ord (blocks_map [(k, [test_block k])]) = [(k, [test_block k])]"
    using assms(7) [of "[(k, [test_block k])]"] by (simp add: blocks_map_def extend_blocks_def)
  have loop: "grpc_insert_loop env free now test_app 0 [(k, [test_block k])] False 0 a st1 = (a2, st2, Some (False, 11))"
    using ins by (simp add: test_uid_def i64_id)
  define st3 where "st3 = grpc_settle 11 11 st2"
  have b: "budget ?h = budget h" by (simp add: memory_insert_def Let_def case_prod_unfold put_buffer_def get_or_create_buffer_def split: option.splits)
  have hot3: "hot_store st3 = ?h\<lparr>budget := (budget h)\<lparr>allocated := 0, used := 11 * (k + 1)\<rparr>\<rparr>"
    using h assms(3-5) by (simp add: st3_def grpc_settle_hot st2_def b move_allocated_to_used_def hot_holds_def i64_id Let_def)
  define m' where "m' = set_apps (dm_insert test_app a2 (apps (m\<lparr>m_store := st3\<rparr>))) (m\<lparr>m_store := st3\<rparr>)"
  have "grpc_send_shuffle_data env ord free now test_app 0 tid [(k, [test_block k])] m = (m', Ok SUCCESS)"
    using a(1) rel loop by (simp add: grpc_send_shuffle_data_def ord on_app_def m'_def st3_def Let_def)
  moreover have "hot_holds (k + 1) 0 [] (hot_store st3)"
    using hot_holds_insert [OF h assms(3)] by (simp add: hot3 hot_holds_def)
  moreover have "store_calm cap st3"
    using st(1) by (simp add: store_calm_def hot3) (simp add: st3_def grpc_settle_def st2_def st1_def Let_def h_def
        release_allocated_from_hot_store_def move_allocated_to_used_from_hot_store_def Spill_Pipeline.pending_def)
  moreover have "app_knows tm n a2" using app_knows_insert a(2) assms(6) by (simp add: a2_def)
  ultimately show ?thesis
    by (auto simp: holds_blocks_def m'_def get_app_def dm_simps store_calm_def Spill_Pipeline.pending_def)
qed

lemma report_step:
  assumes "treemap tm" and "holds_blocks tm cap k (k + 1) 0 [] m" and "0 \<le> k" and "k < 2 ^ 64" and "tm = e_treemap env"
  shows "\<exists>m'. grpc_report_shuffle_result env now test_app 0 [(k, [k])] m = (m', Ok SUCCESS) \<and> holds_blocks tm cap (k + 1) (k + 1) 0 [] m'"
proof -
  obtain a where a: "get_app test_app m = Some a" "app_knows tm k a" using assms(2) by (auto simp: holds_blocks_def)
  define a' where "a' = report_block_ids tm now \<lparr>app_id = test_app, shuffle_id = 0, partition_id = k\<rparr> [k] a"
  have "huge_partition_marked_threshold a' = None"
    using a(2) by (simp add: a'_def report_block_ids_def get_partition_meta_def put_meta_def app_heartbeat_def app_knows_def split: option.splits)
  moreover have "known_blocks tm test_app 0 a' p j \<longleftrightarrow> 0 \<le> p \<and> p < k + 1 \<and> j = p" for p j
    using a(2) assms(3,4) by (auto simp: a'_def treemap.report_contains [OF assms(1)] app_knows_def u64_id)
  ultimately have "app_knows tm (k + 1) a'" by (simp add: app_knows_def)
  moreover define m' where "m' = set_apps (dm_insert test_app a' (apps m)) m"
  have "grpc_report_shuffle_result env now test_app 0 [(k, [k])] m = (m', Ok SUCCESS)"
    using a(1) assms(5) by (simp add: grpc_report_shuffle_result_def on_app_def m'_def a'_def)
  ultimately show ?thesis
    using assms(2) by (auto simp: holds_blocks_def m'_def get_app_def dm_simps store_calm_def Spill_Pipeline.pending_def)
qed

lemma write_one_step:
  assumes "treemap (e_treemap env)" and "holds_blocks (e_treemap env) cap k k 0 [] m" and "0 \<le> k" and "22 * (k + 1) \<le> cap" and "cap < 2 ^ 63"
    and "\<And>x. mset (map_order s x) = mset x"
  shows "\<exists>m'. write_one env s k m = (m', Ok ()) \<and> holds_blocks (e_treemap env) cap (k + 1) (k + 1) 0 [] m'"
proof -
  obtain m1 tid t where m1: "grpc_require_buffer env (clock s k) test_app 0 11 m = (m1, Ok (SUCCESS, tid))" "ticket_size t = 11"
      "holds_blocks (e_treemap env) cap k k 11 [(tid, t)] m1"
    using require_step [OF assms(2-5) refl] by blast
  obtain m2 where m2: "grpc_send_shuffle_data env (map_order s) (lock_free s) (clock s k) test_app 0 tid [(k, [test_block k])] m1 = (m2, Ok SUCCESS)"
      "holds_blocks (e_treemap env) cap k (k + 1) 0 [] m2"
    using send_step [OF m1(3,2) assms(3-5) refl assms(6)] by blast
  have "k < 2 ^ 64" using assms(4,5) by simp
  then obtain m3 where "grpc_report_shuffle_result env (clock s k) test_app 0 [(k, [k])] m2 = (m3, Ok SUCCESS)"
      "holds_blocks (e_treemap env) cap (k + 1) (k + 1) 0 [] m3"
    using report_step [OF assms(1) m2(2) assms(3) _ refl] by blast
  with m1(1) m2(1) show ?thesis by (simp add: write_one_def test_length)
qed

lemma write_loop_all:
  assumes "treemap (e_treemap env)" and "holds_blocks (e_treemap env) cap k k 0 [] m" and "0 \<le> k" and "k \<le> n" and "22 * n \<le> cap" and "cap < 2 ^ 63"
    and "\<And>x. mset (map_order s x) = mset x"
  shows "\<exists>m'. write_loop env s [k..n - 1] m = (m', Ok ()) \<and> holds_blocks (e_treemap env) cap n n 0 [] m'"
  using assms(2-4)
proof (induction "nat (n - k)" arbitrary: k m)
  case 0
  then show ?case by simp
next
  case (Suc d)
  have k: "[k..n - 1] = k # [k + 1..n - 1]" "d = nat (n - (k + 1))" "k + 1 \<le> n" using Suc.hyps(2) by (auto simp: upto_rec1)
  obtain m1 where m1: "write_one env s k m = (m1, Ok ())" "holds_blocks (e_treemap env) cap (k + 1) (k + 1) 0 [] m1"
    using write_one_step [OF assms(1) Suc.prems(1,2) _ assms(6,7)] assms(5) k(3) by force
  with Suc.hyps(1) [OF k(2) m1(2) _ k(3)] Suc.prems(2) show ?case by (simp add: k(1))
qed

section \<open>What the client reads\<close>

lemma test_read:
  "get_v2 [] (-1) 10000000 None (test_buffer i) =
     \<lparr>shuffle_data_block_segments = [segment_of (test_block i) 0], mem_data = Composed (composed_from [test_data] 11)\<rparr>"
proof -
  have "all_blocks [] (test_buffer i) = [test_block i]" by (simp add: all_blocks_def test_buffer_def append_blocks_def new_buffer_def)
  then show ?thesis
    by (simp add: get_v2_page test_length page_def rest_after_def INVALID_BLOCK_ID_def filtered_out_def) (simp add: test_block_def)
qed

lemma holds_blocks_app:
  "holds_blocks tm cap n k al ts m \<Longrightarrow> app_knows tm n a \<Longrightarrow> holds_blocks tm cap n k al ts (set_apps (dm_insert test_app a (apps m)) m)"
  by (auto simp: holds_blocks_def get_app_def dm_simps store_calm_def Spill_Pipeline.pending_def)

lemma result_step:
  assumes "treemap_codec tm" and "holds_blocks tm cap n n 0 [] m" and "0 \<le> i" and "i < n" and "n < 2 ^ 64" and "tm = e_treemap env"
  shows "\<exists>m' bs t. grpc_get_shuffle_result env test_app 0 i m = (m', Ok (SUCCESS, bs)) \<and> tm_deserialize tm bs = Ok t \<and>
    length (tm_iter tm t) = 1 \<and> tm_contains tm t (u64 i) \<and> holds_blocks tm cap n n 0 [] m'"
proof -
  obtain a where a: "get_app test_app m = Some a" "app_knows tm n a" using assms(2) by (auto simp: holds_blocks_def)
  let ?uid = "\<lparr>app_id = test_app, shuffle_id = 0, partition_id = i\<rparr>"
  obtain a' where a': "get_partition_meta tm ?uid a = (a', meta_of tm ?uid a)" "\<And>v. meta_of tm v a' = meta_of tm v a"
      "huge_partition_marked_threshold a' = huge_partition_marked_threshold a"
    by (rule get_partition_metaE [of tm ?uid a]; blast)
  have i: "is_u64 i" "u64 i = i" using assms(3-5) by (simp_all add: is_u64_def u64_id)
  have "tm_contains tm (blocks_bitmap (meta_of tm ?uid a)) j = (j = i)" for j
    using a(2) assms(3,4) by (simp add: app_knows_def known_blocks_def)
  then obtain bs t where t: "tm_serialize tm (blocks_bitmap (meta_of tm ?uid a)) = Ok bs" "tm_deserialize tm bs = Ok t"
      "length (tm_iter tm t) = 1" "tm_contains tm t i"
    using treemap_codec.singleton_back [OF assms(1) i(1)] by blast
  have "app_knows tm n a'" using a(2) a'(2,3) by (simp add: app_knows_def known_blocks_def)
  moreover have "grpc_get_shuffle_result env test_app 0 i m = (set_apps (dm_insert test_app a' (apps m)) m, Ok (SUCCESS, bs))"
    using a(1) a'(1) t(1) assms(6) by (simp add: grpc_get_shuffle_result_def on_app_def get_block_ids_def meta_get_block_ids_def)
  ultimately show ?thesis using t(2-4) i(2) holds_blocks_app [OF assms(2)] by auto
qed

lemma memory_step:
  assumes "holds_blocks tm cap n n 0 [] m" and "0 \<le> i" and "i < n"
  shows "\<exists>m' status segs. grpc_get_memory_shuffle_data env [] now test_app 0 i (-1) 10000000 [] m = (m', Ok (status, segs, test_data)) \<and>
    map seg_block_id segs = [i] \<and> holds_blocks tm cap n n 0 [] m'"
proof -
  obtain a where a: "get_app test_app m = Some a" "app_knows tm n a" using assms(1) by (auto simp: holds_blocks_def)
  let ?uid = "\<lparr>app_id = test_app, shuffle_id = 0, partition_id = i\<rparr>"
  have b: "dm_get (state (hot_store (m_store m))) ?uid = Some (test_buffer i)"
    using assms by (simp add: holds_blocks_def hot_holds_def uid_in_def)
  have "grpc_get_memory_shuffle_data env [] now test_app 0 i (-1) 10000000 [] m =
      (set_apps (dm_insert test_app (app_heartbeat now a) (apps m)) m, Ok (SUCCESS, [segment_of (test_block i) 0], test_data))"
    using a(1) b
    by (simp add: grpc_get_memory_shuffle_data_def on_app_def app_select_def hybrid_get_def memory_get_def get_buffer_def task_filter_of_def
        test_read from_memory_def from_anyhow_def composed_freeze_concat composed_from_def)
  moreover have "map seg_block_id [segment_of (test_block i) 0] = [i]" by (simp add: segment_of_def test_block_def)
  ultimately show ?thesis using holds_blocks_app [OF assms(1)] a(2) by auto
qed

lemma local_step:
  assumes "holds_blocks tm cap n n 0 [] m"
  shows "\<exists>m'. read_localfile env s i acc m = (m', Ok acc) \<and> holds_blocks tm cap n n 0 [] m'"
proof -
  obtain a l where a: "get_app test_app m = Some a" "app_knows tm n a" "warm_store (m_store m) = Some (LocalStore l)" "partition_locks l = []"
    using assms by (auto simp: holds_blocks_def store_calm_def)
  have same: "(m_store m)\<lparr>warm_store := Some (LocalStore l)\<rparr> = m_store m" using a(3) by simp
  have "grpc_get_local_shuffle_index (clock s i) test_app 0 i m =
      (set_apps (dm_insert test_app (app_heartbeat (clock s i) a) (apps m)) m, Ok (SUCCESS, \<lparr>index_data = [], data_file_len = 0\<rparr>))"
    using a(1,3,4) by (simp add: grpc_get_local_shuffle_index_def on_app_def app_list_index_def hybrid_get_index_def localfile_get_index_def same)
  then show ?thesis using holds_blocks_app [OF assms] a(2) by (auto simp: read_localfile_def)
qed

section \<open>The whole test\<close>

lemma memory_read_step:
  assumes "treemap_codec (e_treemap env)" and "holds_blocks (e_treemap env) cap n n 0 [] m" and "0 \<le> i" and "i < n" and "n < 2 ^ 64"
    and "\<And>x. mset (flight_order s x) = mset x"
  shows "\<exists>m'. read_memory env s i acc m = (m', Ok (fst acc @ [i], snd acc @ test_data)) \<and> holds_blocks (e_treemap env) cap n n 0 [] m'"
proof -
  obtain m1 bs t where m1: "grpc_get_shuffle_result env test_app 0 i m = (m1, Ok (SUCCESS, bs))" "tm_deserialize (e_treemap env) bs = Ok t"
      "length (tm_iter (e_treemap env) t) = 1" "tm_contains (e_treemap env) t (u64 i)" "holds_blocks (e_treemap env) cap n n 0 [] m1"
    using result_step [OF assms(1-5) refl] by blast
  have "dm_get (state (hot_store (m_store m1))) (test_uid i) = Some (test_buffer i)"
    using m1(5) assms(3,4) by (simp add: holds_blocks_def hot_holds_def uid_in_def test_uid_def)
  moreover have "flight_order s (flight (test_buffer i)) = []"
    using assms(6) [of "[]"] by (simp add: test_buffer_def append_blocks_def new_buffer_def)
  moreover obtain m2 status segs where "grpc_get_memory_shuffle_data env [] (clock s i) test_app 0 i (-1) 10000000 [] m1 = (m2, Ok (status, segs, test_data))"
      "map seg_block_id segs = [i]" "holds_blocks (e_treemap env) cap n n 0 [] m2"
    using memory_step [OF m1(5) assms(3,4), of env "clock s i"] by (elim exE conjE) (rule that)
  ultimately show ?thesis using m1(1-4) by (simp add: read_memory_def)
qed

lemma memory_read_all:
  assumes "treemap_codec (e_treemap env)" and "holds_blocks (e_treemap env) cap n n 0 [] m" and "0 \<le> k" and "k \<le> n" and "n < 2 ^ 64"
    and "\<And>x. mset (flight_order s x) = mset x"
  shows "\<exists>m'. read_loop_with (read_memory env s) [k..n - 1] acc m =
      (m', Ok (fst acc @ [k..n - 1], snd acc @ concat (map (\<lambda>_. test_data) [k..n - 1]))) \<and>
    holds_blocks (e_treemap env) cap n n 0 [] m'"
  using assms(2-4)
proof (induction "nat (n - k)" arbitrary: k m acc)
  case 0
  then show ?case by simp
next
  case (Suc d)
  have k: "[k..n - 1] = k # [k + 1..n - 1]" "d = nat (n - (k + 1))" "k + 1 \<le> n" using Suc.hyps(2) by (auto simp: upto_rec1)
  obtain m1 where m1: "read_memory env s k acc m = (m1, Ok (fst acc @ [k], snd acc @ test_data))" "holds_blocks (e_treemap env) cap n n 0 [] m1"
    using memory_read_step [OF assms(1) Suc.prems(1,2) _ assms(5,6), of acc] k(3) by auto
  with Suc.hyps(1) [OF k(2) m1(2) _ k(3), of "(fst acc @ [k], snd acc @ test_data)"] Suc.prems(2) show ?case by (simp add: k(1))
qed

lemma local_read_all:
  "holds_blocks tm cap n n 0 [] m \<Longrightarrow>
    \<exists>m'. read_loop_with (read_localfile env s) todo acc m = (m', Ok acc) \<and> holds_blocks tm cap n n 0 [] m'"
proof (induction todo arbitrary: m)
  case (Cons i todo)
  then obtain m1 where m1: "read_localfile env s i acc m = (m1, Ok acc)" "holds_blocks tm cap n n 0 [] m1" using local_step by blast
  with Cons.IH [OF m1(2)] show ?case by simp
qed simp

text \<open>Without spill events the tasks of the spill have nothing to do.\<close>

lemma bus_step_needs_event: "bus_step env p q \<Longrightarrow> open_events (fst p) \<noteq> {#}"
  by (induction rule: bus_step.induct) (auto simp: Spill_Pipeline.pending_def events_def receive_def split: list.splits)

lemma bus_steps_idle: "(bus_step env)\<^sup>*\<^sup>* p q \<Longrightarrow> open_events (fst p) = {#} \<Longrightarrow> q = p"
  by (induction rule: converse_rtranclp_induct) (auto dest: bus_step_needs_event)

lemma started_store:
  assumes "server_main ops host ms (create_mem_localfile_config port cap path) = Ok sv" and "from_str cap = Ok c" and "0 \<le> c" and "c < 2 ^ 63"
  shows "store_calm c (m_store (sv_manager sv)) \<and> hot_holds 0 0 [] (hot_store (m_store (sv_manager sv))) \<and> apps (sv_manager sv) = [] \<and>
    cold_store (m_store (sv_manager sv)) = None \<and> m_config (sv_manager sv) = store_config (create_mem_localfile_config port cap path)"
  using assms
  by (auto simp: mem_localfile_config_defs server_main_def Let_def and_then_eq_Ok hybrid_from_def unwrap_def map_err_eq_Ok localfile_from_def
      contains_simps parse_size_option_def parse_size_def from_str_64M memory_store_from_def new_app_manager_def with_app_manager_def apps_def
      store_calm_def hot_holds_def new_budget_def new_ticket_manager_def new_child_bus_def Spill_Pipeline.pending_def i64_id split: if_splits)

lemma register_step:
  assumes "treemap (e_treemap env)" and "store_calm c (m_store m)" and "hot_holds 0 0 [] (hot_store (m_store m))" and "apps m = []"
    and "cold_store (m_store m) = None" and "m_config m = store_config (create_mem_localfile_config port cap path)" and "from_str cap = Ok c"
  shows "\<exists>m'. grpc_register_shuffle env now millis test_app 0 10 None m = (m', Ok SUCCESS) \<and> holds_blocks (e_treemap env) c 0 0 0 [] m'"
proof -
  obtain l where l: "warm_store (m_store m) = Some (LocalStore l)" using assms(2) by (auto simp: store_calm_def)
  have reg: "fst (hybrid_register_app env test_app opts (m_store m)) = m_store m" for opts
    using l assms(5) by (simp add: hybrid_register_app_def)
  obtain a where a: "app_from env now millis test_app opts (m_config m) (m_store m) = (m_store m, Ok (a opts))"
      "huge_partition_marked_threshold (a opts) = None" "bitmap_of_blocks (a opts) = []" for opts
    using assms(6,7) reg by (simp add: app_from_def Let_def parse_size_option_def parse_size_def unwrap_def mem_localfile_config_defs as_default_app_config_def)
  have knows: "app_knows (e_treemap env) 0 (register_shuffle now 0 (a opts))" for opts
    using a(2,3) treemap.default_contains [OF assms(1)]
    by (auto simp: app_knows_def known_blocks_def meta_of_def register_shuffle_def app_heartbeat_def new_meta_def)
  have "\<exists>opts. grpc_register_shuffle env now millis test_app 0 10 None m =
      (set_apps (dm_insert test_app (register_shuffle now 0 (a opts)) (apps m)) m, Ok SUCCESS)"
    using assms(4) by (simp add: grpc_register_shuffle_def manager_register_def get_app_def a(1) Let_def) blast
  then show ?thesis
    using assms(2,3) knows by (auto simp: holds_blocks_def get_app_def dm_simps store_calm_def Spill_Pipeline.pending_def)
qed

end
