(* ===== verification/Spec2Isabelle.thy ===== *)
theory Spec2Isabelle
  imports Memory_Accounting No_Loss App_Manager Urpc_Typed Urpc_Server Health Cli_Tool Hadoop_Client Metric_Export Metric_Gauges End_To_End
begin

text \<open>
  A shuffle server for Apache Uniffle.  Mappers reserve memory, send blocks of partitions and report their identifiers; reducers ask which blocks there are
  and read them from memory and from files.  This library models the server and proves that it keeps what it was given, counts its memory correctly, and
  speaks its protocols correctly.  File names are relative to \<^verbatim>\<open>src/src\<close>.

  \<^bold>\<open>Parts.\<close> Requests come in over gRPC (\<^verbatim>\<open>grpc/service.rs\<close>) or a binary protocol (\<^verbatim>\<open>urpc\<close>).  Both call the applications and their manager (\<^verbatim>\<open>app.rs\<close>), which call
  the hybrid store (\<^verbatim>\<open>store/hybrid.rs\<close>).  It writes to the memory store (\<^verbatim>\<open>store/memory.rs\<close>), which ties a buffer per partition to a budget and to tickets
  (\<^verbatim>\<open>store/mem\<close>).  When a buffer or the store holds too much, staged blocks are put in flight and an event about them goes through the event buses
  (\<^verbatim>\<open>event_bus.rs\<close>, \<^verbatim>\<open>store/spill\<close>) to a handler that writes them to local disks (\<^verbatim>\<open>store/localfile.rs\<close>, \<^verbatim>\<open>store/local\<close>) or to a remote file system
  (\<^verbatim>\<open>store/hdfs.rs\<close>, \<^verbatim>\<open>store/hadoop\<close>) and then releases their memory.  Around this stand the start of the process, heartbeats, metrics and an offline checker.

  \<^bold>\<open>Conventions\<close> (\<open>Prelude\<close>, \<open>Worker_Types\<close>, \<open>Text\<close>, \<open>Floats\<close>).  A Rust integer is an \<open>int\<close>; \<open>i64\<close>, \<open>i32\<close>, \<open>u64\<close> and \<open>u32\<close> wrap where the code may overflow, as
  the crate is built without overflow checks.  A result is an \<open>outcome\<close>: \<open>Ok\<close>, \<open>Err\<close> or \<open>Panic\<close>.  A hash map is an association list with distinct keys, and
  an iteration order that the code leaves open is an argument.  A struct is a record with the fields of the source, a method is a function from the old
  state to the new state and the result.  What runs under one lock, or without an interleaving that matters, is one step; where tasks interleave, an
  inductive relation has one rule for each critical section.  Floats are rationals rounded to 24 or 53 bits.

  \<^bold>\<open>Memory.\<close>
  \<^item> \<open>Budget\<close> (\<^verbatim>\<open>store/mem/budget.rs\<close>), \<open>Ticket\<close> (\<^verbatim>\<open>store/mem/ticket.rs\<close>), \<open>Buffer\<close> (\<^verbatim>\<open>store/mem/buffer.rs\<close>), \<open>Memory_Store\<close> (\<^verbatim>\<open>store/memory.rs\<close>): every operation.
    A read of a buffer is shown equal to a page of a reference list, and paging to return each wanted block once and in order; spilling chooses the
    largest buffers, enough and none too many.
  \<^item> \<open>Memory_Accounting\<close>: \<open>mem_step\<close> interleaves the operations of all requests.  A ledger of what is handed in and not yet settled turns the counters into
    exact equations: reserved memory is that of the tickets, used memory that of the buffers.

  \<^bold>\<open>Files.\<close>
  \<^item> \<open>Shuffle_Format\<close> (\<^verbatim>\<open>store/mod.rs\<close>, \<^verbatim>\<open>composed_bytes.rs\<close>): the data and index files and that the index decodes to the blocks.
  \<^item> \<open>Local_Disk\<close> (\<^verbatim>\<open>store/local/sync_io.rs\<close>, \<^verbatim>\<open>store/local/delegator.rs\<close>) and \<open>Localfile\<close> (\<^verbatim>\<open>store/localfile.rs\<close>): files under a schedule of faults, the health check,
    the choice of a disk, and that what was written is read back.
  \<^item> \<open>Indexed_Semaphore\<close> (\<^verbatim>\<open>semaphore_with_index.rs\<close>), \<open>Hdfs\<close> (\<^verbatim>\<open>store/hdfs.rs\<close>), \<open>Hadoop_Client\<close> (\<^verbatim>\<open>store/hadoop\<close>): writers of one partition have different files, and
    whatever fails, an index describes data that is in its file; both clients keep the contract \<open>hdfs_delegator\<close>.
  \<^item> \<open>Util\<close> (\<^verbatim>\<open>util.rs\<close>) and \<open>Cli_Tool\<close> (\<^verbatim>\<open>cli_tool.rs\<close>): the checksum, and that the checker reports exactly the damaged blocks.

  \<^bold>\<open>Spill.\<close>
  \<^item> \<open>Event_Bus\<close> (\<^verbatim>\<open>event_bus.rs\<close>) and \<open>Hybrid\<close> (\<^verbatim>\<open>store/hybrid.rs\<close>, \<^verbatim>\<open>store/spill\<close>): queues, permits, the store and both handlers.
  \<^item> \<open>Spill_Pipeline\<close>: \<open>bus_step\<close>, the tasks of the three buses.  Every event ends after a bounded number of steps, and the counters are exact.
  \<^item> \<open>Spill_Properties\<close>, \<open>Write_Path\<close>: the way of a block from memory to a file and to a reader, the storage chosen, and what an insert does to the memory.
  \<^item> \<open>No_Loss\<close>: a store with memory and working local disks refines a bag of blocks per partition, in any interleaving of inserts, spill tasks and reservations.

  \<^bold>\<open>Applications and protocols.\<close>
  \<^item> \<open>App_Meta\<close> and \<open>App_Manager\<close> (\<^verbatim>\<open>app.rs\<close>): reported blocks, huge partitions, registration, expiry and purging.  A purge removes everything of its application
    and nothing of another.
  \<^item> \<open>Grpc_Service\<close> (\<^verbatim>\<open>grpc/service.rs\<close>): every handler; a write within its ticket succeeds and settles its reservation exactly.
  \<^item> \<open>Urpc_Frame\<close>, \<open>Urpc_Stream\<close>, \<open>Urpc_Typed\<close> (\<^verbatim>\<open>urpc/frame.rs\<close>, \<^verbatim>\<open>urpc/connection.rs\<close>): frames are recognised however the socket cuts the stream, requests are
    read back, responses announce their length, and what the parsers accept is well typed.
  \<^item> \<open>Urpc_Command\<close>, \<open>Urpc_Server\<close> (\<^verbatim>\<open>urpc/command.rs\<close>, \<^verbatim>\<open>urpc/server.rs\<close>, \<^verbatim>\<open>urpc/shutdown.rs\<close>): a connection does what its requests do one after the other, a write leaves
    the state that the same write over gRPC leaves, and accepting ends.
  \<^item> \<open>Health\<close> (\<^verbatim>\<open>health_service.rs\<close>, \<^verbatim>\<open>heartbeat.rs\<close>, \<^verbatim>\<open>reject/mod.rs\<close>): the contents of a heartbeat and the policies of refusal.

  \<^bold>\<open>Process.\<close>
  \<^item> \<open>Readable_Size\<close> (\<^verbatim>\<open>readable_size.rs\<close>) and \<open>Server_Config\<close> (\<^verbatim>\<open>config.rs\<close>): sizes, defaults, and the configurations built in the source.
  \<^item> \<open>Metric_Registry\<close>, \<open>Metric_Export\<close>, \<open>Metric_Gauges\<close> (\<^verbatim>\<open>metric.rs\<close>, \<^verbatim>\<open>http/metrics.rs\<close>, \<^verbatim>\<open>store/spill/metrics.rs\<close> and others): what is registered, exported and counted.
  \<^item> \<open>Server_Start\<close> (\<^verbatim>\<open>main.rs\<close>, \<^verbatim>\<open>common.rs\<close>, \<^verbatim>\<open>storage.rs\<close>, \<^verbatim>\<open>tracing.rs\<close>, \<^verbatim>\<open>kerberos.rs\<close>, \<^verbatim>\<open>runtime/manager.rs\<close>, \<^verbatim>\<open>rpc.rs\<close>, \<^verbatim>\<open>http/http_service.rs\<close>): \<open>server_main\<close> is the order of the
    start; the store it builds satisfies the invariants from which the other theorems begin.
  \<^item> \<open>End_To_End\<close> (\<^verbatim>\<open>lib.rs\<close>): the client of the integration test over the gRPC handlers.  This theory proves that its assertions hold on a started server.

  \<^bold>\<open>Code of other projects\<close> is an argument, with a locale for what is relied on and an interpretation that shows the reliance can be met: \<open>wire_codec\<close> and \<open>typed_codec\<close>
  (integers on the wire), \<open>treemap\<close> and \<open>treemap_codec\<close> (bitmaps), \<open>streaming_hasher\<close> (checksums), \<open>hdfs_delegator\<close>, \<open>native_fs\<close> and \<open>hdrs_fs\<close> (remote files),
  \<open>prometheus_registry\<close> and \<open>metric_values\<close> (metrics).  Inside the program, \<open>keyed_store\<close> is the contract of a hash map and \<open>memory_account\<close> that of the budget,
  both interpreted on the definitions of the model.  The clock, hash functions and the answers of the host are plain arguments.

  \<^bold>\<open>Bounds.\<close> There is no fuel.  Loops that are not structural have a termination proof.  The loop that accepts connections may run for ever as far as its
  definition goes; it is a partial function, and it is proved to return.  The theorem of this theory holds for every number of partitions whose data fits
  twice into the memory; the source uses 3000.

  \<^bold>\<open>Theorems about defects.\<close> Some theorems show that the code does not do what it seems to mean: memory of late tickets is not given back
  (\<open>late_tickets_not_returned\<close>), a flush before the settlement leaks (\<open>early_flush_leaks\<close>), paging can skip a block when the map of flights changes its order
  (\<open>paging_reordered_skips\<close>), a failed append to an index misleads readers (\<open>failed_index_corrupts_reads\<close>), a stale timeout purges a live application
  (\<open>stale_timeout_still_purges\<close>), and two gauges never show a flush (\<open>flushing_gauges_idle\<close>).

  \<^bold>\<open>Not modelled.\<close> Sockets, the connections to coordinators, the sleep between rounds of periodic tasks, and the wrapper of the asynchronous runtime
  (\<^verbatim>\<open>runtime/mod.rs\<close>); memory allocators (\<^verbatim>\<open>mem_allocator\<close>); logs, spans and profiles, and the pages of \<^verbatim>\<open>http\<close> other than the metrics, which only observe;
  signals (\<^verbatim>\<open>signal.rs\<close>); messages that the build generates; the texts of messages for people; counters that handlers only raise; and
  \<open>start_uniffle_worker\<close> of \<^verbatim>\<open>lib.rs\<close>, a second start used by tests, in place of which the end-to-end theorem uses \<open>server_main\<close>.
\<close>

section \<open>From the start to the answers\<close>

text \<open>
  C2. The server passes its own end-to-end test.  A server that was started with memory for at least twice the data and a local directory gives the
  test client everything back: every reservation and every write succeeds, the bitmap of each partition has exactly the block reported for it, and what is read
  from memory and the local files is exactly what was written, in order.  This holds for any number of partitions, whatever the clock, the iteration
  orders of the hash maps and the lock of the spill do, and whatever the tasks of the spill do while the client sleeps.
\<close>

theorem write_read_succeeds:
  fixes env :: "('t, 'c, 'f) Env"
  assumes "treemap_codec (e_treemap env)" and "\<And>x. mset (map_order s x) = mset x" and "\<And>x. mset (flight_order s x) = mset x"
    and "\<And>m. \<exists>st lost. (bus_step env)\<^sup>*\<^sup>* (m_store m, []) (st, lost) \<and> pause m = m\<lparr>m_store := st\<rparr>"
    and "server_main ops host ms (create_mem_localfile_config port cap path) = Ok sv" and "from_str cap = Ok c"
    and "0 \<le> n" and "22 * n \<le> c" and "c < 2 ^ 63"
  shows "snd (write_read_for_one_time env s pause n (sv_manager sv)) = Ok ()"
proof -
  have tm: "treemap (e_treemap env)" using assms(1) by (rule treemap_codec.axioms(1))
  have c: "0 \<le> c" "n < 2 ^ 64" using assms(7-9) by simp_all
  obtain m1 where m1: "grpc_register_shuffle env (clock s 0) (clock s 0) test_app 0 10 None (sv_manager sv) = (m1, Ok SUCCESS)"
      "holds_blocks (e_treemap env) c 0 0 0 [] m1"
    using started_store [OF assms(5,6) c(1) assms(9)] register_step [OF tm _ _ _ _ _ assms(6)] by blast
  obtain m2 where m2: "write_loop env s [0..n - 1] m1 = (m2, Ok ())" "holds_blocks (e_treemap env) c n n 0 [] m2"
    using write_loop_all [OF tm m1(2) order_refl assms(7-9,2)] by blast
  have "pause m2 = m2" using assms(4) [of m2] m2(2) bus_steps_idle by (fastforce simp: holds_blocks_def store_calm_def)
  then obtain m3 where m3: "read_loop_with (read_memory env s) [0..n - 1] ([], []) (pause m2) =
      (m3, Ok ([0..n - 1], concat (map (\<lambda>_. test_data) [0..n - 1])))" "holds_blocks (e_treemap env) c n n 0 [] m3"
    using memory_read_all [OF assms(1) m2(2) order_refl assms(7) c(2) assms(3), of "([], [])"] by auto
  obtain m4 where "read_loop_with (read_localfile env s) [0..n - 1] ([0..n - 1], concat (map (\<lambda>_. test_data) [0..n - 1])) m3 =
      (m4, Ok ([0..n - 1], concat (map (\<lambda>_. test_data) [0..n - 1])))"
    using local_read_all [OF m3(2)] by blast
  with m1(1) m2(1) m3(1) assms(7) show ?thesis by (simp add: write_read_for_one_time_def Let_def)
qed

text \<open>The number of partitions of the source, on a server with one mebibyte.\<close>

definition sample_surroundings :: Surroundings where
  "sample_surroundings = \<lparr>clock = (\<lambda>i. 1700000000 + i), map_order = rev, flight_order = rev, lock_free = (\<lambda>p. even p)\<rparr>"

theorem write_read_succeeds_witness:
  "\<exists>sv :: (int list, unit, mem_hdfs, string list) Server.
     server_main list_registry sample_host (no_metrics list_registry) (create_mem_localfile_config 19999 ''1MiB'' ''/data'') = Ok sv \<and>
     snd (write_read_for_one_time (sample_env\<lparr>e_treemap := set_treemap\<rparr>) sample_surroundings (\<lambda>m. m) 3000 (sv_manager sv)) = Ok ()"
proof -
  obtain sv :: "(int list, unit, mem_hdfs, string list) Server" where
    sv: "server_main list_registry sample_host (no_metrics list_registry) (create_mem_localfile_config 19999 ''1MiB'' ''/data'') = Ok sv"
    using mem_localfile_starts [of sample_host "''10.0.0.1''" "[0, 1]" 19999 "''/data''" "''1MiB''" 1048576 list_registry "no_metrics list_registry"]
    by (auto simp: sample_host_def u16_def from_str_1MiB)
  have "snd (write_read_for_one_time (sample_env\<lparr>e_treemap := set_treemap\<rparr>) sample_surroundings (\<lambda>m. m) 3000 (sv_manager sv)) = Ok ()"
    using set_tm.treemap_codec_axioms
    by (intro write_read_succeeds [OF _ _ _ _ sv from_str_1MiB]) (auto simp: sample_surroundings_def)
  with sv show ?thesis by blast
qed

end
